(* ===== verification/Silo_Prelude.thy ===== *)
theory Silo_Prelude
  imports Main "HOL-Library.AList"
begin

text \<open>
  Shared vocabulary of the development: what a Go statement can do (\<open>outcome\<close>), Go maps as
  association lists (\<open>gomap\<close>), instants and durations in nanoseconds, fixed-width integers with
  their wrap-around written out, and the generic lemmas on lists and maps that the component
  theories share.  The collections \<open>go_simps\<close> and \<open>go_map\<close> carry the automation of the
  component proofs.
\<close>

named_theorems go_simps \<open>unfolding of the Go vocabulary\<close>
named_theorems go_map \<open>lookup, insertion and deletion in Go maps\<close>

section \<open>Outcomes of Go statements\<close>

text \<open>
  A Go statement completes, blocks for ever unless another goroutine acts, or panics.
  Error returns are ordinary values of a sum type inside \<open>Ok\<close>.
\<close>

datatype 'a outcome = Ok 'a | Block | Panic

primrec obind :: "'a outcome \<Rightarrow> ('a \<Rightarrow> 'b outcome) \<Rightarrow> 'b outcome" where
  "obind (Ok x) f = f x"
| "obind Block f = Block"
| "obind Panic f = Panic"

lemma obind_Ok_iff [simp]: "obind m f = Ok y \<longleftrightarrow> (\<exists>x. m = Ok x \<and> f x = Ok y)"
  by (cases m) auto

lemma Ok_obind_iff [simp]: "Ok y = obind m f \<longleftrightarrow> (\<exists>x. m = Ok x \<and> Ok y = f x)"
  by (cases m) auto

lemma obind_assoc: "obind (obind m f) g = obind m (\<lambda>x. obind (f x) g)"
  by (cases m) auto

text \<open>
  A \<^verbatim>\<open>select\<close> with several ready cases picks one at random: a statement that contains one has a
  list of possible outcomes, one for each choice, and \<open>lbind\<close> continues each of them.
\<close>

definition lbind :: "'a outcome list \<Rightarrow> ('a \<Rightarrow> 'b outcome list) \<Rightarrow> 'b outcome list" where
  "lbind outs f = concat (map (\<lambda>out. case out of Ok x \<Rightarrow> f x | Block \<Rightarrow> [Block] | Panic \<Rightarrow> [Panic]) outs)"

lemma lbind_Cons [simp]:
  "lbind [] f = []"
  "lbind (Ok x # outs) f = f x @ lbind outs f"
  "lbind (Block # outs) f = Block # lbind outs f"
  "lbind (Panic # outs) f = Panic # lbind outs f"
  by (simp_all add: lbind_def)

lemma lbind_append [simp]: "lbind (xs @ ys) f = lbind xs f @ lbind ys f"
  by (simp add: lbind_def)

lemma lbind_cases:
  assumes "out \<in> set (lbind outs f)"
  obtains (ok) x where "Ok x \<in> set outs" "out \<in> set (f x)"
  | (block) "Block \<in> set outs" "out = Block"
  | (panic) "Panic \<in> set outs" "out = Panic"
proof -
  from assms obtain out1 where o1: "out1 \<in> set outs"
      "out \<in> set (case out1 of Ok x \<Rightarrow> f x | Block \<Rightarrow> [Block] | Panic \<Rightarrow> [Panic])"
    by (auto simp: lbind_def)
  show thesis
  proof (cases out1)
    case (Ok x)
    with o1 show thesis by (intro ok) auto
  next
    case Block
    with o1 show thesis by (intro block) auto
  next
    case Panic
    with o1 show thesis by (intro panic) auto
  qed
qed

section \<open>Go maps\<close>

text \<open>
  A Go map is an association list with pairwise distinct keys.  The order of the list stands
  for the order in which \<^verbatim>\<open>range\<close> visits the map, which Go leaves unspecified: the
  theorems of the development hold for every list, hence for every iteration order.
\<close>

type_synonym ('k, 'v) gomap = "('k \<times> 'v) list"

definition gomap_ok :: "('k, 'v) gomap \<Rightarrow> bool" where
  "gomap_ok m \<longleftrightarrow> distinct (map fst m)"

abbreviation keys :: "('k, 'v) gomap \<Rightarrow> 'k set" where
  "keys m \<equiv> fst ` set m"

lemma gomap_ok_Nil [simp]: "gomap_ok []"
  by (simp add: gomap_ok_def)

lemma gomap_ok_update [simp]: "gomap_ok m \<Longrightarrow> gomap_ok (AList.update k v m)"
  by (simp add: gomap_ok_def AList.distinct_update)

lemma gomap_ok_delete [simp]: "gomap_ok m \<Longrightarrow> gomap_ok (AList.delete k m)"
  by (simp add: gomap_ok_def AList.distinct_delete)

lemma gomap_ok_filter [simp]: "gomap_ok m \<Longrightarrow> gomap_ok (filter P m)"
  unfolding gomap_ok_def by (induction m) auto

lemmas [go_map] = AList.update_conv' AList.delete_conv'

lemma gomap_in_iff: "gomap_ok m \<Longrightarrow> (k, v) \<in> set m \<longleftrightarrow> map_of m k = Some v"
  unfolding gomap_ok_def by (metis map_of_SomeD map_of_is_SomeI)

lemma set_delete: "set (AList.delete k m) = {(k', v) \<in> set m. k' \<noteq> k}"
  unfolding AList.delete_eq by auto

lemma keys_delete [simp]: "keys (AList.delete k m) = keys m - {k}"
  by (force simp: set_delete)

lemma set_update_fresh: "k \<notin> keys m \<Longrightarrow> set (AList.update k v m) = insert (k, v) (set m)"
  by (induction m) auto

lemma update_fresh: "k \<notin> keys m \<Longrightarrow> AList.update k v m = m @ [(k, v)]"
  by (induction m) auto

lemma keys_map_of: "k \<in> keys m \<longleftrightarrow> map_of m k \<noteq> None"
  by (simp add: map_of_eq_None_iff)

lemma map_of_filter_ok:
  "gomap_ok m \<Longrightarrow> map_of (filter (\<lambda>(k, v). P k v) m) k =
     (case map_of m k of Some v \<Rightarrow> if P k v then Some v else None | None \<Rightarrow> None)"
  unfolding gomap_ok_def
  by (induction m) (auto split: option.splits simp: image_iff map_of_eq_None_iff)

text \<open>
  Deleting the visited key while ranging over a map is safe in Go.  The loop
  \<^verbatim>\<open>for k, v := range m { if P { delete(m, k) } }\<close> leaves exactly the entries that fail the test.
\<close>

lemma fold_delete_filter:
  assumes "gomap_ok m"
  shows "fold (\<lambda>(k, v) m'. if P k v then AList.delete k m' else m') m m
       = filter (\<lambda>(k, v). \<not> P k v) m"
proof -
  have gen: "fold (\<lambda>(k, v) m'. if P k v then AList.delete k m' else m') xs ys
           = filter (\<lambda>(k, v). \<not> (\<exists>v'. (k, v') \<in> set xs \<and> P k v')) ys" for xs ys
  proof (induction xs arbitrary: ys)
    case Nil
    then show ?case by simp
  next
    case (Cons x xs)
    then show ?case
      by (cases x) (auto simp: AList.delete_eq intro!: filter_cong)
  qed
  have "(\<exists>v'. (k, v') \<in> set m \<and> P k v') \<longleftrightarrow> P k v" if "(k, v) \<in> set m" for k v
    using assms that by (auto simp: gomap_in_iff)
  then show ?thesis
    unfolding gen by (auto intro!: filter_cong)
qed

lemma set_update_subset: "set (AList.update k v m) \<subseteq> insert (k, v) (set m)"
  by (induction m) auto

lemma map_of_delete_other: "map_of (AList.delete k m) r = Some u \<Longrightarrow> r \<noteq> k \<and> map_of m r = Some u"
  by (auto simp: go_map split: if_splits)

section \<open>Time\<close>

text \<open>
  Instants (\<^verbatim>\<open>time.Time\<close>) and durations (\<^verbatim>\<open>time.Duration\<close>) are counted in nanoseconds.
  A duration is an \<^verbatim>\<open>int64\<close>: products wrap, and \<^verbatim>\<open>Time.Sub\<close> saturates.
\<close>

type_synonym gotime = int
type_synonym duration = int

definition wrap64 :: "int \<Rightarrow> int" where
  "wrap64 x = (x + 2 ^ 63) mod 2 ^ 64 - 2 ^ 63"

definition wrap32 :: "int \<Rightarrow> int" where
  "wrap32 x = (x + 2 ^ 31) mod 2 ^ 32 - 2 ^ 31"

definition second :: duration where "second = 1000000000"
definition minute :: duration where "minute = 60 * second"
definition hour :: duration where "hour = 60 * minute"

definition time_sub :: "gotime \<Rightarrow> gotime \<Rightarrow> duration" where
  "time_sub t u = max (- (2 ^ 63)) (min (2 ^ 63 - 1) (t - u))"

definition time_add :: "gotime \<Rightarrow> duration \<Rightarrow> gotime" where
  "time_add t d = t + d"

definition time_after :: "gotime \<Rightarrow> gotime \<Rightarrow> bool" where
  "time_after t u \<longleftrightarrow> u < t"

lemmas time_defs [go_simps] = second_def minute_def hour_def time_add_def time_after_def

lemma wrap64_id: "- (2 ^ 63) \<le> x \<Longrightarrow> x < 2 ^ 63 \<Longrightarrow> wrap64 x = x"
  by (simp add: wrap64_def)

lemma wrap32_id: "- (2 ^ 31) \<le> x \<Longrightarrow> x < 2 ^ 31 \<Longrightarrow> wrap32 x = x"
  by (simp add: wrap32_def)

lemma wrap64_range: "- (2 ^ 63) \<le> wrap64 x \<and> wrap64 x < 2 ^ 63"
  by (simp add: wrap64_def)

lemma wrap32_range: "- (2 ^ 31) \<le> wrap32 x \<and> wrap32 x < 2 ^ 31"
  by (simp add: wrap32_def)

lemma wrap32_mod: "wrap32 x = (if x mod 2 ^ 32 < 2 ^ 31 then x mod 2 ^ 32 else x mod 2 ^ 32 - 2 ^ 32)"
proof -
  define r where "r = x mod 2 ^ 32"
  have r: "0 \<le> r" "r < 2 ^ 32" by (simp_all add: r_def)
  have eq: "(x + 2 ^ 31) mod 2 ^ 32 = (r + 2 ^ 31) mod 2 ^ 32" unfolding r_def by (rule mod_add_left_eq [symmetric])
  show ?thesis
  proof (cases "r < 2 ^ 31")
    case True
    then have "(r + 2 ^ 31) mod 2 ^ 32 = r + 2 ^ 31" using r by (intro mod_pos_pos_trivial) simp_all
    with True eq show ?thesis unfolding wrap32_def r_def [symmetric] by simp
  next
    case False
    have "(r + 2 ^ 31) mod 2 ^ 32 = (r - 2 ^ 31 + 2 ^ 32) mod 2 ^ 32" by (simp add: add.commute)
    also have "\<dots> = (r - 2 ^ 31) mod 2 ^ 32" by (rule mod_add_self2)
    also have "\<dots> = r - 2 ^ 31" using False r by (intro mod_pos_pos_trivial) simp_all
    finally show ?thesis using False eq unfolding wrap32_def r_def [symmetric] by simp
  qed
qed

text \<open>Saturation never changes a comparison with a duration that itself fits.\<close>

lemma time_sub_greater:
  "0 \<le> d \<Longrightarrow> d < 2 ^ 63 - 1 \<Longrightarrow> d < time_sub t u \<longleftrightarrow> d < t - u"
  by (auto simp: time_sub_def)

section \<open>Lists\<close>

lemma distinct_map_snoc:
  "distinct (map f (xs @ [x])) \<longleftrightarrow> distinct (map f xs) \<and> f x \<notin> f ` set xs"
  by auto

lemma list_update_nth_other: "i \<noteq> j \<Longrightarrow> xs[i := x] ! j = xs ! j"
  by simp

lemma map_list_update_same: "f y = f (xs ! r) \<Longrightarrow> map f (xs[r := y]) = map f xs"
  by (cases "r < length xs") (auto simp: list_eq_iff_nth_eq nth_list_update)

lemma distinct_map_filter [simp]: "distinct (map f xs) \<Longrightarrow> distinct (map f (filter P xs))"
  by (induction xs) auto

lemma find_unique:
  assumes "distinct (map f xs)"
  shows "find (\<lambda>x. f x = k) xs = Some x \<longleftrightarrow> x \<in> set xs \<and> f x = k"
  using assms by (induction xs) auto

lemma find_absent: "k \<notin> f ` set xs \<Longrightarrow> find (\<lambda>x. f x = k) xs = None"
  by (induction xs) auto

end
