(* ===== verification/Go_Chan.thy ===== *)
theory Go_Chan
  imports Silo_Prelude
begin

text \<open>
  Buffered Go channels: contents in arrival order, capacity and whether the channel is closed.
  A send on a closed channel panics, a send on a full one blocks; a receive takes the oldest
  element, reports a closed and drained channel, or blocks.  The \<open>select\<close> forms with a
  \<open>default\<close> case are \<open>chan_try_send\<close> and \<open>chan_try_recv\<close>.
\<close>

record 'a chan =
  chan_buf :: "'a list"
  chan_cap :: nat
  chan_closed :: bool

definition make_chan :: "nat \<Rightarrow> 'a chan" where
  "make_chan n = \<lparr>chan_buf = [], chan_cap = n, chan_closed = False\<rparr>"

definition chan_room :: "'a chan \<Rightarrow> bool" where
  "chan_room c \<longleftrightarrow> length (chan_buf c) < chan_cap c"

definition chan_push :: "'a \<Rightarrow> 'a chan \<Rightarrow> 'a chan" where
  "chan_push x c = c\<lparr>chan_buf := chan_buf c @ [x]\<rparr>"

text \<open>\<^verbatim>\<open>c <- x\<close>\<close>

definition chan_send :: "'a \<Rightarrow> 'a chan \<Rightarrow> 'a chan outcome" where
  "chan_send x c =
     (if chan_closed c then Panic else if chan_room c then Ok (chan_push x c) else Block)"

text \<open>\<^verbatim>\<open>select { case c <- x: ... default: ... }\<close>: \<open>Ok None\<close> is the default case.\<close>

definition chan_try_send :: "'a \<Rightarrow> 'a chan \<Rightarrow> 'a chan option outcome" where
  "chan_try_send x c =
     (if chan_closed c then Panic else if chan_room c then Ok (Some (chan_push x c)) else Ok None)"

text \<open>
  \<^verbatim>\<open>select { case x, ok := <-c: ... default: ... }\<close>: \<open>None\<close> is the default case,
  \<open>Some (None, c)\<close> the closed and drained channel (\<open>ok\<close> is false).
\<close>

definition chan_try_recv :: "'a chan \<Rightarrow> ('a option \<times> 'a chan) option" where
  "chan_try_recv c =
     (case chan_buf c of
        x # xs \<Rightarrow> Some (Some x, c\<lparr>chan_buf := xs\<rparr>)
      | [] \<Rightarrow> if chan_closed c then Some (None, c) else None)"

text \<open>\<^verbatim>\<open>close(c)\<close>: closing a closed channel panics.\<close>

definition chan_close :: "'a chan \<Rightarrow> 'a chan outcome" where
  "chan_close c = (if chan_closed c then Panic else Ok (c\<lparr>chan_closed := True\<rparr>))"

definition chan_ok :: "'a chan \<Rightarrow> bool" where
  "chan_ok c \<longleftrightarrow> length (chan_buf c) \<le> chan_cap c"

lemma make_chan_simps [simp]:
  "chan_buf (make_chan n) = []" "chan_cap (make_chan n) = n" "\<not> chan_closed (make_chan n)"
  "chan_ok (make_chan n)"
  by (simp_all add: make_chan_def chan_ok_def)

lemma chan_push_simps [simp]:
  "chan_buf (chan_push x c) = chan_buf c @ [x]"
  "chan_cap (chan_push x c) = chan_cap c"
  "chan_closed (chan_push x c) = chan_closed c"
  by (simp_all add: chan_push_def)

lemma chan_send_open:
  "\<not> chan_closed c \<Longrightarrow> chan_room c \<Longrightarrow> chan_send x c = Ok (chan_push x c)"
  by (simp add: chan_send_def)

lemma chan_send_ok: "chan_send x c = Ok c' \<Longrightarrow> chan_ok c'"
  by (auto simp: chan_send_def chan_ok_def chan_room_def split: if_splits)

lemma chan_try_send_ok: "chan_try_send x c = Ok (Some c') \<Longrightarrow> chan_ok c'"
  by (auto simp: chan_try_send_def chan_ok_def chan_room_def split: if_splits)

lemma chan_close_open [simp]: "\<not> chan_closed c \<Longrightarrow> chan_close c = Ok (c\<lparr>chan_closed := True\<rparr>)"
  by (simp add: chan_close_def)

text \<open>First in, first out: what is sent into an empty channel is what is received next.\<close>

lemma chan_recv_send:
  "chan_buf c = [] \<Longrightarrow> chan_send x c = Ok c' \<Longrightarrow> chan_try_recv c' = Some (Some x, c)"
  by (auto simp: chan_send_def chan_try_recv_def chan_push_def split: if_splits)

end
