(* ===== verification/Port_Manager.thy ===== *)
theory Port_Manager
  imports Go_Chan "HOL-Library.Multiset"
begin

text \<open>
  \<^verbatim>\<open>internal/api/http/port_manager.go\<close>: the pool of TCP ports for the per-agent HTTP servers.
  The state is the record \<open>PortManager\<close>, the pool itself a buffered channel; the operations are
  \<open>NewPortManager\<close>, \<open>Allocate\<close>, \<open>Release\<close> and \<open>GetAllocations\<close>.  The invariant \<open>pm_inv\<close> says that
  the free and the allocated ports partition the configured range.  The locale \<open>port_pool\<close>
  states what the server manager relies on, and its interpretation discharges it here.

  The mutex covers the table of allocated ports only: \<^verbatim>\<open>Allocate\<close> receives from the channel before it takes
  the mutex, and \<^verbatim>\<open>Release\<close> sends after it has given it back.  \<open>Allocate\<close> and \<open>Release\<close> are the effect of a call
  that runs alone; \<open>pool_step\<close> interleaves their halves.
\<close>

section \<open>State and operations\<close>

record PortManager =
  availablePorts :: "int chan"
  allocatedPorts :: "(int, string) gomap"
  rangeStart :: int
  rangeEnd :: int

datatype pm_error =
    StartAfterEnd int int
  | PortsBelowOne int int
  | EndTooLarge int
  | NoAvailablePorts int int

text \<open>The loop \<^verbatim>\<open>for port := start; port <= end; port++ { pm.availablePorts <- port }\<close>.\<close>

function prefill :: "int \<Rightarrow> int \<Rightarrow> int chan \<Rightarrow> int chan outcome" where
  "prefill port end c =
     (if port \<le> end then obind (chan_send port c) (\<lambda>c'. prefill (port + 1) end c') else Ok c)"
  by pat_completeness auto
termination
  by (relation "measure (\<lambda>(port, end, c). nat (end + 1 - port))") auto

declare prefill.simps [simp del]

definition NewPortManager :: "int \<Rightarrow> int \<Rightarrow> (pm_error + PortManager) outcome" where
  "NewPortManager start end =
     (if start > end then Ok (Inl (StartAfterEnd start end))
      else if start < 1 \<or> end < 1 then Ok (Inl (PortsBelowOne start end))
      else if end > 65535 then Ok (Inl (EndTooLarge end))
      else
        let poolSize = end - start + 1 in
        obind (prefill start end (make_chan (nat poolSize)))
          (\<lambda>c. Ok (Inr \<lparr>availablePorts = c, allocatedPorts = [],
                        rangeStart = start, rangeEnd = end\<rparr>)))"

definition Allocate :: "string \<Rightarrow> PortManager \<Rightarrow> (pm_error + int) \<times> PortManager" where
  "Allocate agentID pm =
     (case chan_try_recv (availablePorts pm) of
        Some (Some port, c) \<Rightarrow>
          (Inr port, pm\<lparr>availablePorts := c,
                        allocatedPorts := AList.update port agentID (allocatedPorts pm)\<rparr>)
      | Some (None, c) \<Rightarrow>
          \<comment> \<open>receive from a closed channel yields port 0; the pool is never closed\<close>
          (Inr 0, pm\<lparr>availablePorts := c,
                     allocatedPorts := AList.update 0 agentID (allocatedPorts pm)\<rparr>)
      | None \<Rightarrow> (Inl (NoAvailablePorts (rangeStart pm) (rangeEnd pm)), pm))"

definition Release :: "int \<Rightarrow> PortManager \<Rightarrow> PortManager outcome" where
  "Release port pm =
     (case map_of (allocatedPorts pm) port of
        None \<Rightarrow> Ok pm
      | Some agentID \<Rightarrow>
          let pm' = pm\<lparr>allocatedPorts := AList.delete port (allocatedPorts pm)\<rparr> in
          obind (chan_send port (availablePorts pm'))
            (\<lambda>c. Ok (pm'\<lparr>availablePorts := c\<rparr>)))"

text \<open>\<^verbatim>\<open>maps.Copy\<close> into a fresh map, entry by entry.\<close>

definition GetAllocations :: "PortManager \<Rightarrow> (int, string) gomap" where
  "GetAllocations pm = fold (\<lambda>(port, agentID) m. AList.update port agentID m) (allocatedPorts pm) []"

section \<open>Invariant\<close>

definition free_ports :: "PortManager \<Rightarrow> int list" where
  "free_ports pm = chan_buf (availablePorts pm)"

definition pm_inv :: "PortManager \<Rightarrow> bool" where
  "pm_inv pm \<longleftrightarrow>
     1 \<le> rangeStart pm \<and> rangeStart pm \<le> rangeEnd pm \<and> rangeEnd pm \<le> 65535 \<and>
     \<not> chan_closed (availablePorts pm) \<and>
     chan_cap (availablePorts pm) = nat (rangeEnd pm - rangeStart pm + 1) \<and>
     distinct (free_ports pm @ map fst (allocatedPorts pm)) \<and>
     set (free_ports pm) \<union> keys (allocatedPorts pm) = {rangeStart pm..rangeEnd pm}"

lemma pm_invD:
  assumes "pm_inv pm"
  shows "gomap_ok (allocatedPorts pm)" "\<not> chan_closed (availablePorts pm)"
    "set (free_ports pm) \<inter> keys (allocatedPorts pm) = {}"
    "distinct (free_ports pm)"
    "keys (allocatedPorts pm) \<subseteq> {rangeStart pm..rangeEnd pm}"
    "set (free_ports pm) \<subseteq> {rangeStart pm..rangeEnd pm}"
    "1 \<le> rangeStart pm" "rangeEnd pm \<le> 65535"
  using assms unfolding pm_inv_def gomap_ok_def by auto

text \<open>The invariant fixes the sizes: every port is free or allocated, never both.\<close>

lemma pm_inv_length:
  assumes "pm_inv pm"
  shows "length (free_ports pm) + length (allocatedPorts pm) = chan_cap (availablePorts pm)"
proof -
  let ?all = "free_ports pm @ map fst (allocatedPorts pm)"
  from assms have "distinct ?all" and all: "set ?all = {rangeStart pm..rangeEnd pm}"
    by (simp_all add: pm_inv_def)
  then have "length ?all = card {rangeStart pm..rangeEnd pm}"
    by (metis distinct_card)
  with assms show ?thesis
    by (simp add: pm_inv_def)
qed

lemma prefill_eq:
  assumes "\<not> chan_closed c" "length (chan_buf c) + nat (end + 1 - port) \<le> chan_cap c"
  shows "prefill port end c = Ok (c\<lparr>chan_buf := chan_buf c @ [port..end]\<rparr>)"
  using assms
proof (induction port "end" c rule: prefill.induct)
  case (1 port "end" c)
  show ?case
  proof (cases "port \<le> end")
    case True
    with "1.prems" have room: "chan_room c" by (simp add: chan_room_def)
    with "1.prems" have send: "chan_send port c = Ok (chan_push port c)"
      by (simp add: chan_send_open)
    have "prefill (port + 1) end (chan_push port c)
        = Ok ((chan_push port c)\<lparr>chan_buf := chan_buf (chan_push port c) @ [port + 1..end]\<rparr>)"
      using True send "1.prems" by (intro "1.IH") auto
    then show ?thesis
      using True send by (simp add: prefill.simps [of port] upto_rec1 [of port] chan_push_def)
  next
    case False
    then show ?thesis by (simp add: prefill.simps)
  qed
qed

lemma NewPortManager_valid:
  assumes "1 \<le> start" "start \<le> end" "end \<le> 65535"
  shows "NewPortManager start end =
    Ok (Inr \<lparr>availablePorts = \<lparr>chan_buf = [start..end], chan_cap = nat (end - start + 1),
                                 chan_closed = False\<rparr>,
             allocatedPorts = [], rangeStart = start, rangeEnd = end\<rparr>)"
  using assms unfolding NewPortManager_def
  by (simp add: prefill_eq make_chan_def)

lemma Allocate_free:
  assumes "free_ports pm = p # ps"
  shows "Allocate a pm = (Inr p, pm\<lparr>availablePorts := (availablePorts pm)\<lparr>chan_buf := ps\<rparr>,
            allocatedPorts := AList.update p a (allocatedPorts pm)\<rparr>)"
  using assms by (simp add: Allocate_def chan_try_recv_def free_ports_def)

lemma Allocate_exhausted:
  assumes "pm_inv pm" "free_ports pm = []"
  shows "Allocate a pm = (Inl (NoAvailablePorts (rangeStart pm) (rangeEnd pm)), pm)"
  using assms by (simp add: Allocate_def chan_try_recv_def free_ports_def pm_inv_def)

lemma Release_unallocated: "p \<notin> keys (allocatedPorts pm) \<Longrightarrow> Release p pm = Ok pm"
  by (simp add: Release_def keys_map_of)

lemma Release_allocated:
  assumes inv: "pm_inv pm" and p: "p \<in> keys (allocatedPorts pm)"
  shows "Release p pm = Ok (pm\<lparr>availablePorts := chan_push p (availablePorts pm),
            allocatedPorts := AList.delete p (allocatedPorts pm)\<rparr>)"
proof -
  obtain a where a: "map_of (allocatedPorts pm) p = Some a"
    using p by (auto simp: keys_map_of)
  have "allocatedPorts pm \<noteq> []" using p by auto
  then have "chan_room (availablePorts pm)"
    using pm_inv_length [OF inv] by (simp add: chan_room_def free_ports_def) (cases "allocatedPorts pm"; simp)
  then have "chan_send p (availablePorts pm) = Ok (chan_push p (availablePorts pm))"
    using inv by (simp add: chan_send_open pm_inv_def)
  with a show ?thesis by (simp add: Release_def)
qed

lemma Allocate_inv:
  assumes "pm_inv pm" shows "pm_inv (snd (Allocate a pm))"
proof (cases "free_ports pm")
  case Nil
  with assms show ?thesis by (simp add: Allocate_exhausted)
next
  case (Cons p ps)
  with assms have "p \<notin> keys (allocatedPorts pm)"
    by (auto simp: pm_inv_def)
  with assms Cons show ?thesis
    by (auto simp: Allocate_free pm_inv_def free_ports_def update_fresh)
qed

lemma Release_inv:
  assumes "pm_inv pm" "Release p pm = Ok pm'" shows "pm_inv pm'"
proof (cases "p \<in> keys (allocatedPorts pm)")
  case True
  note D = pm_invD [OF assms(1)]
  have pm': "pm' = pm\<lparr>availablePorts := chan_push p (availablePorts pm),
            allocatedPorts := AList.delete p (allocatedPorts pm)\<rparr>"
    using assms(2) Release_allocated [OF assms(1) True] by simp
  have "distinct (map fst (AList.delete p (allocatedPorts pm)))"
    using D(1) by (simp add: gomap_ok_def AList.distinct_delete)
  moreover have "insert p (set (free_ports pm)) \<union> (keys (allocatedPorts pm) - {p})
      = {rangeStart pm..rangeEnd pm}"
    using assms(1) True unfolding pm_inv_def by blast
  moreover have "p \<notin> set (free_ports pm)"
    using D(3) True by blast
  ultimately show ?thesis
    using assms(1) D(3) unfolding pm' pm_inv_def
    by (simp add: free_ports_def)
next
  case False
  with assms show ?thesis by (simp add: Release_unallocated)
qed

section \<open>The interface the server manager relies on\<close>

text \<open>
  What a client of the pool may assume: a successful allocation takes the oldest free port and
  records its owner, a release puts an owned port at the back of the pool and never blocks,
  and a port is never free and owned at once.
\<close>

locale port_pool =
  fixes alloc :: "string \<Rightarrow> 'm \<Rightarrow> (pm_error + int) \<times> 'm"
    and rel :: "int \<Rightarrow> 'm \<Rightarrow> 'm outcome"
    and inv :: "'m \<Rightarrow> bool"
    and free :: "'m \<Rightarrow> int list"
    and owner :: "'m \<Rightarrow> int \<Rightarrow> string option"
  assumes alloc_inv: "inv m \<Longrightarrow> inv (snd (alloc a m))"
    and alloc_some: "inv m \<Longrightarrow> free m = p # ps \<Longrightarrow>
      fst (alloc a m) = Inr p \<and> free (snd (alloc a m)) = ps \<and>
      owner (snd (alloc a m)) = (owner m)(p \<mapsto> a)"
    and alloc_none: "inv m \<Longrightarrow> free m = [] \<Longrightarrow> \<exists>e. alloc a m = (Inl e, m)"
    and rel_owned: "inv m \<Longrightarrow> owner m p \<noteq> None \<Longrightarrow>
      \<exists>m'. rel p m = Ok m' \<and> inv m' \<and> free m' = free m @ [p] \<and> owner m' = (owner m)(p := None)"
    and rel_unowned: "owner m p = None \<Longrightarrow> rel p m = Ok m"
    and free_unowned: "inv m \<Longrightarrow> p \<in> set (free m) \<Longrightarrow> owner m p = None"
    and free_distinct: "inv m \<Longrightarrow> distinct (free m)"
    and free_positive: "inv m \<Longrightarrow> p \<in> set (free m) \<Longrightarrow> 0 < p"
begin

text \<open>Case analysis of an allocation, in the form the client's proofs use it.\<close>

lemma alloc_cases:
  assumes "inv m"
  obtains (exhausted) e where "free m = []" "alloc a m = (Inl e, m)"
  | (granted) p m' where "alloc a m = (Inr p, m')" "inv m'" "free m = p # free m'"
      "owner m' = (owner m)(p \<mapsto> a)" "owner m p = None" "0 < p"
proof (cases "free m")
  case Nil
  with assms exhausted show ?thesis by (blast dest: alloc_none [where a = a])
next
  case (Cons p ps)
  with assms have "alloc a m = (Inr p, snd (alloc a m))" "free m = p # free (snd (alloc a m))"
      "owner (snd (alloc a m)) = (owner m)(p \<mapsto> a)"
    using alloc_some [OF assms Cons, of a] by (auto simp: prod_eq_iff)
  moreover have "owner m p = None" "0 < p"
    using assms Cons by (auto intro: free_unowned free_positive)
  ultimately show ?thesis
    using granted alloc_inv [OF assms, of a] by blast
qed

lemma rel_total: "inv m \<Longrightarrow> \<exists>m'. rel p m = Ok m' \<and> inv m' \<and> owner m' = (owner m)(p := None)"
  using rel_owned [of m p] rel_unowned [of m p] by (cases "owner m p") (auto simp: fun_upd_idem)

text \<open>
  Giving a port back right after taking it, as a failed bind does, moves it from the front of
  the pool to the back and leaves the owners as they were.
\<close>

lemma alloc_rel_rotates:
  assumes "inv m" "free m = p # ps"
  shows "\<exists>m1 m2. alloc a m = (Inr p, m1) \<and> rel p m1 = Ok m2 \<and> inv m2 \<and>
    free m2 = ps @ [p] \<and> owner m2 = owner m"
proof -
  obtain m1 where m1: "alloc a m = (Inr p, m1)" "inv m1" "free m1 = ps"
      "owner m1 = (owner m)(p \<mapsto> a)" "owner m p = None"
    using alloc_cases [OF assms(1), of a] assms(2)
    by (metis list.distinct(1) list.inject)
  then obtain m2 where "rel p m1 = Ok m2" "inv m2" "free m2 = ps @ [p]"
      "owner m2 = (owner m1)(p := None)"
    using rel_owned [of m1 p] by auto
  with m1 show ?thesis by (auto simp: fun_upd_idem)
qed

end

abbreviation owner_of :: "PortManager \<Rightarrow> int \<Rightarrow> string option" where
  "owner_of pm \<equiv> map_of (allocatedPorts pm)"

interpretation pm: port_pool Allocate Release pm_inv free_ports owner_of
proof unfold_locales
  fix m a p ps
  assume "pm_inv m" and "free_ports m = p # ps"
  then show "fst (Allocate a m) = Inr p \<and> free_ports (snd (Allocate a m)) = ps \<and>
      owner_of (snd (Allocate a m)) = (owner_of m)(p \<mapsto> a)"
    by (simp add: Allocate_free go_map) (simp add: free_ports_def)
next
  fix m p
  assume inv: "pm_inv m" and "owner_of m p \<noteq> None"
  then have "p \<in> keys (allocatedPorts m)" by (simp add: keys_map_of)
  from Release_allocated [OF inv this] Release_inv [OF inv]
  show "\<exists>m'. Release p m = Ok m' \<and> pm_inv m' \<and> free_ports m' = free_ports m @ [p] \<and>
      owner_of m' = (owner_of m)(p := None)"
    by (simp add: go_map free_ports_def)
next
  fix m p
  assume "pm_inv m" and "p \<in> set (free_ports m)"
  with pm_invD(3) [of m] show "owner_of m p = None"
    by (auto simp: map_of_eq_None_iff)
next
  fix m p
  assume "pm_inv m" and "p \<in> set (free_ports m)"
  with pm_invD(6,7) [of m] show "0 < p" by auto
qed (auto simp: Allocate_inv Allocate_exhausted pm_invD Release_unallocated map_of_eq_None_iff)

section \<open>Histories of the pool\<close>

text \<open>Calls one after the other.\<close>

datatype pm_op = AllocateOp string | ReleaseOp int

fun pm_step :: "pm_op \<Rightarrow> PortManager \<Rightarrow> PortManager outcome" where
  "pm_step (AllocateOp a) pm = Ok (snd (Allocate a pm))"
| "pm_step (ReleaseOp p) pm = Release p pm"

fun pm_run :: "pm_op list \<Rightarrow> PortManager \<Rightarrow> PortManager outcome" where
  "pm_run [] pm = Ok pm"
| "pm_run (x # xs) pm = obind (pm_step x pm) (pm_run xs)"

lemma pm_step_inv: "pm_inv pm \<Longrightarrow> \<exists>pm'. pm_step x pm = Ok pm' \<and> pm_inv pm'"
  by (cases x) (auto simp: Allocate_inv dest: pm.rel_total)

lemma pm_run_inv: "pm_inv pm \<Longrightarrow> \<exists>pm'. pm_run xs pm = Ok pm' \<and> pm_inv pm'"
proof (induction xs arbitrary: pm)
  case Nil
  then show ?case by simp
next
  case (Cons x xs)
  then show ?case using pm_step_inv [OF Cons.prems, of x] by auto
qed

lemma pm_step_range:
  "pm_step x pm = Ok pm' \<Longrightarrow> rangeStart pm' = rangeStart pm \<and> rangeEnd pm' = rangeEnd pm"
  by (cases x) (auto simp: Allocate_def Release_def Let_def split: option.splits prod.splits)

lemma pm_run_range:
  "pm_run xs pm = Ok pm' \<Longrightarrow> rangeStart pm' = rangeStart pm \<and> rangeEnd pm' = rangeEnd pm"
  by (induction xs arbitrary: pm) (auto dest: pm_step_range)

lemma NewPortManager_inv:
  assumes "NewPortManager start end = Ok (Inr pm)"
  shows "pm_inv pm \<and> rangeStart pm = start \<and> rangeEnd pm = end \<and> free_ports pm = [start..end]
    \<and> allocatedPorts pm = []"
proof -
  have range: "1 \<le> start" "start \<le> end" "end \<le> 65535"
    using assms by (auto simp: NewPortManager_def split: if_splits)
  with assms show ?thesis
    by (auto simp: NewPortManager_valid pm_inv_def free_ports_def)
qed

section \<open>Interleavings of calls\<close>

text \<open>The halves of both operations, and what they amount to when nothing comes in between.\<close>

definition Allocate_recv :: "PortManager \<Rightarrow> (pm_error + int) \<times> PortManager" where
  "Allocate_recv pm =
     (case chan_try_recv (availablePorts pm) of
        Some (Some port, c) \<Rightarrow> (Inr port, pm\<lparr>availablePorts := c\<rparr>)
      | Some (None, c) \<Rightarrow> (Inr 0, pm\<lparr>availablePorts := c\<rparr>)
      | None \<Rightarrow> (Inl (NoAvailablePorts (rangeStart pm) (rangeEnd pm)), pm))"

definition Allocate_record :: "string \<Rightarrow> int \<Rightarrow> PortManager \<Rightarrow> PortManager" where
  "Allocate_record agentID port pm = pm\<lparr>allocatedPorts := AList.update port agentID (allocatedPorts pm)\<rparr>"

definition Release_delete :: "int \<Rightarrow> PortManager \<Rightarrow> bool \<times> PortManager" where
  "Release_delete port pm =
     (case map_of (allocatedPorts pm) port of
        None \<Rightarrow> (False, pm)
      | Some agentID \<Rightarrow> (True, pm\<lparr>allocatedPorts := AList.delete port (allocatedPorts pm)\<rparr>))"

definition Release_send :: "int \<Rightarrow> PortManager \<Rightarrow> PortManager outcome" where
  "Release_send port pm = obind (chan_send port (availablePorts pm)) (\<lambda>c. Ok (pm\<lparr>availablePorts := c\<rparr>))"

lemma Allocate_halves:
  "Allocate a pm = (case Allocate_recv pm of
      (Inl e, pm') \<Rightarrow> (Inl e, pm')
    | (Inr port, pm') \<Rightarrow> (Inr port, Allocate_record a port pm'))"
  by (simp add: Allocate_def Allocate_recv_def Allocate_record_def split: option.split prod.split)

lemma Release_halves:
  "Release p pm = (case Release_delete p pm of (False, pm') \<Rightarrow> Ok pm' | (True, pm') \<Rightarrow> Release_send p pm')"
  by (simp add: Release_def Release_delete_def Release_send_def Let_def split: option.split)

text \<open>
  Calls in flight: ports that were received and not yet recorded, with the agent, and ports that were deleted
  from the table and not yet sent back.
\<close>

record pool_state =
  pc_pool :: PortManager
  pc_taken :: "(string \<times> int) list"
  pc_returning :: "int list"

inductive pool_step :: "pool_state \<Rightarrow> pool_state \<Rightarrow> bool" where
  take: "Allocate_recv (pc_pool st) = (Inr p, pm') \<Longrightarrow>
    pool_step st (st\<lparr>pc_pool := pm', pc_taken := (a, p) # pc_taken st\<rparr>)"
| exhausted: "Allocate_recv (pc_pool st) = (Inl e, pm') \<Longrightarrow> pool_step st (st\<lparr>pc_pool := pm'\<rparr>)"
| recorded: "pc_taken st = ts @ (a, p) # us \<Longrightarrow>
    pool_step st (st\<lparr>pc_pool := Allocate_record a p (pc_pool st), pc_taken := ts @ us\<rparr>)"
| delete: "Release_delete p (pc_pool st) = (True, pm') \<Longrightarrow>
    pool_step st (st\<lparr>pc_pool := pm', pc_returning := p # pc_returning st\<rparr>)"
| unallocated: "Release_delete p (pc_pool st) = (False, pm') \<Longrightarrow> pool_step st (st\<lparr>pc_pool := pm'\<rparr>)"
| send: "pc_returning st = ts @ p # us \<Longrightarrow> Release_send p (pc_pool st) = Ok pm' \<Longrightarrow>
    pool_step st (st\<lparr>pc_pool := pm', pc_returning := ts @ us\<rparr>)"

text \<open>Every port is free, allocated, taken or returning, and in one of these places only.\<close>

definition port_places :: "pool_state \<Rightarrow> int multiset" where
  "port_places st = mset (free_ports (pc_pool st) @ map fst (allocatedPorts (pc_pool st)) @
     map snd (pc_taken st) @ pc_returning st)"

definition pool_inv :: "int \<Rightarrow> int \<Rightarrow> pool_state \<Rightarrow> bool" where
  "pool_inv start end st \<longleftrightarrow>
     1 \<le> start \<and> start \<le> end \<and> end \<le> 65535 \<and> rangeStart (pc_pool st) = start \<and> rangeEnd (pc_pool st) = end \<and>
     \<not> chan_closed (availablePorts (pc_pool st)) \<and> chan_cap (availablePorts (pc_pool st)) = nat (end - start + 1) \<and>
     port_places st = mset [start..end]"

lemma pool_inv_distinct:
  assumes "pool_inv start end st"
  shows "distinct (free_ports (pc_pool st) @ map fst (allocatedPorts (pc_pool st)) @ map snd (pc_taken st) @ pc_returning st)"
    (is "distinct ?l")
proof -
  have "mset ?l = mset [start..end]" using assms by (simp add: pool_inv_def port_places_def)
  from mset_eq_imp_distinct_iff [OF this] show ?thesis by simp
qed

lemma pool_inv_quiescent:
  assumes "pool_inv start end st" "pc_taken st = []" "pc_returning st = []"
  shows "pm_inv (pc_pool st)"
proof -
  let ?l = "free_ports (pc_pool st) @ map fst (allocatedPorts (pc_pool st))"
  have eq: "mset ?l = mset [start..end]" using assms by (simp add: pool_inv_def port_places_def)
  from mset_eq_imp_distinct_iff [OF eq] mset_eq_setD [OF eq] assms(1) show ?thesis
    by (simp add: pm_inv_def pool_inv_def)
qed

lemma pool_inv_room:
  assumes "pool_inv start end st" "pc_returning st = ts @ p # us"
  shows "Release_send p (pc_pool st) =
    Ok (pc_pool st\<lparr>availablePorts := chan_push p (availablePorts (pc_pool st))\<rparr>)"
proof -
  have "size (port_places st) = nat (end - start + 1)" using assms(1) by (simp add: pool_inv_def)
  then have "chan_room (availablePorts (pc_pool st))"
    using assms by (simp add: port_places_def pool_inv_def chan_room_def free_ports_def)
  with assms(1) show ?thesis by (simp add: Release_send_def chan_send_open pool_inv_def)
qed

lemma mset_delete:
  assumes "distinct (map fst m)" "p \<in> keys m"
  shows "add_mset p (mset (map fst (AList.delete p m))) = mset (map fst m)"
  using assms by (simp add: AList.delete_keys distinct_remove1_removeAll [symmetric] insert_DiffM del: mset_map)

lemma pool_step_inv:
  assumes "pool_step st st'" "pool_inv start end st"
  shows "pool_inv start end st'"
  using assms(1)
proof cases
  case (take p pm' a)
  with assms(2) show ?thesis
    by (auto simp: pool_inv_def port_places_def Allocate_recv_def chan_try_recv_def free_ports_def split: list.splits if_splits)
next
  case (exhausted e pm')
  with assms(2) show ?thesis
    by (auto simp: Allocate_recv_def split: option.splits)
next
  case (recorded ts a p us)
  have "p \<notin> keys (allocatedPorts (pc_pool st))"
    using pool_inv_distinct [OF assms(2)] recorded(2) by auto
  with recorded assms(2) show ?thesis
    by (simp add: pool_inv_def port_places_def Allocate_record_def update_fresh free_ports_def)
next
  case (delete p pm')
  then have p: "p \<in> keys (allocatedPorts (pc_pool st))"
      and pm': "pm' = pc_pool st\<lparr>allocatedPorts := AList.delete p (allocatedPorts (pc_pool st))\<rparr>"
    by (auto simp: Release_delete_def keys_map_of split: option.splits)
  have "distinct (map fst (allocatedPorts (pc_pool st)))" using pool_inv_distinct [OF assms(2)] by simp
  note split = mset_delete [OF this p, symmetric]
  show ?thesis
    using delete(1) pm' assms(2) by (simp add: pool_inv_def port_places_def free_ports_def split [simplified])
next
  case (unallocated p pm')
  with assms(2) show ?thesis by (auto simp: Release_delete_def split: option.splits)
next
  case (send ts p us pm')
  with pool_inv_room [OF assms(2) send(2)] assms(2) show ?thesis
    by (simp add: pool_inv_def port_places_def free_ports_def)
qed

section \<open>Properties\<close>

text \<open>
  \<open>NewPortManager\<close> accepts exactly the ranges with \<open>1 \<le> start \<le> end \<le> 65535\<close>.
  On those it fills the pool, without ever blocking on the channel, with every port of the
  range in increasing order, and nothing is allocated; on all others it returns an error.
\<close>

theorem NewPortManager_spec:
  "(1 \<le> start \<and> start \<le> end \<and> end \<le> 65535 \<longrightarrow>
      (\<exists>pm. NewPortManager start end = Ok (Inr pm) \<and> pm_inv pm \<and>
            free_ports pm = [start..end] \<and> allocatedPorts pm = [])) \<and>
   (\<not> (1 \<le> start \<and> start \<le> end \<and> end \<le> 65535) \<longrightarrow>
      (\<exists>e. NewPortManager start end = Ok (Inl e)))"
proof (intro conjI impI)
  assume "1 \<le> start \<and> start \<le> end \<and> end \<le> 65535"
  then show "\<exists>pm. NewPortManager start end = Ok (Inr pm) \<and> pm_inv pm \<and>
      free_ports pm = [start..end] \<and> allocatedPorts pm = []"
    by (auto simp: NewPortManager_valid pm_inv_def free_ports_def)
qed (auto simp: NewPortManager_def)

theorem NewPortManager_spec_witness:
  "\<exists>pm. NewPortManager 8100 8102 = Ok (Inr pm) \<and> pm_inv pm \<and> free_ports pm = [8100, 8101, 8102]"
  using NewPortManager_spec [of 8100 8102] by (auto simp: upto_rec1)

text \<open>
  An allocation hands out the oldest free port of the range, records the
  agent as its owner and touches no other owner; it fails only when every port of the range
  is allocated, and then changes nothing.
\<close>

theorem Allocate_spec:
  assumes "pm_inv pm"
  shows "case Allocate a pm of
      (Inr p, pm') \<Rightarrow> pm_inv pm' \<and> free_ports pm = p # free_ports pm' \<and>
         p \<in> {rangeStart pm..rangeEnd pm} \<and> owner_of pm p = None \<and>
         owner_of pm' = (owner_of pm)(p \<mapsto> a)
    | (Inl e, pm') \<Rightarrow> pm' = pm \<and> e = NoAvailablePorts (rangeStart pm) (rangeEnd pm) \<and>
         dom (owner_of pm) = {rangeStart pm..rangeEnd pm}"
  using assms
proof (cases rule: pm.alloc_cases [where a = a])
  case (exhausted e)
  with assms show ?thesis
    by (auto simp: Allocate_exhausted pm_inv_def dom_map_of_conv_image_fst)
next
  case (granted p pm')
  with pm_invD(6) [OF assms] show ?thesis by auto
qed

theorem Allocate_spec_witness:
  "let pm = \<lparr>availablePorts = \<lparr>chan_buf = [8101], chan_cap = 2, chan_closed = False\<rparr>,
             allocatedPorts = [(8100, ''a'')], rangeStart = 8100, rangeEnd = 8101\<rparr>
   in pm_inv pm \<and> fst (Allocate ''b'' pm) = Inr 8101 \<and> pm_inv (snd (Allocate ''b'' pm))"
proof -
  let ?pm = "\<lparr>availablePorts = \<lparr>chan_buf = [8101], chan_cap = 2, chan_closed = False\<rparr>,
             allocatedPorts = [(8100, ''a'')], rangeStart = 8100, rangeEnd = 8101\<rparr>"
  have inv: "pm_inv ?pm" by (auto simp: pm_inv_def free_ports_def)
  from Allocate_spec [OF inv, of "''b''"] inv show ?thesis
    by (simp add: Allocate_def chan_try_recv_def)
qed

text \<open>
  \<open>Release\<close> never blocks on the pool's channel.  It moves an allocated port to the
  back of the pool, does nothing for any other port, and releasing twice is releasing once.
\<close>

theorem Release_spec:
  assumes "pm_inv pm"
  shows "\<exists>pm'. Release p pm = Ok pm' \<and> pm_inv pm' \<and> owner_of pm' = (owner_of pm)(p := None) \<and>
    free_ports pm' = (if owner_of pm p = None then free_ports pm else free_ports pm @ [p]) \<and>
    Release p pm' = Ok pm'"
proof (cases "owner_of pm p = None")
  case True
  with assms show ?thesis by (auto simp: pm.rel_unowned)
next
  case False
  with pm.rel_owned [OF assms, of p] show ?thesis
    by (auto simp: pm.rel_unowned)
qed

theorem Release_spec_witness:
  "\<exists>pm'. Release 8100 \<lparr>availablePorts = \<lparr>chan_buf = [8101], chan_cap = 2, chan_closed = False\<rparr>,
            allocatedPorts = [(8100, ''a'')], rangeStart = 8100, rangeEnd = 8101\<rparr> = Ok pm' \<and>
         free_ports pm' = [8101, 8100] \<and> Release 8100 pm' = Ok pm'"
  (is "\<exists>pm'. Release 8100 ?pm = _ \<and> _ \<and> _")
proof -
  have inv: "pm_inv ?pm" by (auto simp: pm_inv_def free_ports_def)
  from Release_spec [OF inv, of 8100] show ?thesis
    by (auto simp: free_ports_def)
qed

text \<open>
  C10 (invariant): no history of allocations and releases loses or duplicates a port.  Whatever
  the operations and their order, they all complete, and afterwards the free and the allocated
  ports still partition the configured range; in particular their numbers add up to its size.  When calls
  overlap, which the mutex allows between the channel and the table, every port is in exactly one place: free,
  allocated, or in the hands of one call; a release never blocks on the channel, and once no call
  is in flight the free and the allocated ports partition the range again.
\<close>

theorem pool_conserves_ports:
  assumes "NewPortManager start end = Ok (Inr pm)"
  shows "(\<exists>pm'. pm_run ops pm = Ok pm' \<and>
      distinct (free_ports pm' @ map fst (allocatedPorts pm')) \<and>
      set (free_ports pm') \<union> dom (owner_of pm') = {start..end} \<and>
      int (length (free_ports pm') + length (allocatedPorts pm')) = end - start + 1) \<and>
    (\<forall>st. pool_step\<^sup>*\<^sup>* \<lparr>pc_pool = pm, pc_taken = [], pc_returning = []\<rparr> st \<longrightarrow>
      port_places st = mset [start..end] \<and>
      (\<forall>p\<in>set (pc_returning st). \<exists>pm'. Release_send p (pc_pool st) = Ok pm') \<and>
      (pc_taken st = [] \<and> pc_returning st = [] \<longrightarrow> pm_inv (pc_pool st)))"
proof (intro conjI allI impI)
  note new = NewPortManager_inv [OF assms]
  then obtain pm' where run: "pm_run ops pm = Ok pm'" and inv: "pm_inv pm'"
    using pm_run_inv by blast
  from pm_run_range [OF run] new inv pm_inv_length [OF inv]
  show "\<exists>pm'. pm_run ops pm = Ok pm' \<and> distinct (free_ports pm' @ map fst (allocatedPorts pm')) \<and>
      set (free_ports pm') \<union> dom (owner_of pm') = {start..end} \<and>
      int (length (free_ports pm') + length (allocatedPorts pm')) = end - start + 1"
    by (auto simp: run pm_inv_def dom_map_of_conv_image_fst)
  fix st assume reach: "pool_step\<^sup>*\<^sup>* \<lparr>pc_pool = pm, pc_taken = [], pc_returning = []\<rparr> st"
  have "pool_inv start end \<lparr>pc_pool = pm, pc_taken = [], pc_returning = []\<rparr>"
    using new by (simp add: pool_inv_def port_places_def pm_inv_def)
  with reach have I: "pool_inv start end st"
    by (induction rule: rtranclp_induct) (blast intro: pool_step_inv)+
  then show "port_places st = mset [start..end]" by (simp add: pool_inv_def)
  show "\<forall>p\<in>set (pc_returning st). \<exists>pm'. Release_send p (pc_pool st) = Ok pm'"
    using pool_inv_room [OF I] by (metis split_list)
  show "pm_inv (pc_pool st)" if "pc_taken st = [] \<and> pc_returning st = []"
    using pool_inv_quiescent [OF I] that by blast
qed

theorem pool_conserves_ports_witness:
  "\<exists>pm pm' st. NewPortManager 8100 8101 = Ok (Inr pm) \<and>
     pm_run [AllocateOp ''a'', AllocateOp ''b'', AllocateOp ''c'', ReleaseOp 8100, ReleaseOp 8100] pm
       = Ok pm' \<and> length (free_ports pm') + length (allocatedPorts pm') = 2 \<and>
     pool_step\<^sup>*\<^sup>* \<lparr>pc_pool = pm, pc_taken = [], pc_returning = []\<rparr> st \<and>
     pc_taken st = [(''b'', 8101), (''a'', 8100)] \<and> port_places st = mset [8100..8101]"
proof -
  have pm: "NewPortManager 8100 8101 = Ok (Inr \<lparr>availablePorts = \<lparr>chan_buf = [8100, 8101], chan_cap = 2, chan_closed = False\<rparr>,
      allocatedPorts = [], rangeStart = 8100, rangeEnd = 8101\<rparr>)" (is "_ = Ok (Inr ?pm)")
    by (simp add: NewPortManager_valid upto_rec1)
  let ?ops = "[AllocateOp ''a'', AllocateOp ''b'', AllocateOp ''c'', ReleaseOp 8100, ReleaseOp 8100]"
  note P = pool_conserves_ports [OF pm]
  obtain pm' where run: "pm_run ?ops ?pm = Ok pm'"
      and sizes: "int (length (free_ports pm') + length (allocatedPorts pm')) = 8101 - 8100 + 1"
    using P [of ?ops] by blast
  from sizes have two: "length (free_ports pm') + length (allocatedPorts pm') = 2" by linarith
  let ?s0 = "\<lparr>pc_pool = ?pm, pc_taken = [], pc_returning = []\<rparr>"
  let ?p1 = "?pm\<lparr>availablePorts := \<lparr>chan_buf = [8101], chan_cap = 2, chan_closed = False\<rparr>\<rparr>"
  let ?p2 = "?pm\<lparr>availablePorts := \<lparr>chan_buf = [], chan_cap = 2, chan_closed = False\<rparr>\<rparr>"
  let ?s1 = "?s0\<lparr>pc_pool := ?p1, pc_taken := [(''a'', 8100)]\<rparr>"
  let ?s2 = "?s1\<lparr>pc_pool := ?p2, pc_taken := [(''b'', 8101), (''a'', 8100)]\<rparr>"
  have "pool_step ?s0 ?s1" using pool_step.take [of ?s0 8100 ?p1 "''a''"] by (simp add: Allocate_recv_def chan_try_recv_def)
  moreover have "pool_step ?s1 ?s2" using pool_step.take [of ?s1 8101 ?p2 "''b''"] by (simp add: Allocate_recv_def chan_try_recv_def)
  ultimately have reach: "pool_step\<^sup>*\<^sup>* ?s0 ?s2" by (rule converse_rtranclp_into_rtranclp [OF _ r_into_rtranclp])
  with P have "port_places ?s2 = mset [8100..8101]" by blast
  with pm run two reach show ?thesis by fastforce
qed

end
