(* ===== verification/Agent_Server_Iface.thy ===== *)
theory Agent_Server_Iface
  imports Silo_Prelude
begin

text \<open>
  The Go interface \<^verbatim>\<open>AgentServerManager\<close> that \<^verbatim>\<open>internal/grpc/server/connection_manager.go\<close>
  declares so that the connection manager can start and stop HTTP servers without depending
  on their package.  An interface value is the record of its methods; the locale
  \<open>agent_server_iface\<close> states the contract that the connection manager needs from them.
\<close>

record ('m, 'e) AgentServerIface =
  iface_start :: "string \<Rightarrow> 'm \<Rightarrow> (('e + int) \<times> 'm) outcome"
  iface_stop :: "string \<Rightarrow> 'm \<Rightarrow> ('e option \<times> 'm) outcome"
  iface_shutdown :: "'m \<Rightarrow> ('e option \<times> 'm) outcome"

text \<open>
  The contract, in terms of the ports the manager serves (\<open>port m a\<close> is the port of agent \<open>a\<close>):
  no method blocks or panics; a start takes a port nobody else has, or changes no port; a stop
  frees the agent's port and only reports an error when there was none; a shutdown frees all.
\<close>

locale agent_server_iface =
  fixes I :: "('m, 'e) AgentServerIface"
    and inv :: "'m \<Rightarrow> bool"
    and port :: "'m \<Rightarrow> string \<Rightarrow> int option"
  assumes start_ok: "inv m \<Longrightarrow> \<exists>r m'. iface_start I a m = Ok (r, m') \<and> inv m' \<and>
      (case r of Inl e \<Rightarrow> port m' = port m
       | Inr p \<Rightarrow> 0 < p \<and> port m a = None \<and> (\<forall>b. port m b \<noteq> Some p) \<and> port m' = (port m)(a \<mapsto> p))"
    and stop_ok: "inv m \<Longrightarrow> \<exists>r m'. iface_stop I a m = Ok (r, m') \<and> inv m' \<and>
      port m' = (port m)(a := None) \<and> (r = None \<longleftrightarrow> port m a \<noteq> None)"
    and shutdown_ok: "inv m \<Longrightarrow> \<exists>r m'. iface_shutdown I m = Ok (r, m') \<and> inv m' \<and>
      port m' = Map.empty"
begin

lemma start_cases:
  assumes "inv m"
  obtains (failed) e m' where "iface_start I a m = Ok (Inl e, m')" "inv m'" "port m' = port m"
  | (started) p m' where "iface_start I a m = Ok (Inr p, m')" "inv m'" "0 < p" "port m a = None"
      "\<forall>b. port m b \<noteq> Some p" "port m' = (port m)(a \<mapsto> p)"
proof -
  obtain r m' where r: "iface_start I a m = Ok (r, m')" "inv m'"
      "case r of Inl e \<Rightarrow> port m' = port m
       | Inr p \<Rightarrow> 0 < p \<and> port m a = None \<and> (\<forall>b. port m b \<noteq> Some p) \<and> port m' = (port m)(a \<mapsto> p)"
    using start_ok [OF assms] by blast
  then show thesis
    using failed started by (cases r) simp_all
qed

lemma stop_cases:
  assumes "inv m"
  obtains r m' where "iface_stop I a m = Ok (r, m')" "inv m'" "port m' = (port m)(a := None)"
  using stop_ok [OF assms, of a] by blast

end

end
