(* ===== verification/Agent_Server_Manager.thy ===== *)
theory Agent_Server_Manager
  imports Port_Manager Agent_Server_Iface
begin

text \<open>
  \<^verbatim>\<open>internal/api/http/agent_server_manager.go\<close>: one HTTP server per connected agent, each on a
  port of the pool.  The state is the record \<open>AgentServerManager\<close>; besides the fields of the
  Go struct it holds what the operating system knows (\<open>listening\<close>, the open listeners) and
  which \<^verbatim>\<open>http.Server\<close> objects were closed and how.  Pointers to \<^verbatim>\<open>AgentServerInfo\<close> are
  compared by the code, so each info carries its address.  \<^verbatim>\<open>StopAgentServer\<close> gives up the mutex
  before it shuts the server down: its atomic parts are separate definitions, which the theory
  \<open>Agent_Server_Concurrency\<close> interleaves with the other operations and with servers that fail.
\<close>

section \<open>State and operations\<close>

definition maxPortBindRetries :: nat where "maxPortBindRetries = 3"

record AgentServerInfo =
  si_addr :: nat
  si_AgentID :: string
  si_Port :: int
  si_StartedAt :: gotime

datatype close_mode = Graceful | Forced

record AgentServerManager =
  servers :: "(string, AgentServerInfo) gomap"
  portManager :: PortManager
  next_info :: nat
  listening :: "(nat \<times> int) list"
  closed_servers :: "(nat \<times> close_mode) list"

datatype asm_error =
    ServerAlreadyExists string
  | FailedToAllocatePort pm_error
  | FailedAfterAttempts nat int
  | NoServerFound string

definition NewAgentServerManager :: "PortManager \<Rightarrow> AgentServerManager" where
  "NewAgentServerManager pm =
     \<lparr>servers = [], portManager = pm, next_info = 0, listening = [], closed_servers = []\<rparr>"

text \<open>
  \<^verbatim>\<open>net.Listen\<close> fails on a port the process already listens on; for every other port the
  operating system decides, attempt by attempt, which the argument \<open>os\<close> stands for.
\<close>

definition net_listen :: "(nat \<Rightarrow> int \<Rightarrow> bool) \<Rightarrow> nat \<Rightarrow> int \<Rightarrow> AgentServerManager \<Rightarrow> bool" where
  "net_listen os attempt port asm \<longleftrightarrow> port \<notin> snd ` set (listening asm) \<and> os attempt port"

text \<open>The loop of \<^verbatim>\<open>StartAgentServer\<close>; \<open>lastErr\<close> is the port whose binding failed last.\<close>

function start_attempts :: "(nat \<Rightarrow> int \<Rightarrow> bool) \<Rightarrow> gotime \<Rightarrow> string \<Rightarrow> nat \<Rightarrow> int option \<Rightarrow>
    AgentServerManager \<Rightarrow> ((asm_error + int) \<times> AgentServerManager) outcome" where
  "start_attempts os now agentID attempt lastErr asm =
     (if attempt \<le> maxPortBindRetries then
        (case Allocate agentID (portManager asm) of
           (Inl e, pm) \<Rightarrow> Ok (Inl (FailedToAllocatePort e), asm\<lparr>portManager := pm\<rparr>)
         | (Inr port, pm) \<Rightarrow>
             if \<not> net_listen os attempt port asm then
               obind (Release port pm) (\<lambda>pm'.
                 start_attempts os now agentID (Suc attempt) (Some port) (asm\<lparr>portManager := pm'\<rparr>))
             else
               let info = \<lparr>si_addr = next_info asm, si_AgentID = agentID, si_Port = port,
                           si_StartedAt = now\<rparr> in
               Ok (Inr port,
                   asm\<lparr>servers := AList.update agentID info (servers asm), portManager := pm,
                       next_info := Suc (next_info asm),
                       listening := (si_addr info, port) # listening asm\<rparr>))
      else
        (case lastErr of
           Some port \<Rightarrow> Ok (Inl (FailedAfterAttempts maxPortBindRetries port), asm)
         | None \<Rightarrow> Ok (Inr 0, asm)))"
  by pat_completeness auto
termination
  by (relation "measure (\<lambda>(os, now, agentID, attempt, lastErr, asm).
        Suc maxPortBindRetries - attempt)") auto

declare start_attempts.simps [simp del]

definition StartAgentServer :: "(nat \<Rightarrow> int \<Rightarrow> bool) \<Rightarrow> gotime \<Rightarrow> string \<Rightarrow> AgentServerManager \<Rightarrow>
    ((asm_error + int) \<times> AgentServerManager) outcome" where
  "StartAgentServer os now agentID asm =
     (case map_of (servers asm) agentID of
        Some _ \<Rightarrow> Ok (Inl (ServerAlreadyExists agentID), asm)
      | None \<Rightarrow> start_attempts os now agentID 1 None asm)"

text \<open>
  \<^verbatim>\<open>StopAgentServer\<close> in its three parts: the map entry is removed under the mutex; the server
  is shut down, by force when the graceful shutdown times out, and its listener closed; the
  port goes back to the pool.
\<close>

definition stop_detach :: "string \<Rightarrow> AgentServerManager \<Rightarrow> (AgentServerInfo \<times> AgentServerManager) option"
  where
  "stop_detach agentID asm =
     (case map_of (servers asm) agentID of
        None \<Rightarrow> None
      | Some info \<Rightarrow> Some (info, asm\<lparr>servers := AList.delete agentID (servers asm)\<rparr>))"

definition close_listener :: "AgentServerInfo \<Rightarrow> AgentServerManager \<Rightarrow> AgentServerManager" where
  "close_listener info asm = asm\<lparr>listening := AList.delete (si_addr info) (listening asm)\<rparr>"

definition stop_shutdown :: "bool \<Rightarrow> AgentServerInfo \<Rightarrow> AgentServerManager \<Rightarrow> AgentServerManager" where
  "stop_shutdown timed_out info asm =
     close_listener info
       (asm\<lparr>closed_servers := (si_addr info, if timed_out then Forced else Graceful) # closed_servers asm\<rparr>)"

definition release_port :: "AgentServerInfo \<Rightarrow> AgentServerManager \<Rightarrow> AgentServerManager outcome" where
  "release_port info asm =
     obind (Release (si_Port info) (portManager asm)) (\<lambda>pm. Ok (asm\<lparr>portManager := pm\<rparr>))"

definition StopAgentServer :: "bool \<Rightarrow> string \<Rightarrow> AgentServerManager \<Rightarrow>
    (asm_error option \<times> AgentServerManager) outcome" where
  "StopAgentServer timed_out agentID asm =
     (case stop_detach agentID asm of
        None \<Rightarrow> Ok (Some (NoServerFound agentID), asm)
      | Some (info, asm') \<Rightarrow>
          obind (release_port info (stop_shutdown timed_out info asm')) (\<lambda>asm''. Ok (None, asm'')))"

text \<open>The copies that \<^verbatim>\<open>GetAllServers\<close> returns, one per entry of the map.\<close>

definition GetAllServers :: "AgentServerManager \<Rightarrow> AgentServerInfo list" where
  "GetAllServers asm =
     map (\<lambda>(_, info). \<lparr>si_addr = si_addr info, si_AgentID = si_AgentID info, si_Port = si_Port info,
                       si_StartedAt = si_StartedAt info\<rparr>) (servers asm)"

text \<open>\<^verbatim>\<open>Shutdown\<close>: a snapshot of the agent identifiers, then one stop after the other.\<close>

fun stop_all :: "(string \<Rightarrow> bool) \<Rightarrow> string list \<Rightarrow> AgentServerManager \<Rightarrow> AgentServerManager outcome" where
  "stop_all timed_out [] asm = Ok asm"
| "stop_all timed_out (agentID # ids) asm =
     obind (StopAgentServer (timed_out agentID) agentID asm) (\<lambda>(_, asm'). stop_all timed_out ids asm')"

definition Shutdown :: "(string \<Rightarrow> bool) \<Rightarrow> AgentServerManager \<Rightarrow>
    (asm_error option \<times> AgentServerManager) outcome" where
  "Shutdown timed_out asm =
     obind (stop_all timed_out (map fst (servers asm)) asm) (\<lambda>asm'. Ok (None, asm'))"

text \<open>
  The goroutine of a server whose \<^verbatim>\<open>Serve\<close> returned an unexpected error: it closes the listener
  and then, under the mutex, cleans up, but only if the map still holds its own info.
\<close>

definition serve_cleanup :: "AgentServerInfo \<Rightarrow> AgentServerManager \<Rightarrow> AgentServerManager outcome" where
  "serve_cleanup serverInfo asm =
     (case map_of (servers asm) (si_AgentID serverInfo) of
        Some info \<Rightarrow>
          if si_addr info = si_addr serverInfo
          then release_port serverInfo
                 (asm\<lparr>servers := AList.delete (si_AgentID serverInfo) (servers asm)\<rparr>)
          else Ok asm
      | None \<Rightarrow> Ok asm)"

section \<open>Invariant\<close>

text \<open>
  \<open>live_inv S asm\<close>: \<open>S\<close> are all infos whose port is taken (those in the map and those being
  stopped).  Their ports are pairwise different, the pool's owner map lists exactly them, and
  every open listener belongs to one of them.
\<close>

definition live_inv :: "AgentServerInfo set \<Rightarrow> AgentServerManager \<Rightarrow> bool" where
  "live_inv S asm \<longleftrightarrow>
     pm_inv (portManager asm) \<and> inj_on si_Port S \<and> inj_on si_addr S \<and>
     (\<forall>i\<in>S. si_addr i < next_info asm) \<and>
     (\<forall>p a. owner_of (portManager asm) p = Some a \<longleftrightarrow> (\<exists>i\<in>S. si_Port i = p \<and> si_AgentID i = a)) \<and>
     (\<forall>(ad, p)\<in>set (listening asm). \<exists>i\<in>S. si_addr i = ad \<and> si_Port i = p)"

definition map_inv :: "AgentServerManager \<Rightarrow> bool" where
  "map_inv asm \<longleftrightarrow> gomap_ok (servers asm) \<and> (\<forall>(a, i)\<in>set (servers asm). si_AgentID i = a)"

abbreviation infos :: "AgentServerManager \<Rightarrow> AgentServerInfo set" where
  "infos asm \<equiv> snd ` set (servers asm)"

definition asm_inv :: "AgentServerManager \<Rightarrow> bool" where
  "asm_inv asm \<longleftrightarrow> map_inv asm \<and> live_inv (infos asm) asm"

definition port_of :: "AgentServerManager \<Rightarrow> string \<Rightarrow> int option" where
  "port_of asm agentID = map_option si_Port (map_of (servers asm) agentID)"

lemma live_inv_simps [simp]:
  "live_inv S (asm\<lparr>servers := m\<rparr>) \<longleftrightarrow> live_inv S asm"
  "live_inv S (asm\<lparr>closed_servers := c\<rparr>) \<longleftrightarrow> live_inv S asm"
  by (simp_all add: live_inv_def)

lemma live_inv_pm: "live_inv S asm \<Longrightarrow> pm_inv (portManager asm)"
  by (simp add: live_inv_def)

lemma live_inv_owner:
  "live_inv S asm \<Longrightarrow> i \<in> S \<Longrightarrow> owner_of (portManager asm) (si_Port i) = Some (si_AgentID i)"
  unfolding live_inv_def by blast

lemma live_inv_free:
  "live_inv S asm \<Longrightarrow> owner_of (portManager asm) p = None \<Longrightarrow> i \<in> S \<Longrightarrow> si_Port i \<noteq> p"
  using live_inv_owner by fastforce

text \<open>A free port carries none of our listeners: a failed bind is never our own fault.\<close>

lemma live_inv_not_listening:
  assumes "live_inv S asm" "owner_of (portManager asm) p = None"
  shows "p \<notin> snd ` set (listening asm)"
proof
  assume "p \<in> snd ` set (listening asm)"
  then obtain ad where "(ad, p) \<in> set (listening asm)" by auto
  with assms(1) obtain i where "i \<in> S" "si_Port i = p"
    unfolding live_inv_def by fast
  with live_inv_free [OF assms] show False by blast
qed

text \<open>Only the owners of the pool matter to the invariant, not the order of its free ports.\<close>

lemma live_inv_same_owners:
  assumes "live_inv S asm" "pm_inv pm" "owner_of pm = owner_of (portManager asm)"
  shows "live_inv S (asm\<lparr>portManager := pm\<rparr>)"
  using assms unfolding live_inv_def by simp

lemma live_inv_insert:
  assumes inv: "live_inv S asm" and pm: "pm_inv pm" "owner_of pm = (owner_of (portManager asm))(p \<mapsto> a)"
    and free: "owner_of (portManager asm) p = None"
    and i: "si_addr i = next_info asm" "si_AgentID i = a" "si_Port i = p"
  shows "live_inv (insert i S)
    (asm\<lparr>servers := m, portManager := pm, next_info := Suc (next_info asm),
        listening := (si_addr i, p) # listening asm\<rparr>)"
proof -
  have port: "\<forall>j\<in>S. si_Port j \<noteq> p"
    using live_inv_free [OF inv free] by blast
  have new: "i \<notin> S" "next_info asm \<notin> si_addr ` S"
    using inv i unfolding live_inv_def by auto
  have owner: "owner_of pm q = Some b \<longleftrightarrow> (\<exists>j\<in>insert i S. si_Port j = q \<and> si_AgentID j = b)" for q b
  proof (cases "q = p")
    case True
    with port i pm(2) show ?thesis by auto
  next
    case False
    with inv i pm(2) show ?thesis unfolding live_inv_def by auto
  qed
  show ?thesis
    using inv pm(1) port new i owner unfolding live_inv_def
    by (auto simp: inj_on_insert less_Suc_eq)
qed

lemma live_inv_close:
  "live_inv S asm \<Longrightarrow> live_inv S (close_listener i asm)"
  unfolding live_inv_def close_listener_def by (auto simp: set_delete)

lemma close_listener_simps [simp]:
  "si_addr i \<notin> keys (listening (close_listener i asm))"
  "servers (close_listener i asm) = servers asm"
  "portManager (close_listener i asm) = portManager asm"
  "next_info (close_listener i asm) = next_info asm"
  by (simp_all add: close_listener_def)

lemma live_inv_release:
  assumes inv: "live_inv S asm" and i: "i \<in> S" and closed: "si_addr i \<notin> keys (listening asm)"
  shows "\<exists>pm. release_port i asm = Ok (asm\<lparr>portManager := pm\<rparr>) \<and>
    live_inv (S - {i}) (asm\<lparr>portManager := pm\<rparr>) \<and>
    free_ports pm = free_ports (portManager asm) @ [si_Port i] \<and>
    owner_of pm = (owner_of (portManager asm))(si_Port i := None)"
proof -
  have "owner_of (portManager asm) (si_Port i) \<noteq> None"
    using live_inv_owner [OF inv i] by simp
  from pm.rel_owned [OF live_inv_pm [OF inv] this] obtain pm where
    pm: "Release (si_Port i) (portManager asm) = Ok pm" "pm_inv pm"
      "free_ports pm = free_ports (portManager asm) @ [si_Port i]"
      "owner_of pm = (owner_of (portManager asm))(si_Port i := None)"
    by blast
  have ports: "si_Port j \<noteq> si_Port i" if "j \<in> S - {i}" for j
    using inv i that unfolding live_inv_def inj_on_def by blast
  have owner: "owner_of pm q = Some b \<longleftrightarrow> (\<exists>j\<in>S - {i}. si_Port j = q \<and> si_AgentID j = b)" for q b
  proof (cases "q = si_Port i")
    case True
    with ports pm(4) show ?thesis by auto
  next
    case False
    with inv pm(4) show ?thesis unfolding live_inv_def by auto
  qed
  have "\<exists>j\<in>S - {i}. si_addr j = ad \<and> si_Port j = p" if l: "(ad, p) \<in> set (listening asm)" for ad p
  proof -
    obtain j where "j \<in> S" "si_addr j = ad" "si_Port j = p"
      using inv l unfolding live_inv_def by fast
    moreover have "j \<noteq> i"
      using closed l \<open>si_addr j = ad\<close> by (metis image_eqI fst_conv)
    ultimately show ?thesis by blast
  qed
  with inv pm(2) owner have "live_inv (S - {i}) (asm\<lparr>portManager := pm\<rparr>)"
    unfolding live_inv_def by (auto intro: inj_on_diff)
  with pm show ?thesis by (auto simp: release_port_def)
qed

section \<open>Effect of the operations\<close>

text \<open>
  Every start either fails and leaves the owners of all ports as they were, or takes one free
  port for the agent.
\<close>

definition started :: "gotime \<Rightarrow> string \<Rightarrow> AgentServerManager \<Rightarrow> int \<Rightarrow> PortManager \<Rightarrow> AgentServerManager" where
  "started now a asm p pm =
     asm\<lparr>servers := AList.update a \<lparr>si_addr = next_info asm, si_AgentID = a, si_Port = p,
                                     si_StartedAt = now\<rparr> (servers asm),
         portManager := pm, next_info := Suc (next_info asm),
         listening := (next_info asm, p) # listening asm\<rparr>"

lemma started_portManager [simp]:
  "started now a (asm\<lparr>portManager := pm1\<rparr>) p pm = started now a asm p pm"
  by (simp add: started_def)

lemma start_attempts_cases:
  assumes "pm_inv (portManager asm)" "attempt \<le> maxPortBindRetries \<or> lastErr \<noteq> None"
  shows "(\<exists>e pm. start_attempts os now a attempt lastErr asm = Ok (Inl e, asm\<lparr>portManager := pm\<rparr>) \<and>
            pm_inv pm \<and> owner_of pm = owner_of (portManager asm)) \<or>
         (\<exists>p pm. start_attempts os now a attempt lastErr asm = Ok (Inr p, started now a asm p pm) \<and>
            pm_inv pm \<and> 0 < p \<and> owner_of (portManager asm) p = None \<and>
            owner_of pm = (owner_of (portManager asm))(p \<mapsto> a))"
  using assms
proof (induction os now a attempt lastErr asm rule: start_attempts.induct)
  case (1 os now a attempt lastErr asm)
  let ?goal = "\<lambda>out. (\<exists>e pm. out = Ok (Inl e, asm\<lparr>portManager := pm\<rparr>) \<and> pm_inv pm \<and>
      owner_of pm = owner_of (portManager asm)) \<or>
    (\<exists>p pm. out = Ok (Inr p, started now a asm p pm) \<and> pm_inv pm \<and> 0 < p \<and>
      owner_of (portManager asm) p = None \<and> owner_of pm = (owner_of (portManager asm))(p \<mapsto> a))"
  show ?case
  proof (cases "attempt \<le> maxPortBindRetries")
    case False
    with "1.prems" obtain p where "lastErr = Some p" by auto
    with False "1.prems" have "start_attempts os now a attempt lastErr asm
        = Ok (Inl (FailedAfterAttempts maxPortBindRetries p), asm\<lparr>portManager := portManager asm\<rparr>)"
      by (simp add: start_attempts.simps)
    with "1.prems" show ?thesis by blast
  next
    case True
    note unfold = start_attempts.simps [of os now a attempt lastErr asm]
    from "1.prems"(1) show ?thesis
    proof (cases rule: pm.alloc_cases [where a = a])
      case (exhausted e)
      with True "1.prems" have "start_attempts os now a attempt lastErr asm
          = Ok (Inl (FailedToAllocatePort e), asm\<lparr>portManager := portManager asm\<rparr>)"
        by (simp add: unfold)
      with "1.prems" show ?thesis by blast
    next
      case (granted p pm')
      show ?thesis
      proof (cases "net_listen os attempt p asm")
        case True': True
        with True granted have "start_attempts os now a attempt lastErr asm
            = Ok (Inr p, started now a asm p pm')"
          by (simp add: unfold Let_def started_def)
        with granted show ?thesis by blast
      next
        case False
        obtain pm2 where rel: "Release p pm' = Ok pm2" "pm_inv pm2"
            and owners: "owner_of pm2 = owner_of (portManager asm)"
          using pm.rel_owned [of pm' p] granted by (auto simp: fun_upd_idem)
        have step: "start_attempts os now a attempt lastErr asm
            = start_attempts os now a (Suc attempt) (Some p) (asm\<lparr>portManager := pm2\<rparr>)"
          using True granted False rel by (simp add: unfold)
        have "?goal (start_attempts os now a (Suc attempt) (Some p) (asm\<lparr>portManager := pm2\<rparr>))"
          using "1.IH" [OF True granted(1) [symmetric] refl False, of pm2] rel owners
          by (simp add: fun_upd_def)
        then show ?thesis unfolding step .
      qed
    qed
  qed
qed

lemma infos_update: "map_of (servers asm) a = None \<Longrightarrow>
    snd ` set (AList.update a i (servers asm)) = insert i (infos asm)"
  by (simp add: set_update_fresh map_of_eq_None_iff)

lemma infos_delete:
  assumes "map_inv asm" "map_of (servers asm) a = Some i"
  shows "snd ` set (AList.delete a (servers asm)) = infos asm - {i}"
proof -
  have id: "si_AgentID j = b" if "(b, j) \<in> set (servers asm)" for b j
    using assms(1) that unfolding map_inv_def by auto
  have i: "(a, i) \<in> set (servers asm)" using assms(2) by (rule map_of_SomeD)
  have key: "b \<noteq> a \<longleftrightarrow> j \<noteq> i" if j: "(b, j) \<in> set (servers asm)" for b j
  proof -
    have "j = i" if "b = a"
      using assms j that by (simp add: map_inv_def gomap_in_iff)
    moreover have "b = a" if "j = i"
      using id [OF i] id [OF j] that by metis
    ultimately show ?thesis by blast
  qed
  have "snd ` set (AList.delete a (servers asm)) = {j. \<exists>b. (b, j) \<in> set (servers asm) \<and> b \<noteq> a}"
    by (auto simp: set_delete image_iff)
  also have "\<dots> = {j. \<exists>b. (b, j) \<in> set (servers asm) \<and> j \<noteq> i}"
    using key by blast
  also have "\<dots> = infos asm - {i}" by force
  finally show ?thesis .
qed

lemma map_inv_update: "map_inv asm \<Longrightarrow> si_AgentID i = a \<Longrightarrow> map_of (servers asm) a = None \<Longrightarrow>
    map_inv (asm\<lparr>servers := AList.update a i (servers asm)\<rparr>)"
  unfolding map_inv_def by (auto simp: set_update_fresh map_of_eq_None_iff)

lemma map_inv_delete: "map_inv asm \<Longrightarrow> map_inv (asm\<lparr>servers := AList.delete a (servers asm)\<rparr>)"
  unfolding map_inv_def by (auto simp: set_delete)

lemma map_inv_cong: "servers asm' = servers asm \<Longrightarrow> map_inv asm' \<longleftrightarrow> map_inv asm"
  by (simp add: map_inv_def)

lemma asm_inv_pm: "asm_inv asm \<Longrightarrow> pm_inv (portManager asm)"
  by (simp add: asm_inv_def live_inv_def)

lemma asm_inv_new: "pm_inv pm \<Longrightarrow> allocatedPorts pm = [] \<Longrightarrow> asm_inv (NewAgentServerManager pm)"
  by (simp add: asm_inv_def map_inv_def live_inv_def NewAgentServerManager_def)

lemma started_live:
  assumes "live_inv S asm" "pm_inv pm" "owner_of (portManager asm) p = None"
    "owner_of pm = (owner_of (portManager asm))(p \<mapsto> a)"
  shows "live_inv (insert \<lparr>si_addr = next_info asm, si_AgentID = a, si_Port = p, si_StartedAt = now\<rparr> S)
    (started now a asm p pm)"
  using live_inv_insert [OF assms(1,2,4,3),
      of "\<lparr>si_addr = next_info asm, si_AgentID = a, si_Port = p, si_StartedAt = now\<rparr>"]
  by (simp add: started_def)

lemma started_inv:
  assumes "asm_inv asm" "map_of (servers asm) a = None" "pm_inv pm"
    "owner_of (portManager asm) p = None" "owner_of pm = (owner_of (portManager asm))(p \<mapsto> a)"
  shows "asm_inv (started now a asm p pm) \<and> port_of (started now a asm p pm) = (port_of asm)(a \<mapsto> p)"
proof -
  have "map_inv (started now a asm p pm)"
    using assms(1,2) unfolding asm_inv_def map_inv_def started_def
    by (simp add: set_update_fresh map_of_eq_None_iff)
  moreover have "port_of (started now a asm p pm) = (port_of asm)(a \<mapsto> p)"
    by (auto simp: port_of_def started_def go_map)
  ultimately show ?thesis
    using started_live [of "infos asm" asm pm p a now] assms infos_update [OF assms(2)]
    unfolding asm_inv_def by (simp add: started_def)
qed

text \<open>A start in terms of the ports served, on every branch.\<close>

lemma StartAgentServer_cases:
  assumes inv: "pm_inv (portManager asm)"
  obtains (exists) "map_of (servers asm) a \<noteq> None"
      "StartAgentServer os now a asm = Ok (Inl (ServerAlreadyExists a), asm)"
  | (failed) e pm where "map_of (servers asm) a = None"
      "StartAgentServer os now a asm = Ok (Inl e, asm\<lparr>portManager := pm\<rparr>)"
      "pm_inv pm" "owner_of pm = owner_of (portManager asm)"
  | (granted) p pm where "map_of (servers asm) a = None"
      "StartAgentServer os now a asm = Ok (Inr p, started now a asm p pm)"
      "pm_inv pm" "0 < p" "owner_of (portManager asm) p = None"
      "owner_of pm = (owner_of (portManager asm))(p \<mapsto> a)"
proof (cases "map_of (servers asm) a")
  case None
  then have start: "StartAgentServer os now a asm = start_attempts os now a 1 None asm"
    by (simp add: StartAgentServer_def)
  have "(1::nat) \<le> maxPortBindRetries" by (simp add: maxPortBindRetries_def)
  then have "1 \<le> maxPortBindRetries \<or> (None :: int option) \<noteq> None" ..
  from start_attempts_cases [OF inv this, of os now a] show ?thesis
    unfolding start [symmetric]
  proof (elim disjE exE conjE)
    fix e pm
    assume "StartAgentServer os now a asm = Ok (Inl e, asm\<lparr>portManager := pm\<rparr>)" "pm_inv pm"
      "owner_of pm = owner_of (portManager asm)"
    with None show ?thesis by (rule failed)
  next
    fix p pm
    assume "StartAgentServer os now a asm = Ok (Inr p, started now a asm p pm)" "pm_inv pm" "0 < p"
      "owner_of (portManager asm) p = None" "owner_of pm = (owner_of (portManager asm))(p \<mapsto> a)"
    with None show ?thesis by (rule granted)
  qed
next
  case (Some i)
  then show ?thesis by (simp add: StartAgentServer_def exists)
qed

lemma asm_inv_same_owners:
  assumes "asm_inv asm" "pm_inv pm" "owner_of pm = owner_of (portManager asm)"
  shows "asm_inv (asm\<lparr>portManager := pm\<rparr>) \<and> port_of (asm\<lparr>portManager := pm\<rparr>) = port_of asm"
  using assms live_inv_same_owners [of "infos asm" asm pm]
  by (auto simp: asm_inv_def map_inv_def port_of_def)

lemma free_port_unserved:
  assumes "asm_inv asm" "owner_of (portManager asm) p = None"
  shows "port_of asm b \<noteq> Some p"
proof
  assume "port_of asm b = Some p"
  then obtain i where "map_of (servers asm) b = Some i" "si_Port i = p"
    by (auto simp: port_of_def)
  then have "i \<in> infos asm" by (force dest: map_of_SomeD)
  with assms \<open>si_Port i = p\<close> live_inv_free [of "infos asm" asm p i] show False
    by (simp add: asm_inv_def)
qed

text \<open>A stop removes the entry, closes server and listener, and frees the port.\<close>

lemma StopAgentServer_running:
  assumes inv: "asm_inv asm" and i: "map_of (servers asm) a = Some i"
  shows "\<exists>asm'. StopAgentServer t a asm = Ok (None, asm') \<and> asm_inv asm' \<and>
    servers asm' = AList.delete a (servers asm) \<and> next_info asm' = next_info asm \<and>
    listening asm' = AList.delete (si_addr i) (listening asm) \<and>
    closed_servers asm' = (si_addr i, if t then Forced else Graceful) # closed_servers asm \<and>
    free_ports (portManager asm') = free_ports (portManager asm) @ [si_Port i] \<and>
    owner_of (portManager asm') = (owner_of (portManager asm))(si_Port i := None)"
proof -
  let ?d = "asm\<lparr>servers := AList.delete a (servers asm)\<rparr>"
  let ?s = "stop_shutdown t i ?d"
  have mi: "map_inv asm" and li: "live_inv (infos asm) asm"
    using inv by (simp_all add: asm_inv_def)
  have "i \<in> infos asm" using i by (force dest: map_of_SomeD)
  moreover have "live_inv (infos asm) ?s"
    using li by (auto simp: stop_shutdown_def intro: live_inv_close)
  moreover have "si_addr i \<notin> keys (listening ?s)" by (simp add: stop_shutdown_def)
  ultimately obtain pm where pm: "release_port i ?s = Ok (?s\<lparr>portManager := pm\<rparr>)"
      "live_inv (infos asm - {i}) (?s\<lparr>portManager := pm\<rparr>)"
      "free_ports pm = free_ports (portManager ?s) @ [si_Port i]"
      "owner_of pm = (owner_of (portManager ?s))(si_Port i := None)"
    using live_inv_release by blast
  have sv: "servers (?s\<lparr>portManager := pm\<rparr>) = AList.delete a (servers asm)"
    by (simp add: stop_shutdown_def)
  have "asm_inv (?s\<lparr>portManager := pm\<rparr>)"
    using pm(2) map_inv_delete [OF mi, of a] infos_delete [OF mi i]
    unfolding asm_inv_def sv by (simp add: map_inv_def sv)
  moreover have "StopAgentServer t a asm = Ok (None, ?s\<lparr>portManager := pm\<rparr>)"
    using i pm(1) by (simp add: StopAgentServer_def stop_detach_def)
  ultimately show ?thesis
    using pm(3,4) sv by (auto simp: stop_shutdown_def close_listener_def)
qed

lemma StopAgentServer_absent:
  "map_of (servers asm) a = None \<Longrightarrow> StopAgentServer t a asm = Ok (Some (NoServerFound a), asm)"
  by (simp add: StopAgentServer_def stop_detach_def)

lemma StopAgentServer_total:
  assumes "asm_inv asm"
  shows "\<exists>r asm'. StopAgentServer t a asm = Ok (r, asm') \<and> asm_inv asm' \<and>
    servers asm' = AList.delete a (servers asm) \<and> (r = None \<longleftrightarrow> map_of (servers asm) a \<noteq> None)"
proof (cases "map_of (servers asm) a")
  case None
  then show ?thesis
    using assms by (simp add: StopAgentServer_absent map_of_eq_None_iff)
next
  case (Some i)
  with StopAgentServer_running [OF assms, of a i t] show ?thesis by auto
qed

lemma stop_all_total:
  assumes "asm_inv asm"
  shows "\<exists>asm'. stop_all t ids asm = Ok asm' \<and> asm_inv asm' \<and>
    servers asm' = filter (\<lambda>(a, i). a \<notin> set ids) (servers asm)"
  using assms
proof (induction ids arbitrary: asm)
  case Nil
  then show ?case by simp
next
  case (Cons a ids)
  obtain r asm1 where s1: "StopAgentServer (t a) a asm = Ok (r, asm1)" "asm_inv asm1"
      "servers asm1 = AList.delete a (servers asm)"
    using StopAgentServer_total [OF Cons.prems] by blast
  obtain asm2 where "stop_all t ids asm1 = Ok asm2" "asm_inv asm2"
      "servers asm2 = filter (\<lambda>(a, i). a \<notin> set ids) (servers asm1)"
    using Cons.IH [OF s1(2)] by blast
  with s1 show ?case
    by (auto simp: AList.delete_eq intro!: filter_cong)
qed

lemma Shutdown_total:
  assumes "asm_inv asm"
  shows "\<exists>asm'. Shutdown t asm = Ok (None, asm') \<and> asm_inv asm' \<and> servers asm' = []"
proof -
  obtain asm' where "stop_all t (map fst (servers asm)) asm = Ok asm'" "asm_inv asm'"
      "servers asm' = filter (\<lambda>(a, i). a \<notin> set (map fst (servers asm))) (servers asm)"
    using stop_all_total [OF assms] by blast
  moreover have "filter (\<lambda>(a, i). a \<notin> set (map fst (servers asm))) (servers asm) = []"
    by (force simp: filter_empty_conv)
  ultimately show ?thesis by (simp add: Shutdown_def)
qed

section \<open>The manager implements the interface\<close>

definition asm_iface :: "(nat \<Rightarrow> int \<Rightarrow> bool) \<Rightarrow> gotime \<Rightarrow> (string \<Rightarrow> bool) \<Rightarrow>
    (AgentServerManager, asm_error) AgentServerIface" where
  "asm_iface os now timed_out =
     \<lparr>iface_start = StartAgentServer os now,
      iface_stop = (\<lambda>a. StopAgentServer (timed_out a) a),
      iface_shutdown = Shutdown timed_out\<rparr>"

lemma port_of_delete: "servers asm' = AList.delete a (servers asm) \<Longrightarrow> port_of asm' = (port_of asm)(a := None)"
  by (auto simp: port_of_def go_map)

interpretation asm: agent_server_iface "asm_iface os now timed_out" asm_inv port_of
  for os now timed_out
proof
  fix m :: AgentServerManager and a
  assume inv: "asm_inv m"
  from asm_inv_pm [OF inv] show "\<exists>r m'. iface_start (asm_iface os now timed_out) a m = Ok (r, m') \<and> asm_inv m' \<and>
      (case r of Inl e \<Rightarrow> port_of m' = port_of m
       | Inr p \<Rightarrow> 0 < p \<and> port_of m a = None \<and> (\<forall>b. port_of m b \<noteq> Some p) \<and>
           port_of m' = (port_of m)(a \<mapsto> p))"
  proof (cases rule: StartAgentServer_cases [where a = a and os = os and now = now])
    case exists
    with inv show ?thesis by (simp add: asm_iface_def)
  next
    case (failed e pm)
    with asm_inv_same_owners [OF inv] show ?thesis by (simp add: asm_iface_def)
  next
    case (granted p pm)
    with started_inv [OF inv, of a pm p now] free_port_unserved [OF inv, of p] show ?thesis
      by (simp add: asm_iface_def) (simp add: port_of_def)
  qed
  obtain r m' where "StopAgentServer (timed_out a) a m = Ok (r, m')" "asm_inv m'"
      "servers m' = AList.delete a (servers m)" "r = None \<longleftrightarrow> map_of (servers m) a \<noteq> None"
    using StopAgentServer_total [OF inv] by blast
  then show "\<exists>r m'. iface_stop (asm_iface os now timed_out) a m = Ok (r, m') \<and> asm_inv m' \<and>
      port_of m' = (port_of m)(a := None) \<and> (r = None \<longleftrightarrow> port_of m a \<noteq> None)"
    by (simp add: asm_iface_def port_of_delete) (simp add: port_of_def)
  from Shutdown_total [OF inv, of timed_out]
  show "\<exists>r m'. iface_shutdown (asm_iface os now timed_out) m = Ok (r, m') \<and> asm_inv m' \<and>
      port_of m' = Map.empty"
    by (auto simp: asm_iface_def port_of_def fun_eq_iff)
qed

section \<open>Binding failures rotate the pool\<close>

lemma start_attempts_retry:
  assumes "attempt \<le> maxPortBindRetries" "Allocate a (portManager asm) = (Inr p, m1)"
    "\<not> net_listen os attempt p asm" "Release p m1 = Ok m2"
  shows "start_attempts os now a attempt lastErr asm
    = start_attempts os now a (Suc attempt) (Some p) (asm\<lparr>portManager := m2\<rparr>)"
  using assms by (subst start_attempts.simps) simp

lemma start_attempts_give_up:
  "start_attempts os now a (Suc maxPortBindRetries) (Some p) asm
    = Ok (Inl (FailedAfterAttempts maxPortBindRetries p), asm)"
  by (subst start_attempts.simps) simp

lemma start_attempts_rotates:
  assumes "pm_inv (portManager asm)" "free_ports (portManager asm) = ps" "ps \<noteq> []"
    and "\<And>k p. k \<ge> attempt \<Longrightarrow> p \<in> set ps \<Longrightarrow> \<not> net_listen os k p asm"
    and "attempt \<le> maxPortBindRetries"
  shows "\<exists>pm. start_attempts os now a attempt lastErr asm =
      Ok (Inl (FailedAfterAttempts maxPortBindRetries
                 (ps ! ((maxPortBindRetries - attempt) mod length ps))), asm\<lparr>portManager := pm\<rparr>) \<and>
    pm_inv pm \<and> owner_of pm = owner_of (portManager asm) \<and>
    free_ports pm = rotate (Suc maxPortBindRetries - attempt) ps"
  using assms
proof (induction "maxPortBindRetries - attempt" arbitrary: attempt lastErr asm ps)
  case (0 attempt lastErr asm ps)
  then have last: "attempt = maxPortBindRetries" by simp
  obtain p qs where ps: "ps = p # qs" using "0.prems"(3) by (cases ps) auto
  from pm.alloc_rel_rotates [OF "0.prems"(1) "0.prems"(2) [unfolded ps], of a]
  obtain m1 m2 where "Allocate a (portManager asm) = (Inr p, m1)" "Release p m1 = Ok m2" "pm_inv m2"
      "free_ports m2 = qs @ [p]" "owner_of m2 = owner_of (portManager asm)"
    by blast
  with "0.prems"(4) [of attempt p] last ps show ?case
    by (intro exI [of _ m2]) (simp add: start_attempts_retry start_attempts_give_up)
next
  case (Suc n attempt lastErr asm ps)
  obtain p qs where ps: "ps = p # qs" using Suc.prems(3) by (cases ps) auto
  from pm.alloc_rel_rotates [OF Suc.prems(1) Suc.prems(2) [unfolded ps], of a]
  obtain m1 m2 where m: "Allocate a (portManager asm) = (Inr p, m1)" "Release p m1 = Ok m2" "pm_inv m2"
      "free_ports m2 = qs @ [p]" "owner_of m2 = owner_of (portManager asm)"
    by blast
  have n: "n = maxPortBindRetries - Suc attempt" "Suc attempt \<le> maxPortBindRetries"
    using Suc.hyps(2) by simp_all
  have "\<not> net_listen os k q (asm\<lparr>portManager := m2\<rparr>)" if "k \<ge> Suc attempt" "q \<in> set (qs @ [p])" for k q
    using Suc.prems(4) [of k q] that ps by (simp add: net_listen_def)
  then obtain pm where pm: "start_attempts os now a (Suc attempt) (Some p) (asm\<lparr>portManager := m2\<rparr>) =
      Ok (Inl (FailedAfterAttempts maxPortBindRetries ((qs @ [p]) ! (n mod length (qs @ [p])))),
          asm\<lparr>portManager := pm\<rparr>)" "pm_inv pm" "owner_of pm = owner_of (portManager asm)"
      "free_ports pm = rotate (Suc maxPortBindRetries - Suc attempt) (qs @ [p])"
    using Suc.hyps(1) [of "Suc attempt" "asm\<lparr>portManager := m2\<rparr>" "qs @ [p]" "Some p"] n m
    by simp blast
  have idx: "(qs @ [p]) ! (n mod length (qs @ [p])) = ps ! (Suc n mod length ps)"
    using nth_rotate [of "n mod length ps" ps 1] by (simp add: ps mod_simps)
  have rot: "rotate (Suc maxPortBindRetries - Suc attempt) (qs @ [p])
      = rotate (Suc maxPortBindRetries - attempt) ps"
    using n ps by (simp add: Suc_diff_le rotate1_rotate_swap)
  have "start_attempts os now a attempt lastErr asm
      = start_attempts os now a (Suc attempt) (Some p) (asm\<lparr>portManager := m2\<rparr>)"
    using m Suc.prems(4) [of attempt p] Suc.prems(5) ps by (intro start_attempts_retry) simp_all
  with pm show ?case unfolding idx rot Suc.hyps(2) [symmetric] by (intro exI [of _ pm]) simp
qed

text \<open>
  The result of the attempts: attempt \<open>k\<close> takes the port at the front of the pool, which the failed attempts
  before it have rotated, and the first attempt that can listen decides.
\<close>

definition tried_port :: "nat \<Rightarrow> PortManager \<Rightarrow> int" where
  "tried_port k pm = free_ports pm ! ((k - 1) mod length (free_ports pm))"

lemma start_attempts_result:
  assumes "pm_inv (portManager asm)" "free_ports (portManager asm) = ps" "ps \<noteq> []"
    and "attempt \<le> maxPortBindRetries \<or> attempt = Suc maxPortBindRetries \<and> lastErr = Some q"
  shows "\<exists>asm'. start_attempts os now a attempt lastErr asm =
    Ok (case find (\<lambda>k. net_listen os k (hd (rotate (k - attempt) ps)) asm) [attempt..<Suc maxPortBindRetries] of
          Some k \<Rightarrow> Inr (hd (rotate (k - attempt) ps))
        | None \<Rightarrow> Inl (FailedAfterAttempts maxPortBindRetries
            (if attempt \<le> maxPortBindRetries then hd (rotate (maxPortBindRetries - attempt) ps) else q)), asm')"
  using assms
proof (induction "Suc maxPortBindRetries - attempt" arbitrary: attempt lastErr asm ps q)
  case 0
  then have "attempt = Suc maxPortBindRetries" "lastErr = Some q" by auto
  then show ?case by (simp add: start_attempts_give_up)
next
  case (Suc n)
  then have le: "attempt \<le> maxPortBindRetries" by simp
  then have upt: "[attempt..<Suc maxPortBindRetries] = attempt # [Suc attempt..<Suc maxPortBindRetries]"
    by (simp add: upt_conv_Cons)
  obtain p qs where ps: "ps = p # qs" using Suc.prems(3) by (cases ps) auto
  from pm.alloc_rel_rotates [OF Suc.prems(1) Suc.prems(2) [unfolded ps], of a]
  obtain m1 m2 where m: "Allocate a (portManager asm) = (Inr p, m1)" "Release p m1 = Ok m2" "pm_inv m2"
      "free_ports m2 = qs @ [p]" by blast
  show ?case
  proof (cases "net_listen os attempt p asm")
    case True
    with m le ps show ?thesis by (simp add: start_attempts.simps [of os now a attempt] upt Let_def del: upt_Suc)
  next
    case False
    let ?r = "\<lambda>k. hd (rotate (k - Suc attempt) (qs @ [p]))"
    have rot: "?r k = hd (rotate (k - attempt) ps)" if "Suc attempt \<le> k" for k
      using that ps by (simp add: Suc_diff_Suc [symmetric, of attempt k] rotate1_rotate_swap)
    have last: "(if Suc attempt \<le> maxPortBindRetries then ?r maxPortBindRetries else p) = hd (rotate (maxPortBindRetries - attempt) ps)"
      using rot [of maxPortBindRetries] le ps by (cases "attempt = maxPortBindRetries") auto
    have nl: "net_listen os k x (asm\<lparr>portManager := m2\<rparr>) = net_listen os k x asm" for k x by (simp add: net_listen_def)
    have same: "find (\<lambda>k. net_listen os k (?r k) (asm\<lparr>portManager := m2\<rparr>)) [Suc attempt..<Suc maxPortBindRetries] =
        find (\<lambda>k. net_listen os k (hd (rotate (k - attempt) ps)) asm) [Suc attempt..<Suc maxPortBindRetries]" (is "_ = ?f")
      unfolding nl by (rule find_cong) (auto simp: rot)
    have found: "?r k = hd (rotate (k - attempt) ps)" if "?f = Some k" for k
      using that rot [of k] by (auto simp: find_Some_iff simp del: upt_Suc)
    have n: "n = Suc maxPortBindRetries - Suc attempt" using Suc.hyps(2) le by simp
    have more: "Suc attempt \<le> maxPortBindRetries \<or> Suc attempt = Suc maxPortBindRetries \<and> Some p = Some p" using le by auto
    have m2: "pm_inv (portManager (asm\<lparr>portManager := m2\<rparr>))" "free_ports (portManager (asm\<lparr>portManager := m2\<rparr>)) = qs @ [p]"
      using m by simp_all
    obtain asm' where "start_attempts os now a (Suc attempt) (Some p) (asm\<lparr>portManager := m2\<rparr>) =
        Ok (case ?f of Some k \<Rightarrow> Inr (?r k)
          | None \<Rightarrow> Inl (FailedAfterAttempts maxPortBindRetries (hd (rotate (maxPortBindRetries - attempt) ps))), asm')"
      using Suc.hyps(1) [OF n m2 _ more] unfolding same last by blast
    then show ?thesis
      using start_attempts_retry [OF le m(1) False m(2), of now lastErr] False ps le found
      by (auto simp: upt split: option.split simp del: upt_Suc)
  qed
qed

lemma StartAgentServer_result:
  assumes "pm_inv (portManager asm)"
  shows "\<exists>asm'. StartAgentServer os now a asm = Ok (
    (if map_of (servers asm) a \<noteq> None then Inl (ServerAlreadyExists a)
     else if free_ports (portManager asm) = [] then
       Inl (FailedToAllocatePort (NoAvailablePorts (rangeStart (portManager asm)) (rangeEnd (portManager asm))))
     else
       case find (\<lambda>k. net_listen os k (tried_port k (portManager asm)) asm) [1..<Suc maxPortBindRetries] of
         Some k \<Rightarrow> Inr (tried_port k (portManager asm))
       | None \<Rightarrow> Inl (FailedAfterAttempts maxPortBindRetries (tried_port maxPortBindRetries (portManager asm)))), asm')"
proof (cases "map_of (servers asm) a = None \<and> free_ports (portManager asm) \<noteq> []")
  case True
  let ?pm = "portManager asm"
  have le: "1 \<le> maxPortBindRetries" by (simp add: maxPortBindRetries_def)
  have tried: "hd (rotate (k - 1) (free_ports ?pm)) = tried_port k ?pm" for k
    using True by (simp add: tried_port_def hd_rotate_conv_nth)
  from start_attempts_result [OF assms refl _ disjI1 [OF le], where lastErr = None and os = os and now = now and a = a] True le show ?thesis
    unfolding tried if_P [OF le] by (simp add: StartAgentServer_def del: upt_Suc One_nat_def)
next
  case False
  with Allocate_exhausted [OF assms, of a] show ?thesis
    by (auto simp: StartAgentServer_def start_attempts.simps maxPortBindRetries_def)
qed

text \<open>A manager on a two-port pool that serves one agent, for the examples.\<close>

definition example_asm :: AgentServerManager where
  "example_asm =
     \<lparr>servers = [(''a'', \<lparr>si_addr = 0, si_AgentID = ''a'', si_Port = 8100, si_StartedAt = 0\<rparr>)],
      portManager = \<lparr>availablePorts = \<lparr>chan_buf = [8101], chan_cap = 2, chan_closed = False\<rparr>,
                     allocatedPorts = [(8100, ''a'')], rangeStart = 8100, rangeEnd = 8101\<rparr>,
      next_info = 1, listening = [(0, 8100)], closed_servers = []\<rparr>"

lemma example_asm_inv: "asm_inv example_asm"
  unfolding example_asm_def asm_inv_def map_inv_def live_inv_def pm_inv_def
  by (auto simp: free_ports_def gomap_ok_def)

section \<open>Properties\<close>

text \<open>
  C16 (functional): \<open>StartAgentServer\<close> returns on every branch, with a result that the state determines, and
  keeps the invariant.  It reports "already exists" exactly for agents with a server, a failed allocation
  exactly when there is no free port, and gives up exactly when none of three attempts could listen, where
  the attempts go through the free ports in order and around; otherwise it returns the port of the first
  attempt that could.  On an error no server, listener or port owner changed.  On success
  the port was free, is now owned by the agent and listened on, and the agent's map entry records it.
\<close>

theorem StartAgentServer_spec:
  assumes "asm_inv asm"
  shows "\<exists>r asm'. StartAgentServer os now a asm = Ok (r, asm') \<and> asm_inv asm' \<and>
    r = (if map_of (servers asm) a \<noteq> None then Inl (ServerAlreadyExists a)
         else if free_ports (portManager asm) = [] then
           Inl (FailedToAllocatePort (NoAvailablePorts (rangeStart (portManager asm)) (rangeEnd (portManager asm))))
         else
           case find (\<lambda>k. net_listen os k (tried_port k (portManager asm)) asm) [1..<Suc maxPortBindRetries] of
             Some k \<Rightarrow> Inr (tried_port k (portManager asm))
           | None \<Rightarrow> Inl (FailedAfterAttempts maxPortBindRetries (tried_port maxPortBindRetries (portManager asm)))) \<and>
    (case r of
       Inl e \<Rightarrow> servers asm' = servers asm \<and> listening asm' = listening asm \<and>
         owner_of (portManager asm') = owner_of (portManager asm) \<and>
         (map_of (servers asm) a \<noteq> None \<longrightarrow> e = ServerAlreadyExists a \<and> asm' = asm)
     | Inr p \<Rightarrow> map_of (servers asm) a = None \<and> owner_of (portManager asm) p = None \<and> 0 < p \<and>
         (\<forall>b. port_of asm b \<noteq> Some p) \<and> port_of asm' = (port_of asm)(a \<mapsto> p) \<and>
         listening asm' = (next_info asm, p) # listening asm \<and>
         owner_of (portManager asm') = (owner_of (portManager asm))(p \<mapsto> a))"
  (is "\<exists>r asm'. _ \<and> _ \<and> r = ?r \<and> ?effect r asm'")
proof -
  have "\<exists>r asm'. StartAgentServer os now a asm = Ok (r, asm') \<and> asm_inv asm' \<and> ?effect r asm'"
    using asm_inv_pm [OF assms]
  proof (cases rule: StartAgentServer_cases [where a = a and os = os and now = now])
    case exists
    with assms show ?thesis by simp
  next
    case (failed e pm)
    with asm_inv_same_owners [OF assms, of pm] show ?thesis by simp
  next
    case (granted p pm)
    with started_inv [OF assms, of a pm p now] free_port_unserved [OF assms, of p] show ?thesis
      by simp (simp add: started_def)
  qed
  then obtain r asm' where run: "StartAgentServer os now a asm = Ok (r, asm')" "asm_inv asm'" "?effect r asm'" by blast
  moreover from StartAgentServer_result [OF asm_inv_pm [OF assms], of os now a] run(1) have "r = ?r" by (elim exE) simp
  ultimately show ?thesis by blast
qed

theorem StartAgentServer_spec_witness:
  "asm_inv example_asm \<and>
   (\<exists>asm'. StartAgentServer (\<lambda>k p. k = 2) 7 ''b'' example_asm = Ok (Inr 8101, asm') \<and>
      port_of asm' = [''a'' \<mapsto> 8100, ''b'' \<mapsto> 8101]) \<and>
   (\<exists>asm'. StartAgentServer (\<lambda>k p. False) 7 ''b'' example_asm = Ok (Inl (FailedAfterAttempts 3 8101), asm') \<and>
      listening asm' = [(0, 8100)])"
proof -
  let ?pm = "portManager example_asm"
  have ex: "map_of (servers example_asm) ''b'' = None" "free_ports ?pm = [8101]" "listening example_asm = [(0, 8100)]"
    "port_of example_asm = [''a'' \<mapsto> 8100]"
    by (auto simp: example_asm_def free_ports_def port_of_def)
  have up: "[1..<Suc maxPortBindRetries] = [1, 2, 3]" by (simp add: maxPortBindRetries_def upt_rec)
  have tried: "tried_port k ?pm = 8101" for k by (simp add: tried_port_def ex(2))
  have three: "maxPortBindRetries = 3" by (simp add: maxPortBindRetries_def)
  note spec = StartAgentServer_spec [OF example_asm_inv, of _ 7 "''b''", unfolded up tried ex]
  have "\<exists>asm'. StartAgentServer (\<lambda>k p. k = 2) 7 ''b'' example_asm = Ok (Inr 8101, asm') \<and>
      port_of asm' = [''a'' \<mapsto> 8100, ''b'' \<mapsto> 8101]"
    using spec [of "\<lambda>k p. k = 2"] by (auto simp: net_listen_def ex)
  moreover have "\<exists>asm'. StartAgentServer (\<lambda>k p. False) 7 ''b'' example_asm = Ok (Inl (FailedAfterAttempts 3 8101), asm') \<and>
      listening asm' = [(0, 8100)]"
    using spec [of "\<lambda>k p. False"] by (auto simp: net_listen_def three)
  ultimately show ?thesis using example_asm_inv by blast
qed

text \<open>
  \<open>StopAgentServer\<close> of a served agent always succeeds: the entry is gone, the
  server closed gracefully or, after the timeout, by force, its listener closed, and its port is at
  the back of the pool without an owner.  For any other agent it reports an error and changes
  nothing.  Both keep the invariant.
\<close>

theorem StopAgentServer_spec:
  assumes "asm_inv asm"
  shows "case map_of (servers asm) a of
      None \<Rightarrow> StopAgentServer timed_out a asm = Ok (Some (NoServerFound a), asm)
    | Some i \<Rightarrow> \<exists>asm'. StopAgentServer timed_out a asm = Ok (None, asm') \<and> asm_inv asm' \<and>
        servers asm' = AList.delete a (servers asm) \<and>
        listening asm' = AList.delete (si_addr i) (listening asm) \<and>
        closed_servers asm' = (si_addr i, if timed_out then Forced else Graceful) # closed_servers asm \<and>
        free_ports (portManager asm') = free_ports (portManager asm) @ [si_Port i] \<and>
        owner_of (portManager asm') = (owner_of (portManager asm))(si_Port i := None)"
proof (cases "map_of (servers asm) a")
  case None
  then show ?thesis by (simp add: StopAgentServer_absent)
next
  case (Some i)
  from StopAgentServer_running [OF assms Some, of timed_out] Some show ?thesis by auto
qed

theorem StopAgentServer_spec_witness:
  "\<exists>asm'. StopAgentServer True ''a'' example_asm = Ok (None, asm') \<and> servers asm' = [] \<and>
     listening asm' = [] \<and> free_ports (portManager asm') = [8101, 8100]"
  using StopAgentServer_spec [OF example_asm_inv, where a = "''a''" and timed_out = True]
  by (auto simp: example_asm_def free_ports_def)

text \<open>
  \<open>Shutdown\<close> returns without an error, and afterwards there is no server, no open
  listener, and every port of the configured range is free again, whichever of the graceful
  shutdowns time out.
\<close>

theorem Shutdown_releases_everything:
  assumes "asm_inv asm"
  shows "\<exists>asm'. Shutdown timed_out asm = Ok (None, asm') \<and> asm_inv asm' \<and> servers asm' = [] \<and>
    listening asm' = [] \<and> allocatedPorts (portManager asm') = [] \<and>
    set (free_ports (portManager asm')) = {rangeStart (portManager asm')..rangeEnd (portManager asm')}"
proof -
  obtain asm' where sd: "Shutdown timed_out asm = Ok (None, asm')" "asm_inv asm'" "servers asm' = []"
    using Shutdown_total [OF assms] by blast
  then have li: "live_inv {} asm'" by (simp add: asm_inv_def)
  have "listening asm' = []"
    using li unfolding live_inv_def by (cases "listening asm'") auto
  moreover have "owner_of (portManager asm') = Map.empty"
    using li unfolding live_inv_def by (auto simp: fun_eq_iff)
  then have "allocatedPorts (portManager asm') = []" by simp
  ultimately show ?thesis
    using sd live_inv_pm [OF li] by (auto simp: pm_inv_def)
qed

theorem Shutdown_releases_everything_witness:
  "\<exists>asm'. Shutdown (\<lambda>a. False) example_asm = Ok (None, asm') \<and> listening asm' = [] \<and>
     allocatedPorts (portManager asm') = []"
  using Shutdown_releases_everything [OF example_asm_inv, of "\<lambda>a. False"] by blast

text \<open>
  When no attempt can bind a free port, \<open>StartAgentServer\<close> gives up after three attempts.
  The attempts go through the pool in order and around, so that with fewer than three free ports
  a port is tried again; the pool ends up rotated by three and nothing else changes.
\<close>

theorem bind_failures_rotate_pool:
  assumes "asm_inv asm" "map_of (servers asm) a = None" "free_ports (portManager asm) = ps" "ps \<noteq> []"
    and "\<And>k p. p \<in> set ps \<Longrightarrow> \<not> os k p"
  shows "\<exists>pm. StartAgentServer os now a asm =
      Ok (Inl (FailedAfterAttempts 3 (ps ! (2 mod length ps))), asm\<lparr>portManager := pm\<rparr>) \<and>
    asm_inv (asm\<lparr>portManager := pm\<rparr>) \<and> owner_of pm = owner_of (portManager asm) \<and>
    free_ports pm = rotate 3 ps"
proof -
  have "\<exists>pm. start_attempts os now a 1 None asm =
      Ok (Inl (FailedAfterAttempts maxPortBindRetries
                 (ps ! ((maxPortBindRetries - 1) mod length ps))), asm\<lparr>portManager := pm\<rparr>) \<and>
    pm_inv pm \<and> owner_of pm = owner_of (portManager asm) \<and>
    free_ports pm = rotate (Suc maxPortBindRetries - 1) ps"
    by (rule start_attempts_rotates [OF asm_inv_pm [OF assms(1)] assms(3,4)])
       (use assms(5) in \<open>simp_all add: net_listen_def maxPortBindRetries_def\<close>)
  then obtain pm where pm: "start_attempts os now a 1 None asm =
      Ok (Inl (FailedAfterAttempts 3 (ps ! (2 mod length ps))), asm\<lparr>portManager := pm\<rparr>)"
      "pm_inv pm" "owner_of pm = owner_of (portManager asm)" "free_ports pm = rotate 3 ps"
    by (auto simp: maxPortBindRetries_def numeral_2_eq_2)
  with asm_inv_same_owners [OF assms(1) pm(2,3)] assms(2) show ?thesis
    by (intro exI [of _ pm]) (simp add: StartAgentServer_def)
qed

theorem bind_failures_rotate_pool_witness:
  "\<exists>pm. StartAgentServer (\<lambda>k p. False) 7 ''b'' example_asm =
      Ok (Inl (FailedAfterAttempts 3 8101), example_asm\<lparr>portManager := pm\<rparr>) \<and> free_ports pm = [8101]"
  using bind_failures_rotate_pool [OF example_asm_inv, of "''b''" "[8101]" "\<lambda>k p. False" 7]
  by (auto simp: example_asm_def free_ports_def)

end
