(* ===== verification/Agent_Server_Concurrency.thy ===== *)
theory Agent_Server_Concurrency
  imports Agent_Server_Manager
begin

text \<open>
  The goroutines of \<^verbatim>\<open>agent_server_manager.go\<close>: callers of \<^verbatim>\<open>StartAgentServer\<close> and
  \<^verbatim>\<open>StopAgentServer\<close>, and the goroutine of each server, which cleans up when \<^verbatim>\<open>Serve\<close> fails.
  Each critical section is one step of \<open>asm_step\<close>; \<open>sys_inv\<close> is the invariant of every
  interleaving.  \<^verbatim>\<open>Release\<close> deletes a port from the table of the pool before it sends it to the channel; here its
  step stands for the send, which is when the port can be allocated again, and \<open>Port_Manager\<close> interleaves
  the halves.
\<close>

section \<open>Concurrent stops and failing servers\<close>

text \<open>
  The state of the running manager: the manager itself, the stops that have left the mutex
  (with whether the server is already shut down), and the goroutines whose \<^verbatim>\<open>Serve\<close> failed
  (with whether they closed their listener already).
\<close>

record asm_sys =
  mgr :: AgentServerManager
  stopping :: "(AgentServerInfo, bool) gomap"
  failing :: "(AgentServerInfo, bool) gomap"

abbreviation live :: "asm_sys \<Rightarrow> AgentServerInfo set" where
  "live s \<equiv> infos (mgr s) \<union> keys (stopping s)"

inductive asm_step :: "asm_sys \<Rightarrow> asm_sys \<Rightarrow> bool" where
  start: "StartAgentServer os now a (mgr s) = Ok (r, m) \<Longrightarrow> asm_step s (s\<lparr>mgr := m\<rparr>)"
| detach: "stop_detach a (mgr s) = Some (i, m) \<Longrightarrow>
    asm_step s (s\<lparr>mgr := m, stopping := AList.update i False (stopping s)\<rparr>)"
| shut: "map_of (stopping s) i = Some False \<Longrightarrow>
    asm_step s (s\<lparr>mgr := stop_shutdown t i (mgr s), stopping := AList.update i True (stopping s)\<rparr>)"
| release: "map_of (stopping s) i = Some True \<Longrightarrow> release_port i (mgr s) = Ok m \<Longrightarrow>
    asm_step s (s\<lparr>mgr := m, stopping := AList.delete i (stopping s)\<rparr>)"
| serve_error: "i \<in> live s \<Longrightarrow> map_of (failing s) i = None \<Longrightarrow>
    asm_step s (s\<lparr>failing := AList.update i False (failing s)\<rparr>)"
| serve_close: "map_of (failing s) i = Some False \<Longrightarrow>
    asm_step s (s\<lparr>mgr := close_listener i (mgr s), failing := AList.update i True (failing s)\<rparr>)"
| cleanup: "map_of (failing s) i = Some True \<Longrightarrow> serve_cleanup i (mgr s) = Ok m \<Longrightarrow>
    asm_step s (s\<lparr>mgr := m, failing := AList.delete i (failing s)\<rparr>)"

inductive asm_reach :: "PortManager \<Rightarrow> asm_sys \<Rightarrow> bool" for pm where
  init: "asm_reach pm \<lparr>mgr = NewAgentServerManager pm, stopping = [], failing = []\<rparr>"
| step: "asm_reach pm s \<Longrightarrow> asm_step s t \<Longrightarrow> asm_reach pm t"

definition sys_inv :: "asm_sys \<Rightarrow> bool" where
  "sys_inv s \<longleftrightarrow>
     map_inv (mgr s) \<and> live_inv (live s) (mgr s) \<and> infos (mgr s) \<inter> keys (stopping s) = {} \<and>
     (\<forall>i. map_of (stopping s) i = Some True \<longrightarrow> si_addr i \<notin> keys (listening (mgr s))) \<and>
     (\<forall>i. map_of (failing s) i \<noteq> None \<longrightarrow> si_addr i < next_info (mgr s)) \<and>
     (\<forall>i. map_of (failing s) i \<noteq> None \<longrightarrow> (\<forall>j\<in>live s. si_addr j = si_addr i \<longrightarrow> j = i)) \<and>
     (\<forall>i. map_of (failing s) i = Some True \<longrightarrow> si_addr i \<notin> keys (listening (mgr s))) \<and>
     (\<forall>i\<in>infos (mgr s). map_of (failing s) i = None \<longrightarrow> (si_addr i, si_Port i) \<in> set (listening (mgr s)))"

lemma sys_invI:
  assumes "map_inv (mgr s)" "live_inv (live s) (mgr s)" "infos (mgr s) \<inter> keys (stopping s) = {}"
    "\<And>i. map_of (stopping s) i = Some True \<Longrightarrow> si_addr i \<notin> keys (listening (mgr s))"
    "\<And>i. map_of (failing s) i \<noteq> None \<Longrightarrow> si_addr i < next_info (mgr s)"
    "\<And>i j. map_of (failing s) i \<noteq> None \<Longrightarrow> j \<in> live s \<Longrightarrow> si_addr j = si_addr i \<Longrightarrow> j = i"
    "\<And>i. map_of (failing s) i = Some True \<Longrightarrow> si_addr i \<notin> keys (listening (mgr s))"
    "\<And>i. i \<in> infos (mgr s) \<Longrightarrow> map_of (failing s) i = None \<Longrightarrow>
       (si_addr i, si_Port i) \<in> set (listening (mgr s))"
  shows "sys_inv s"
  unfolding sys_inv_def by (intro conjI allI impI ballI) (rule assms; assumption)+

lemmas sys_inv_parts =
  sys_inv_def [THEN iffD1, THEN conjunct1]
  sys_inv_def [THEN iffD1, THEN conjunct2, THEN conjunct1]
  sys_inv_def [THEN iffD1, THEN conjunct2, THEN conjunct2, THEN conjunct1]
  sys_inv_def [THEN iffD1, THEN conjunct2, THEN conjunct2, THEN conjunct2, THEN conjunct1, rule_format]
  sys_inv_def [THEN iffD1, THEN conjunct2, THEN conjunct2, THEN conjunct2, THEN conjunct2,
    THEN conjunct1, rule_format]
  sys_inv_def [THEN iffD1, THEN conjunct2, THEN conjunct2, THEN conjunct2, THEN conjunct2,
    THEN conjunct2, THEN conjunct1, rule_format]
  sys_inv_def [THEN iffD1, THEN conjunct2, THEN conjunct2, THEN conjunct2, THEN conjunct2,
    THEN conjunct2, THEN conjunct2, THEN conjunct1, rule_format]
  sys_inv_def [THEN iffD1, THEN conjunct2, THEN conjunct2, THEN conjunct2, THEN conjunct2,
    THEN conjunct2, THEN conjunct2, THEN conjunct2, rule_format]

lemma sys_inv_mgr:
  assumes "sys_inv s" "servers m = servers (mgr s)" "next_info m = next_info (mgr s)"
    "listening m = listening (mgr s)" "live_inv (live s) m"
  shows "sys_inv (s\<lparr>mgr := m\<rparr>)"
  using assms unfolding sys_inv_def by (simp add: map_inv_def)

lemma keys_update: "keys (AList.update k v m) = insert k (keys m)"
  by (simp add: AList.dom_update)

lemma live_addr: "live_inv S m \<Longrightarrow> i \<in> S \<Longrightarrow> si_addr i < next_info m"
  by (simp add: live_inv_def)

text \<open>A start, seen from the running system: a new address, a free port, or no change of owners.\<close>

lemma sys_inv_started:
  fixes now :: gotime
  assumes "sys_inv s" "map_of (servers (mgr s)) a = None" "pm_inv pm" "owner_of (portManager (mgr s)) p = None"
    and "owner_of pm = (owner_of (portManager (mgr s)))(p \<mapsto> a)"
  defines "m \<equiv> started now a (mgr s) p pm"
  shows "sys_inv (s\<lparr>mgr := m\<rparr>)"
proof -
  note D = sys_inv_parts [OF assms(1)]
  let ?new = "\<lparr>si_addr = next_info (mgr s), si_AgentID = a, si_Port = p, si_StartedAt = now\<rparr>"
  have m: "servers m = AList.update a ?new (servers (mgr s))"
      "listening m = (next_info (mgr s), p) # listening (mgr s)"
      "next_info m = Suc (next_info (mgr s))"
    by (simp_all add: m_def started_def)
  have infos: "infos m = insert ?new (infos (mgr s))"
    unfolding m by (rule infos_update [OF assms(2)])
  have li: "live_inv (insert ?new (live s)) m"
    using started_live [OF D(2) assms(3-5)] by (simp add: m_def)
  have fresh: "si_addr i \<noteq> next_info (mgr s)" if "i \<in> live s" for i
    using live_addr [OF D(2) that] by simp
  have new: "?new \<notin> live s"
  proof
    assume "?new \<in> live s"
    from fresh [OF this] show False by simp
  qed
  show ?thesis
  proof (rule sys_invI)
    show "map_inv (mgr (s\<lparr>mgr := m\<rparr>))"
      using map_inv_update [OF D(1) _ assms(2), of ?new] by (simp add: map_inv_def m)
    show "live_inv (live (s\<lparr>mgr := m\<rparr>)) (mgr (s\<lparr>mgr := m\<rparr>))"
      using li infos by simp
    show "infos (mgr (s\<lparr>mgr := m\<rparr>)) \<inter> keys (stopping (s\<lparr>mgr := m\<rparr>)) = {}"
      using D(3) new infos by simp
  next
    fix i assume "map_of (stopping (s\<lparr>mgr := m\<rparr>)) i = Some True"
    then have "map_of (stopping s) i = Some True" by simp
    moreover from this have "i \<in> live s" by (simp add: keys_map_of)
    ultimately show "si_addr i \<notin> keys (listening (mgr (s\<lparr>mgr := m\<rparr>)))"
      using D(4) [of i] fresh [of i] m by simp
  next
    fix i assume "map_of (failing (s\<lparr>mgr := m\<rparr>)) i \<noteq> None"
    then show "si_addr i < next_info (mgr (s\<lparr>mgr := m\<rparr>))"
      using D(5) [of i] m by simp
  next
    fix i j assume "map_of (failing (s\<lparr>mgr := m\<rparr>)) i \<noteq> None" "j \<in> live (s\<lparr>mgr := m\<rparr>)"
      "si_addr j = si_addr i"
    then have f: "map_of (failing s) i \<noteq> None" and j: "j \<in> insert ?new (live s)"
        and eq: "si_addr j = si_addr i"
      using infos by simp_all
    have "j \<noteq> ?new" using D(5) [OF f] eq by auto
    with j have "j \<in> live s" by (simp only: insert_iff simp_thms)
    from D(6) [OF f this eq] show "j = i" .
  next
    fix i assume "map_of (failing (s\<lparr>mgr := m\<rparr>)) i = Some True"
    then show "si_addr i \<notin> keys (listening (mgr (s\<lparr>mgr := m\<rparr>)))"
      using D(7) [of i] D(5) [of i] m by simp
  next
    fix i assume "i \<in> infos (mgr (s\<lparr>mgr := m\<rparr>))" "map_of (failing (s\<lparr>mgr := m\<rparr>)) i = None"
    then show "(si_addr i, si_Port i) \<in> set (listening (mgr (s\<lparr>mgr := m\<rparr>)))"
      using D(8) [of i] infos m by (simp only: asm_sys.simps insert_iff) auto
  qed
qed

lemma sys_inv_start:
  assumes inv: "sys_inv s" and start: "StartAgentServer os now a (mgr s) = Ok (r, m)"
  shows "sys_inv (s\<lparr>mgr := m\<rparr>)"
proof -
  note D = sys_inv_parts [OF inv]
  have pmi: "pm_inv (portManager (mgr s))" using D(2) by (rule live_inv_pm)
  from pmi show ?thesis
  proof (cases rule: StartAgentServer_cases [where a = a and os = os and now = now])
    case exists
    with start have "m = mgr s" by simp
    then have "s\<lparr>mgr := m\<rparr> = s" by simp
    with inv show ?thesis by (simp only:)
  next
    case (failed e pm)
    with start have m: "m = (mgr s)\<lparr>portManager := pm\<rparr>" by simp
    from D(2) failed(3,4) have "live_inv (live s) m" unfolding m by (rule live_inv_same_owners)
    with inv show ?thesis by (intro sys_inv_mgr) (simp_all add: m)
  next
    case (granted p pm)
    with start sys_inv_started [OF inv granted(1,3,5,6), where now = now] show ?thesis by simp
  qed
qed

lemma infos_lookup:
  assumes "map_inv m" "i \<in> infos m"
  shows "map_of (servers m) (si_AgentID i) = Some i"
proof -
  obtain a where a: "(a, i) \<in> set (servers m)" using assms(2) by auto
  with assms(1) have "si_AgentID i = a" by (auto simp: map_inv_def)
  with a assms(1) show ?thesis by (simp add: map_inv_def gomap_in_iff)
qed

lemma lookup_infos: "map_of (servers m) a = Some i \<Longrightarrow> i \<in> infos m"
  by (force dest: map_of_SomeD)

lemma insert_Diff_Un: "x \<in> A \<Longrightarrow> insert x (A - {x} \<union> B) = A \<union> B"
  by blast

lemma disjoint_mono: "A' \<subseteq> A \<Longrightarrow> B' \<subseteq> B \<Longrightarrow> A \<inter> B = {} \<Longrightarrow> A' \<inter> B' = {}"
  by blast

lemma sys_inv_detach:
  assumes inv: "sys_inv s" and d: "stop_detach a (mgr s) = Some (i, m)"
  shows "sys_inv (s\<lparr>mgr := m, stopping := AList.update i False (stopping s)\<rparr>)" (is "sys_inv ?t")
proof -
  note D = sys_inv_parts [OF inv]
  have i: "map_of (servers (mgr s)) a = Some i"
      and m: "m = (mgr s)\<lparr>servers := AList.delete a (servers (mgr s))\<rparr>"
    using d by (auto simp: stop_detach_def split: option.splits)
  have infos: "infos m = infos (mgr s) - {i}"
    using infos_delete [OF D(1) i] by (simp add: m)
  have live: "live ?t = live s"
    by (simp add: infos keys_update insert_Diff_Un [OF lookup_infos [OF i]])
  show ?thesis
  proof (rule sys_invI)
    show "map_inv (mgr ?t)" using map_inv_delete [OF D(1)] by (simp add: m)
    show "live_inv (live ?t) (mgr ?t)" unfolding live using D(2) by (simp add: m)
    show "infos (mgr ?t) \<inter> keys (stopping ?t) = {}"
      using D(3) infos by (simp add: keys_update) blast
  next
    fix j assume "map_of (stopping ?t) j = Some True"
    then show "si_addr j \<notin> keys (listening (mgr ?t))"
      using D(4) [of j] by (simp add: m go_map split: if_splits)
  next
    fix j k assume "map_of (failing ?t) j \<noteq> None" "k \<in> live ?t" "si_addr k = si_addr j"
    then show "k = j" unfolding live by (intro D(6)) simp_all
  next
    fix j assume "j \<in> infos (mgr ?t)" "map_of (failing ?t) j = None"
    then show "(si_addr j, si_Port j) \<in> set (listening (mgr ?t))"
      using D(8) [of j] infos by (simp add: m)
  qed (use D(5,7) in \<open>simp_all add: m\<close>)
qed

text \<open>Closing the listener of one live server closes no other one's.\<close>

lemma sys_inv_close:
  assumes inv: "sys_inv s" and i: "map_of (failing s) i \<noteq> None \<or> i \<in> keys (stopping s)"
    and t: "servers m = servers (mgr s)" "next_info m = next_info (mgr s)"
      "listening m = AList.delete (si_addr i) (listening (mgr s))" "live_inv (live s) m"
    and st: "keys st = keys (stopping s)" "\<And>j. map_of st j = Some True \<Longrightarrow> j = i \<or> map_of (stopping s) j = Some True"
    and fl: "\<And>j. map_of fl j = None \<longleftrightarrow> map_of (failing s) j = None"
      "\<And>j. map_of fl j = Some True \<Longrightarrow> j = i \<or> map_of (failing s) j = Some True"
  shows "sys_inv (s\<lparr>mgr := m, stopping := st, failing := fl\<rparr>)" (is "sys_inv ?t")
proof -
  note D = sys_inv_parts [OF inv]
  have live: "live ?t = live s" using t st by simp
  show ?thesis
  proof (rule sys_invI)
    show "map_inv (mgr ?t)" using D(1) t by (simp add: map_inv_def)
    show "live_inv (live ?t) (mgr ?t)" unfolding live using t by simp
    show "infos (mgr ?t) \<inter> keys (stopping ?t) = {}" using D(3) t st by simp
  next
    fix j assume "map_of (stopping ?t) j = Some True"
    then show "si_addr j \<notin> keys (listening (mgr ?t))"
      using D(4) [of j] st(2) [of j] t by auto
  next
    fix j k assume "map_of (failing ?t) j \<noteq> None" "k \<in> live ?t" "si_addr k = si_addr j"
    then show "k = j" unfolding live using fl(1) by (intro D(6)) simp_all
  next
    fix j assume "map_of (failing ?t) j = Some True"
    then show "si_addr j \<notin> keys (listening (mgr ?t))"
      using D(7) [of j] fl(2) [of j] t by auto
  next
    fix j assume j: "j \<in> infos (mgr ?t)" "map_of (failing ?t) j = None"
    then have j': "j \<in> infos (mgr s)" "map_of (failing s) j = None"
      using t fl by simp_all
    have "si_addr j \<noteq> si_addr i"
    proof
      assume eq: "si_addr j = si_addr i"
      from i show False
      proof
        assume f: "map_of (failing s) i \<noteq> None"
        have "j = i" using j'(1) by (intro D(6) [OF f _ eq]) simp
        with f j'(2) show False by simp
      next
        assume s: "i \<in> keys (stopping s)"
        have "j = i" using D(2) j'(1) s eq unfolding live_inv_def inj_on_def by blast
        with D(3) j'(1) s show False by blast
      qed
    qed
    then show "(si_addr j, si_Port j) \<in> set (listening (mgr ?t))"
      using D(8) [OF j'] t by (simp add: set_delete)
  qed (use D(5) t fl in simp_all)
qed

lemma sys_inv_shut:
  assumes inv: "sys_inv s" and i: "map_of (stopping s) i = Some False"
  shows "sys_inv (s\<lparr>mgr := stop_shutdown t i (mgr s), stopping := AList.update i True (stopping s)\<rparr>)"
proof -
  have key: "i \<in> keys (stopping s)" using i by (simp add: keys_map_of)
  then have keys: "keys (AList.update i True (stopping s)) = keys (stopping s)"
    by (simp add: keys_update insert_absorb)
  have "live_inv (live s) (stop_shutdown t i (mgr s))"
    using sys_inv_parts(2) [OF inv] by (simp add: stop_shutdown_def live_inv_close)
  with inv key keys
  have "sys_inv (s\<lparr>mgr := stop_shutdown t i (mgr s), stopping := AList.update i True (stopping s),
      failing := failing s\<rparr>)"
    by (intro sys_inv_close [where i = i])
       (simp_all add: stop_shutdown_def close_listener_def go_map split: if_splits)
  then show ?thesis by simp
qed

lemma sys_inv_serve_close:
  assumes inv: "sys_inv s" and i: "map_of (failing s) i = Some False"
  shows "sys_inv (s\<lparr>mgr := close_listener i (mgr s), failing := AList.update i True (failing s)\<rparr>)"
proof -
  have "live_inv (live s) (close_listener i (mgr s))"
    using sys_inv_parts(2) [OF inv] by (rule live_inv_close)
  with inv i
  have "sys_inv (s\<lparr>mgr := close_listener i (mgr s), stopping := stopping s,
      failing := AList.update i True (failing s)\<rparr>)"
    by (intro sys_inv_close [where i = i]) (auto simp: close_listener_def go_map split: if_splits)
  then show ?thesis by simp
qed

lemma sys_inv_release:
  assumes inv: "sys_inv s" and i: "map_of (stopping s) i = Some True"
  shows "\<exists>m. release_port i (mgr s) = Ok m \<and>
    sys_inv (s\<lparr>mgr := m, stopping := AList.delete i (stopping s)\<rparr>)"
proof -
  note D = sys_inv_parts [OF inv]
  have key: "i \<in> keys (stopping s)" using i by (simp add: keys_map_of)
  then have "i \<in> live s" by simp
  from live_inv_release [OF D(2) this D(4) [OF i]] obtain pm where
    m: "release_port i (mgr s) = Ok ((mgr s)\<lparr>portManager := pm\<rparr>)"
      "live_inv (live s - {i}) ((mgr s)\<lparr>portManager := pm\<rparr>)"
    by blast
  let ?t = "s\<lparr>mgr := (mgr s)\<lparr>portManager := pm\<rparr>, stopping := AList.delete i (stopping s)\<rparr>"
  have "i \<notin> infos (mgr s)" using D(3) key by (meson disjoint_iff)
  then have live: "live ?t = live s - {i}" by (simp add: Un_Diff)
  have "sys_inv ?t"
  proof (rule sys_invI)
    show "map_inv (mgr ?t)" using D(1) by (simp add: map_inv_def)
    show "live_inv (live ?t) (mgr ?t)" unfolding live using m(2) by simp
    show "infos (mgr ?t) \<inter> keys (stopping ?t) = {}"
      using disjoint_mono [OF order_refl Diff_subset D(3), of "{i}"] by simp
  next
    fix j assume "map_of (stopping ?t) j = Some True"
    then show "si_addr j \<notin> keys (listening (mgr ?t))"
      using D(4) [of j] by (simp add: go_map split: if_splits)
  next
    fix j k assume "map_of (failing ?t) j \<noteq> None" "k \<in> live ?t" "si_addr k = si_addr j"
    then show "k = j" unfolding live by (intro D(6)) simp_all
  qed (use D(5,7,8) in simp_all)
  with m(1) show ?thesis by blast
qed

lemma sys_inv_serve_error:
  assumes inv: "sys_inv s" and i: "i \<in> live s"
  shows "sys_inv (s\<lparr>failing := AList.update i False (failing s)\<rparr>)" (is "sys_inv ?t")
proof -
  note D = sys_inv_parts [OF inv]
  show ?thesis
  proof (rule sys_invI)
    fix j assume "map_of (failing ?t) j \<noteq> None"
    then have "j = i \<or> map_of (failing s) j \<noteq> None"
      by (simp add: go_map split: if_splits)
    then show "si_addr j < next_info (mgr ?t)"
      using D(5) [of j] live_addr [OF D(2) i] by auto
  next
    fix j k assume j: "map_of (failing ?t) j \<noteq> None" and k: "k \<in> live ?t" "si_addr k = si_addr j"
    have k': "k \<in> live s" using k(1) by simp
    from j consider "j = i" | "map_of (failing s) j \<noteq> None"
      by (simp add: go_map split: if_splits)
    then show "k = j"
    proof cases
      case 1
      have "inj_on si_addr (live s)" using D(2) by (simp only: live_inv_def)
      from inj_onD [OF this _ k' i] k(2) 1 show ?thesis by simp
    next
      case 2
      from D(6) [OF this k' k(2)] show ?thesis .
    qed
  next
    fix j assume "map_of (failing ?t) j = Some True"
    then show "si_addr j \<notin> keys (listening (mgr ?t))"
      using D(7) [of j] by (simp add: go_map split: if_splits)
  next
    fix j assume "j \<in> infos (mgr ?t)" "map_of (failing ?t) j = None"
    then show "(si_addr j, si_Port j) \<in> set (listening (mgr ?t))"
      using D(8) [of j] by (simp add: go_map split: if_splits)
  qed (use D(1-4) in simp_all)
qed

text \<open>
  The goroutine of a failed server finds either its own info in the map, and then its port is
  still taken and its listener closed, or no info at its own address, and then it changes nothing.
\<close>

lemma delete_failing:
  "map_of (AList.delete i f) j \<noteq> None \<Longrightarrow> map_of f j \<noteq> None"
  "map_of (AList.delete i f) j = Some True \<Longrightarrow> map_of f j = Some True"
  "map_of (AList.delete i f) j = None \<Longrightarrow> j \<noteq> i \<Longrightarrow> map_of f j = None"
  by (simp_all add: go_map split: if_splits)

text \<open>The cleanup of a failed server that is still in the map removes it and gives its port back.\<close>

lemma sys_inv_cleanup_live:
  assumes inv: "sys_inv s" and i: "map_of (failing s) i = Some True" and True: "i \<in> infos (mgr s)"
  shows "\<exists>m. serve_cleanup i (mgr s) = Ok m \<and>
    sys_inv (s\<lparr>mgr := m, failing := AList.delete i (failing s)\<rparr>)"
proof -
  note D = sys_inv_parts [OF inv] and fl = delete_failing [of i "failing s"]
  have il: "i \<in> live s" using True by simp
  have look: "map_of (servers (mgr s)) (si_AgentID i) = Some i"
    by (rule infos_lookup [OF D(1) True])
  let ?d = "(mgr s)\<lparr>servers := AList.delete (si_AgentID i) (servers (mgr s))\<rparr>"
  have "live_inv (live s) ?d" "si_addr i \<notin> keys (listening ?d)"
    using D(2) D(7) [OF i] by simp_all
  from live_inv_release [OF this(1) il this(2)] obtain pm where
    m: "release_port i ?d = Ok (?d\<lparr>portManager := pm\<rparr>)" "live_inv (live s - {i}) (?d\<lparr>portManager := pm\<rparr>)"
    by blast
  let ?t = "s\<lparr>mgr := ?d\<lparr>portManager := pm\<rparr>, failing := AList.delete i (failing s)\<rparr>"
  have infos: "infos (mgr ?t) = infos (mgr s) - {i}"
    using infos_delete [OF D(1) look] by simp
  have "i \<notin> keys (stopping s)" using D(3) True by (meson disjoint_iff)
  then have live: "live ?t = live s - {i}" unfolding infos by (simp add: Un_Diff)
  have "sys_inv ?t"
  proof (rule sys_invI)
    show "map_inv (mgr ?t)" using map_inv_delete [OF D(1)] by (simp add: map_inv_def)
    show "live_inv (live ?t) (mgr ?t)" unfolding live using m(2) by simp
    show "infos (mgr ?t) \<inter> keys (stopping ?t) = {}"
      unfolding infos using disjoint_mono [OF Diff_subset order_refl D(3), of "{i}"] by simp
  next
    fix j k assume "map_of (failing ?t) j \<noteq> None" "k \<in> live ?t" "si_addr k = si_addr j"
    then show "k = j" unfolding live using fl(1) by (intro D(6)) simp_all
  next
    fix j assume "j \<in> infos (mgr ?t)" "map_of (failing ?t) j = None"
    then show "(si_addr j, si_Port j) \<in> set (listening (mgr ?t))"
      unfolding infos using D(8) [of j] fl(3) [of j] by simp
  qed (use D(4,5,7) fl in simp_all)
  with m(1) look show ?thesis by (simp add: serve_cleanup_def)
qed

text \<open>If it was stopped or replaced meanwhile, there is nothing to do.\<close>

lemma sys_inv_cleanup_gone:
  assumes inv: "sys_inv s" and i: "map_of (failing s) i = Some True" and False: "i \<notin> infos (mgr s)"
  shows "\<exists>m. serve_cleanup i (mgr s) = Ok m \<and>
    sys_inv (s\<lparr>mgr := m, failing := AList.delete i (failing s)\<rparr>)"
proof -
  note D = sys_inv_parts [OF inv] and fl = delete_failing [of i "failing s"]
  have f: "map_of (failing s) i \<noteq> None" using i by simp
  have "serve_cleanup i (mgr s) = Ok (mgr s)"
  proof (cases "map_of (servers (mgr s)) (si_AgentID i)")
    case (Some j)
    then have j: "j \<in> infos (mgr s)" by (rule lookup_infos)
    have "si_addr j \<noteq> si_addr i"
    proof
      assume "si_addr j = si_addr i"
      with j have "j = i" by (intro D(6) [OF f]) simp_all
      with False j show False by simp
    qed
    with Some show ?thesis by (simp add: serve_cleanup_def)
  qed (simp add: serve_cleanup_def)
  moreover have "sys_inv (s\<lparr>failing := AList.delete i (failing s)\<rparr>)" (is "sys_inv ?t")
  proof (rule sys_invI)
    fix j k assume "map_of (failing ?t) j \<noteq> None" "k \<in> live ?t" "si_addr k = si_addr j"
    then show "k = j" using fl(1) by (intro D(6)) simp_all
  next
    fix j assume "j \<in> infos (mgr ?t)" "map_of (failing ?t) j = None"
    then show "(si_addr j, si_Port j) \<in> set (listening (mgr ?t))"
      using D(8) [of j] fl(3) [of j] False by (cases "j = i") simp_all
  qed (use D(1-5,7) fl in simp_all)
  ultimately show ?thesis by simp
qed

lemma sys_inv_cleanup:
  assumes "sys_inv s" "map_of (failing s) i = Some True"
  shows "\<exists>m. serve_cleanup i (mgr s) = Ok m \<and>
    sys_inv (s\<lparr>mgr := m, failing := AList.delete i (failing s)\<rparr>)"
proof (cases "i \<in> infos (mgr s)")
  case True
  show ?thesis by (rule sys_inv_cleanup_live [OF assms True])
next
  case False
  show ?thesis by (rule sys_inv_cleanup_gone [OF assms False])
qed

lemma asm_reach_inv:
  assumes "asm_reach pm s" "pm_inv pm" "allocatedPorts pm = []"
  shows "sys_inv s"
  using assms
proof (induction rule: asm_reach.induct)
  case init
  then show ?case
    by (simp add: sys_inv_def map_inv_def live_inv_def NewAgentServerManager_def)
next
  case (step s t)
  then have inv: "sys_inv s" by simp
  from step.hyps(2) show ?case
  proof cases
    case (release i m)
    with sys_inv_release [OF inv] show ?thesis by force
  next
    case (cleanup i m)
    with sys_inv_cleanup [OF inv] show ?thesis by force
  qed (use inv in \<open>simp_all add: sys_inv_start sys_inv_detach sys_inv_shut sys_inv_serve_error
      sys_inv_serve_close\<close>)
qed

text \<open>A pool with one port, a server started on it and then detached by a stop.\<close>

definition example_pool :: PortManager where
  "example_pool = \<lparr>availablePorts = \<lparr>chan_buf = [8100], chan_cap = 1, chan_closed = False\<rparr>,
                   allocatedPorts = [], rangeStart = 8100, rangeEnd = 8100\<rparr>"

definition example_info :: AgentServerInfo where
  "example_info = \<lparr>si_addr = 0, si_AgentID = ''a'', si_Port = 8100, si_StartedAt = 7\<rparr>"

definition example_mgr :: "(string, AgentServerInfo) gomap \<Rightarrow> AgentServerManager" where
  "example_mgr m = \<lparr>servers = m,
     portManager = example_pool\<lparr>availablePorts := \<lparr>chan_buf = [], chan_cap = 1, chan_closed = False\<rparr>,
                                allocatedPorts := [(8100, ''a'')]\<rparr>,
     next_info = 1, listening = [(0, 8100)], closed_servers = []\<rparr>"

lemma example_pool_inv: "pm_inv example_pool" "allocatedPorts example_pool = []"
  by (auto simp: example_pool_def pm_inv_def free_ports_def)

lemma example_reach:
  "asm_reach example_pool \<lparr>mgr = example_mgr [(''a'', example_info)], stopping = [], failing = []\<rparr>"
  "asm_reach example_pool \<lparr>mgr = example_mgr [], stopping = [(example_info, False)], failing = []\<rparr>"
proof -
  have "StartAgentServer (\<lambda>k p. True) 7 ''a'' (NewAgentServerManager example_pool)
      = Ok (Inr 8100, example_mgr [(''a'', example_info)])"
    by (simp add: StartAgentServer_def start_attempts.simps maxPortBindRetries_def Allocate_def
        chan_try_recv_def net_listen_def Let_def NewAgentServerManager_def example_pool_def
        example_mgr_def example_info_def)
  from asm_reach.step [OF asm_reach.init asm_step.start, of "\<lambda>k p. True" 7 "''a''" example_pool] this
  show 1: "asm_reach example_pool
      \<lparr>mgr = example_mgr [(''a'', example_info)], stopping = [], failing = []\<rparr>"
    by fastforce
  have "stop_detach ''a'' (example_mgr [(''a'', example_info)]) = Some (example_info, example_mgr [])"
    by (simp add: stop_detach_def example_mgr_def)
  with asm_reach.step [OF 1 asm_step.detach, of "''a''" example_info "example_mgr []"]
  show "asm_reach example_pool \<lparr>mgr = example_mgr [], stopping = [(example_info, False)], failing = []\<rparr>"
    by simp
qed

section \<open>Properties\<close>

text \<open>
  C6 (invariant): in every interleaving of starts, stops and failing servers, the ports with an
  owner are exactly the ports of the servers in the map and of those being stopped, no two of which
  share a port; every open listener belongs to one of them; and every server in the map whose
  \<^verbatim>\<open>Serve\<close> did not fail is listening on its port.  So no interleaving loses a port, releases one
  that is still listened on, or closes a listener of somebody else.  A port counts as released when it is back in
  the channel of the pool.
\<close>

theorem asm_interleavings_safe:
  assumes "asm_reach pm s" "pm_inv pm" "allocatedPorts pm = []"
  shows "pm_inv (portManager (mgr s)) \<and>
    (\<forall>p a. owner_of (portManager (mgr s)) p = Some a \<longleftrightarrow> (\<exists>i\<in>live s. si_Port i = p \<and> si_AgentID i = a)) \<and>
    inj_on si_Port (live s) \<and>
    (\<forall>(ad, p)\<in>set (listening (mgr s)). \<exists>i\<in>live s. si_addr i = ad \<and> si_Port i = p) \<and>
    (\<forall>a i. map_of (servers (mgr s)) a = Some i \<longrightarrow>
       si_AgentID i = a \<and> (map_of (failing s) i = None \<longrightarrow> (si_addr i, si_Port i) \<in> set (listening (mgr s))))"
proof -
  note D = sys_inv_parts [OF asm_reach_inv [OF assms]]
  have "si_AgentID i = a \<and> (map_of (failing s) i = None \<longrightarrow> (si_addr i, si_Port i) \<in> set (listening (mgr s)))"
    if "map_of (servers (mgr s)) a = Some i" for a i
    using D(1) D(8) [OF lookup_infos [OF that]] map_of_SomeD [OF that] unfolding map_inv_def by auto
  with D(2) show ?thesis unfolding live_inv_def by (intro conjI) simp_all
qed

theorem asm_interleavings_safe_witness:
  "\<exists>s. asm_reach example_pool s \<and> owner_of (portManager (mgr s)) 8100 = Some ''a'' \<and>
     (\<exists>i\<in>live s. si_Port i = 8100 \<and> si_AgentID i = ''a'')"
proof -
  let ?s = "\<lparr>mgr = example_mgr [], stopping = [(example_info, False)], failing = []\<rparr>"
  have own: "owner_of (portManager (mgr ?s)) 8100 = Some ''a''" by (simp add: example_mgr_def)
  have "\<exists>i\<in>live ?s. si_Port i = 8100 \<and> si_AgentID i = ''a''"
    using asm_interleavings_safe [OF example_reach(2) example_pool_inv] own by blast
  with own example_reach(2) show ?thesis by blast
qed

text \<open>
  C25 (liveness): a stop or a cleanup that is under way can always take its next step: giving the
  port back never blocks on the pool's channel while the mutex is held.
\<close>

theorem asm_cleanups_never_block:
  assumes "asm_reach pm s" "pm_inv pm" "allocatedPorts pm = []"
  shows "(map_of (stopping s) i = Some shut \<longrightarrow> (\<exists>t. asm_step s t \<and>
      map_of (stopping t) i = (if shut then None else Some True))) \<and>
    (map_of (failing s) i = Some closed \<longrightarrow> (\<exists>t. asm_step s t \<and>
      map_of (failing t) i = (if closed then None else Some True)))"
proof -
  have inv: "sys_inv s" by (rule asm_reach_inv [OF assms])
  have "\<exists>t. asm_step s t \<and> map_of (stopping t) i = (if shut then None else Some True)"
    if i: "map_of (stopping s) i = Some shut"
  proof (cases shut)
    case True
    with i sys_inv_release [OF inv, of i] obtain m where "release_port i (mgr s) = Ok m" by auto
    with i True asm_step.release [of s i m] show ?thesis
      by (intro exI [of _ "s\<lparr>mgr := m, stopping := AList.delete i (stopping s)\<rparr>"]) (simp add: go_map)
  next
    case False
    with i asm_step.shut [of s i False] show ?thesis
      by (intro exI [of _ "s\<lparr>mgr := stop_shutdown False i (mgr s),
            stopping := AList.update i True (stopping s)\<rparr>"]) (simp add: go_map)
  qed
  moreover have "\<exists>t. asm_step s t \<and> map_of (failing t) i = (if closed then None else Some True)"
    if i: "map_of (failing s) i = Some closed"
  proof (cases closed)
    case True
    with i sys_inv_cleanup [OF inv, of i] obtain m where "serve_cleanup i (mgr s) = Ok m" by auto
    with i True asm_step.cleanup [of s i m] show ?thesis
      by (intro exI [of _ "s\<lparr>mgr := m, failing := AList.delete i (failing s)\<rparr>"]) (simp add: go_map)
  next
    case False
    with i asm_step.serve_close [of s i] show ?thesis
      by (intro exI [of _ "s\<lparr>mgr := close_listener i (mgr s),
            failing := AList.update i True (failing s)\<rparr>"]) (simp add: go_map)
  qed
  ultimately show ?thesis by blast
qed

theorem asm_cleanups_never_block_witness:
  "\<exists>s t. asm_reach example_pool s \<and> map_of (stopping s) example_info = Some False \<and>
     asm_step s t \<and> map_of (stopping t) example_info = Some True"
proof -
  let ?s = "\<lparr>mgr = example_mgr [], stopping = [(example_info, False)], failing = []\<rparr>"
  have "map_of (stopping ?s) example_info = Some False" by simp
  with asm_cleanups_never_block [OF example_reach(2) example_pool_inv,
      where i = example_info and shut = False] example_reach(2)
  show ?thesis by auto
qed

end
