(* ===== verification/Proxy_Message.thy ===== *)
theory Proxy_Message
  imports Silo_Prelude
begin

text \<open>
  The messages of \<^verbatim>\<open>proto/proxy.proto\<close> that travel on the stream between server and agent.
  Enumerations of proto3 are open: a peer may send a number that is none of the five types.
  Go strings and byte slices are sequences of bytes, hence lists of characters.
\<close>

datatype MessageType = UNKNOWN | PING | PONG | REQUEST | RESPONSE | UnrecognizedType int

type_synonym bytes = string

record ProxyMessage =
  msg_Id :: string
  msg_Type :: MessageType
  msg_Payload :: bytes
  msg_Metadata :: "(string, string) gomap"

text \<open>Indexing a Go map yields the zero value, here the empty string, for a missing key.\<close>

definition metadata_get :: "ProxyMessage \<Rightarrow> string \<Rightarrow> string" where
  "metadata_get msg k = (case map_of (msg_Metadata msg) k of Some v \<Rightarrow> v | None \<Rightarrow> '''')"

end
