(* ===== verification/Connection_Manager.thy ===== *)
theory Connection_Manager
  imports Agent_Server_Concurrency Proxy_Message
begin

text \<open>
  \<^verbatim>\<open>internal/grpc/server/connection_manager.go\<close>: the table of connected agents.  Connections are
  shared by pointer between the table and the stream handlers, so the state has a heap of
  connections, and the table maps an agent to the index of its connection.  The manager calls
  the HTTP server manager through an interface that may be nil: \<open>cm_asm\<close> is the state behind the
  interface, \<open>None\<close> for nil, and the methods are an argument of the operations.  All operations
  hold the mutex from beginning to end, except \<^verbatim>\<open>SendToAgent\<close>, which is split into the lookup and
  the \<^verbatim>\<open>select\<close>.  The laws of the interface, the locale \<open>agent_server_iface\<close>, carry the proofs.
\<close>

section \<open>State and operations\<close>

definition sendChannelBuffer :: nat where "sendChannelBuffer = 100"
definition staleConnectionTimeout :: duration where "staleConnectionTimeout = 2 * minute"

record AgentConnection =
  ac_ID :: string
  ac_Port :: int
  ac_Stream :: nat
  ac_SendCh :: "ProxyMessage chan"
  ac_LastSeen :: gotime
  ac_cancelled :: bool

record 'm ConnectionManager =
  cm_agents :: "(string, nat) gomap"
  cm_heap :: "AgentConnection list"
  cm_stopped :: bool
  cm_asm :: "'m option"

datatype 'e cm_error =
    FailedToStartServer 'e
  | AgentNotFound string
  | TimeoutSending string
  | ConnectionClosed string

definition NewConnectionManager :: "'m option \<Rightarrow> 'm ConnectionManager" where
  "NewConnectionManager asm = \<lparr>cm_agents = [], cm_heap = [], cm_stopped = False, cm_asm = asm\<rparr>"

definition SetAgentServerManager :: "'m \<Rightarrow> 'm ConnectionManager \<Rightarrow> 'm ConnectionManager" where
  "SetAgentServerManager asm cm = cm\<lparr>cm_asm := Some asm\<rparr>"

text \<open>\<^verbatim>\<open>conn.cancel(); close(conn.SendCh)\<close>: cancelling is idempotent, closing is not.\<close>

definition close_conn :: "nat \<Rightarrow> 'm ConnectionManager \<Rightarrow> 'm ConnectionManager outcome" where
  "close_conn r cm =
     (let conn = cm_heap cm ! r in
      obind (chan_close (ac_SendCh conn)) (\<lambda>ch.
        Ok (cm\<lparr>cm_heap := (cm_heap cm)[r := conn\<lparr>ac_cancelled := True, ac_SendCh := ch\<rparr>]\<rparr>)))"

text \<open>The server of the agent is stopped if there is a manager and a port; an error is only logged.\<close>

definition stop_server :: "('m, 'e) AgentServerIface \<Rightarrow> string \<Rightarrow> int \<Rightarrow> 'm ConnectionManager \<Rightarrow>
    'm ConnectionManager outcome" where
  "stop_server I agentID port cm =
     (case cm_asm cm of
        Some asm \<Rightarrow>
          if port \<noteq> 0 then obind (iface_stop I agentID asm) (\<lambda>(err, asm'). Ok (cm\<lparr>cm_asm := Some asm'\<rparr>))
          else Ok cm
      | None \<Rightarrow> Ok cm)"

definition drop_conn :: "('m, 'e) AgentServerIface \<Rightarrow> string \<Rightarrow> nat \<Rightarrow> 'm ConnectionManager \<Rightarrow>
    'm ConnectionManager outcome" where
  "drop_conn I agentID r cm =
     obind (close_conn r cm) (\<lambda>cm'. stop_server I agentID (ac_Port (cm_heap cm' ! r)) cm')"

definition delete_agent :: "string \<Rightarrow> 'm ConnectionManager \<Rightarrow> 'm ConnectionManager" where
  "delete_agent agentID cm = cm\<lparr>cm_agents := AList.delete agentID (cm_agents cm)\<rparr>"

definition Deregister :: "('m, 'e) AgentServerIface \<Rightarrow> string \<Rightarrow> 'm ConnectionManager \<Rightarrow>
    'm ConnectionManager outcome" where
  "Deregister I agentID cm =
     (case map_of (cm_agents cm) agentID of
        Some r \<Rightarrow> obind (drop_conn I agentID r cm) (\<lambda>cm'. Ok (delete_agent agentID cm'))
      | None \<Rightarrow> Ok cm)"

definition add_conn :: "gotime \<Rightarrow> nat \<Rightarrow> string \<Rightarrow> int \<Rightarrow> 'm ConnectionManager \<Rightarrow> 'm ConnectionManager" where
  "add_conn now stream agentID port cm =
     cm\<lparr>cm_heap := cm_heap cm @
          [\<lparr>ac_ID = agentID, ac_Port = port, ac_Stream = stream,
            ac_SendCh = make_chan sendChannelBuffer, ac_LastSeen = now, ac_cancelled = False\<rparr>],
        cm_agents := AList.update agentID (length (cm_heap cm)) (cm_agents cm)\<rparr>"

definition Register :: "('m, 'e) AgentServerIface \<Rightarrow> gotime \<Rightarrow> nat \<Rightarrow> string \<Rightarrow> 'm ConnectionManager \<Rightarrow>
    (('e cm_error + nat) \<times> 'm ConnectionManager) outcome" where
  "Register I now stream agentID cm =
     obind (case map_of (cm_agents cm) agentID of
              Some r \<Rightarrow> obind (drop_conn I agentID r cm) (\<lambda>cm'. Ok (delete_agent agentID cm'))
            | None \<Rightarrow> Ok cm)
       (\<lambda>cm1.
          case cm_asm cm1 of
            Some asm \<Rightarrow>
              obind (iface_start I agentID asm) (\<lambda>(res, asm').
                let cm2 = cm1\<lparr>cm_asm := Some asm'\<rparr> in
                case res of
                  Inl e \<Rightarrow> Ok (Inl (FailedToStartServer e), cm2)
                | Inr port \<Rightarrow> Ok (Inr (length (cm_heap cm2)), add_conn now stream agentID port cm2))
          | None \<Rightarrow> Ok (Inr (length (cm_heap cm1)), add_conn now stream agentID 0 cm1))"

text \<open>
  The \<^verbatim>\<open>select\<close> of \<^verbatim>\<open>SendToAgent\<close> on a connection: the list of what may happen.  A send on a closed
  channel counts as ready and panics when chosen; \<open>expired\<close> tells whether the five seconds of
  \<^verbatim>\<open>time.After\<close> are over.  No ready case means that the goroutine waits.
\<close>

definition send_select :: "bool \<Rightarrow> string \<Rightarrow> ProxyMessage \<Rightarrow> AgentConnection \<Rightarrow>
    ('e cm_error option \<times> AgentConnection) outcome list" where
  "send_select expired agentID msg conn =
     (let ready =
        (if chan_closed (ac_SendCh conn) then [Panic]
         else if chan_room (ac_SendCh conn)
           then [Ok (None, conn\<lparr>ac_SendCh := chan_push msg (ac_SendCh conn)\<rparr>)]
           else []) @
        (if expired then [Ok (Some (TimeoutSending agentID), conn)] else []) @
        (if ac_cancelled conn then [Ok (Some (ConnectionClosed agentID), conn)] else [])
      in if ready = [] then [Block] else ready)"

definition send_to_conn :: "bool \<Rightarrow> string \<Rightarrow> ProxyMessage \<Rightarrow> nat \<Rightarrow> 'm ConnectionManager \<Rightarrow>
    ('e cm_error option \<times> 'm ConnectionManager) outcome list" where
  "send_to_conn expired agentID msg r cm =
     map (\<lambda>out. obind out (\<lambda>(err, conn). Ok (err, cm\<lparr>cm_heap := (cm_heap cm)[r := conn]\<rparr>)))
       (send_select expired agentID msg (cm_heap cm ! r))"

definition SendToAgent :: "bool \<Rightarrow> string \<Rightarrow> ProxyMessage \<Rightarrow> 'm ConnectionManager \<Rightarrow>
    ('e cm_error option \<times> 'm ConnectionManager) outcome list" where
  "SendToAgent expired agentID msg cm =
     (case map_of (cm_agents cm) agentID of
        None \<Rightarrow> [Ok (Some (AgentNotFound agentID), cm)]
      | Some r \<Rightarrow> send_to_conn expired agentID msg r cm)"

definition UpdateLastSeen :: "gotime \<Rightarrow> string \<Rightarrow> 'm ConnectionManager \<Rightarrow> 'm ConnectionManager" where
  "UpdateLastSeen now agentID cm =
     (case map_of (cm_agents cm) agentID of
        Some r \<Rightarrow> cm\<lparr>cm_heap := (cm_heap cm)[r := (cm_heap cm ! r)\<lparr>ac_LastSeen := now\<rparr>]\<rparr>
      | None \<Rightarrow> cm)"

definition GetConnection :: "string \<Rightarrow> 'm ConnectionManager \<Rightarrow> nat option" where
  "GetConnection agentID cm = map_of (cm_agents cm) agentID"

definition ListConnections :: "'m ConnectionManager \<Rightarrow> string list" where
  "ListConnections cm = map fst (cm_agents cm)"

text \<open>The loop of \<^verbatim>\<open>Stop\<close>, which leaves the map alone until the end.\<close>

fun drop_all :: "('m, 'e) AgentServerIface \<Rightarrow> (string \<times> nat) list \<Rightarrow> 'm ConnectionManager \<Rightarrow>
    'm ConnectionManager outcome" where
  "drop_all I [] cm = Ok cm"
| "drop_all I ((agentID, r) # es) cm = obind (drop_conn I agentID r cm) (drop_all I es)"

definition Stop_cm :: "('m, 'e) AgentServerIface \<Rightarrow> 'm ConnectionManager \<Rightarrow> 'm ConnectionManager outcome" where
  "Stop_cm I cm =
     (if cm_stopped cm then Panic
      else
        let cm1 = cm\<lparr>cm_stopped := True\<rparr> in
        obind (drop_all I (cm_agents cm1) cm1) (\<lambda>cm2.
          let cm3 = cm2\<lparr>cm_agents := []\<rparr> in
          case cm_asm cm3 of
            Some asm \<Rightarrow> obind (iface_shutdown I asm) (\<lambda>(err, asm'). Ok (cm3\<lparr>cm_asm := Some asm'\<rparr>))
          | None \<Rightarrow> Ok cm3))"

fun remove_stale :: "('m, 'e) AgentServerIface \<Rightarrow> gotime \<Rightarrow> (string \<times> nat) list \<Rightarrow>
    'm ConnectionManager \<Rightarrow> 'm ConnectionManager outcome" where
  "remove_stale I now [] cm = Ok cm"
| "remove_stale I now ((agentID, r) # es) cm =
     (if time_sub now (ac_LastSeen (cm_heap cm ! r)) > staleConnectionTimeout
      then obind (drop_conn I agentID r cm) (\<lambda>cm'. remove_stale I now es (delete_agent agentID cm'))
      else remove_stale I now es cm)"

definition removeStaleConnections :: "('m, 'e) AgentServerIface \<Rightarrow> gotime \<Rightarrow> 'm ConnectionManager \<Rightarrow>
    'm ConnectionManager outcome" where
  "removeStaleConnections I now cm = remove_stale I now (cm_agents cm) cm"

text \<open>
  The goroutine \<^verbatim>\<open>cleanupStaleConnections\<close>, driven by the events its \<^verbatim>\<open>select\<close> picks: a tick of the
  ticker, or \<open>None\<close> for the stop channel, which is ready only once it is closed.  The flag in the
  result tells whether the loop has returned.
\<close>

fun cleanupStaleConnections :: "('m, 'e) AgentServerIface \<Rightarrow> gotime option list \<Rightarrow>
    'm ConnectionManager \<Rightarrow> (bool \<times> 'm ConnectionManager) outcome" where
  "cleanupStaleConnections I [] cm = Ok (False, cm)"
| "cleanupStaleConnections I (Some now # es) cm =
     obind (removeStaleConnections I now cm) (cleanupStaleConnections I es)"
| "cleanupStaleConnections I (None # es) cm =
     (if cm_stopped cm then Ok (True, cm) else cleanupStaleConnections I es cm)"

section \<open>Invariant\<close>

text \<open>
  Every connection is in exactly one of two states: open, and then the table holds it under its
  own identifier, or cancelled with its channel closed, and then the table does not hold it.
  So no send channel is ever closed twice, and none is forgotten.
\<close>

definition conn_ok :: "AgentConnection \<Rightarrow> bool" where
  "conn_ok c \<longleftrightarrow> chan_ok (ac_SendCh c) \<and> chan_cap (ac_SendCh c) = sendChannelBuffer \<and> 0 \<le> ac_Port c \<and>
     ac_cancelled c = chan_closed (ac_SendCh c)"

definition cm_wf :: "'m ConnectionManager \<Rightarrow> bool" where
  "cm_wf cm \<longleftrightarrow> gomap_ok (cm_agents cm) \<and>
     (\<forall>a r. map_of (cm_agents cm) a = Some r \<longrightarrow> r < length (cm_heap cm) \<and> ac_ID (cm_heap cm ! r) = a) \<and>
     (\<forall>r < length (cm_heap cm). conn_ok (cm_heap cm ! r) \<and>
        (ac_cancelled (cm_heap cm ! r) \<longleftrightarrow> map_of (cm_agents cm) (ac_ID (cm_heap cm ! r)) \<noteq> Some r))"

text \<open>The port the server manager serves an agent on, if there is a manager.\<close>

definition cm_port :: "('m \<Rightarrow> string \<Rightarrow> int option) \<Rightarrow> 'm ConnectionManager \<Rightarrow> string \<Rightarrow> int option" where
  "cm_port port cm a = (case cm_asm cm of None \<Rightarrow> None | Some m \<Rightarrow> port m a)"

text \<open>
  \<open>cm_inv\<close>: the table is well formed, the server manager is in order, and it serves only
  registered agents, each on the port that its connection records.
\<close>

definition cm_inv :: "('m \<Rightarrow> bool) \<Rightarrow> ('m \<Rightarrow> string \<Rightarrow> int option) \<Rightarrow> 'm ConnectionManager \<Rightarrow> bool" where
  "cm_inv ok port cm \<longleftrightarrow> cm_wf cm \<and> pred_option ok (cm_asm cm) \<and>
     (\<forall>a p. cm_port port cm a = Some p \<longrightarrow> p \<noteq> 0 \<and>
        (\<exists>r. map_of (cm_agents cm) a = Some r \<and> ac_Port (cm_heap cm ! r) = p))"

lemma cm_inv_port: "cm_inv ok port cm \<Longrightarrow> cm_port port cm a = Some p \<Longrightarrow>
    p \<noteq> 0 \<and> (\<exists>r. map_of (cm_agents cm) a = Some r \<and> ac_Port (cm_heap cm ! r) = p)"
  by (simp add: cm_inv_def)

definition closed_conn :: "AgentConnection \<Rightarrow> AgentConnection" where
  "closed_conn c = c\<lparr>ac_cancelled := True, ac_SendCh := (ac_SendCh c)\<lparr>chan_closed := True\<rparr>\<rparr>"

lemma closed_conn_simps [simp]:
  "ac_ID (closed_conn c) = ac_ID c" "ac_Port (closed_conn c) = ac_Port c"
  "ac_LastSeen (closed_conn c) = ac_LastSeen c" "ac_cancelled (closed_conn c)"
  "conn_ok c \<Longrightarrow> conn_ok (closed_conn c)"
  by (simp_all add: closed_conn_def conn_ok_def chan_ok_def)

lemma cm_wf_entry:
  assumes "cm_wf cm" "map_of (cm_agents cm) a = Some r"
  shows "r < length (cm_heap cm)" "ac_ID (cm_heap cm ! r) = a" "conn_ok (cm_heap cm ! r)"
    "\<not> ac_cancelled (cm_heap cm ! r)" "\<not> chan_closed (ac_SendCh (cm_heap cm ! r))"
  using assms unfolding cm_wf_def conn_ok_def by auto

lemma cm_wf_inj:
  assumes "cm_wf cm" "map_of (cm_agents cm) a = Some r" "map_of (cm_agents cm) b = Some r"
  shows "a = b"
  using cm_wf_entry(2) [OF assms(1)] assms(2,3) by metis

lemma cm_wf_asm [simp]: "cm_wf (cm\<lparr>cm_asm := m\<rparr>) \<longleftrightarrow> cm_wf cm"
  by (simp add: cm_wf_def)

lemma close_conn_open:
  "\<not> chan_closed (ac_SendCh (cm_heap cm ! r)) \<Longrightarrow>
     close_conn r cm = Ok (cm\<lparr>cm_heap := (cm_heap cm)[r := closed_conn (cm_heap cm ! r)]\<rparr>)"
  by (simp add: close_conn_def Let_def closed_conn_def)

text \<open>The table after one connection is closed and its entry deleted.\<close>

definition dropped :: "string \<Rightarrow> nat \<Rightarrow> 'm ConnectionManager \<Rightarrow> 'm ConnectionManager" where
  "dropped a r cm = cm\<lparr>cm_agents := AList.delete a (cm_agents cm),
     cm_heap := (cm_heap cm)[r := closed_conn (cm_heap cm ! r)]\<rparr>"

lemma dropped_simps [simp]:
  "cm_agents (dropped a r cm) = AList.delete a (cm_agents cm)"
  "cm_heap (dropped a r cm) = (cm_heap cm)[r := closed_conn (cm_heap cm ! r)]"
  "cm_asm (dropped a r cm) = cm_asm cm" "cm_stopped (dropped a r cm) = cm_stopped cm"
  by (simp_all add: dropped_def)

lemma dropped_wf:
  assumes wf: "cm_wf cm" and r: "map_of (cm_agents cm) a = Some r"
  shows "cm_wf (dropped a r cm)"
proof -
  note E = cm_wf_entry [OF wf r]
  have heap: "cm_heap (dropped a r cm) ! k = (if k = r then closed_conn (cm_heap cm ! r) else cm_heap cm ! k)"
    for k using E(1) by simp
  have other: "s \<noteq> r" if "map_of (cm_agents cm) b = Some s" "b \<noteq> a" for b s
    using cm_wf_inj [OF wf r] that by blast
  have "gomap_ok (cm_agents (dropped a r cm))"
    using wf by (simp add: cm_wf_def)
  moreover have "s < length (cm_heap (dropped a r cm)) \<and> ac_ID (cm_heap (dropped a r cm) ! s) = b"
    if "map_of (cm_agents (dropped a r cm)) b = Some s" for b s
    using that cm_wf_entry(1,2) [OF wf, of b s] unfolding heap by (auto simp: go_map split: if_splits)
  moreover have "conn_ok (cm_heap (dropped a r cm) ! s) \<and>
      (ac_cancelled (cm_heap (dropped a r cm) ! s) \<longleftrightarrow>
        map_of (cm_agents (dropped a r cm)) (ac_ID (cm_heap (dropped a r cm) ! s)) \<noteq> Some s)"
    if "s < length (cm_heap (dropped a r cm))" for s
  proof (cases "s = r")
    case True
    with E show ?thesis by (simp add: heap go_map)
  next
    case False
    with that wf r show ?thesis
      unfolding heap cm_wf_def by (auto simp: go_map)
  qed
  ultimately show ?thesis unfolding cm_wf_def by blast
qed

lemma add_conn_wf:
  assumes wf: "cm_wf cm" and a: "map_of (cm_agents cm) a = None" and p: "0 \<le> p"
  shows "cm_wf (add_conn now st a p cm)"
proof -
  let ?n = "length (cm_heap cm)" and ?cm = "add_conn now st a p cm"
  have "gomap_ok (cm_agents ?cm)" using wf by (simp add: add_conn_def cm_wf_def)
  moreover have "s < length (cm_heap ?cm) \<and> ac_ID (cm_heap ?cm ! s) = b"
    if "map_of (cm_agents ?cm) b = Some s" for b s
    using that cm_wf_entry(1,2) [OF wf, of b s]
    by (auto simp: add_conn_def go_map nth_append split: if_splits)
  moreover have "conn_ok (cm_heap ?cm ! s) \<and>
      (ac_cancelled (cm_heap ?cm ! s) \<longleftrightarrow> map_of (cm_agents ?cm) (ac_ID (cm_heap ?cm ! s)) \<noteq> Some s)"
    if s: "s < length (cm_heap ?cm)" for s
  proof (cases "s = ?n")
    case True
    with p show ?thesis by (simp add: add_conn_def go_map nth_append conn_ok_def)
  next
    case False
    with s have "s < ?n" by (simp add: add_conn_def)
    moreover from this wf a False
    have "conn_ok (cm_heap cm ! s) \<and>
        (ac_cancelled (cm_heap cm ! s) \<longleftrightarrow> map_of (cm_agents cm) (ac_ID (cm_heap cm ! s)) \<noteq> Some s)"
      by (simp add: cm_wf_def)
    ultimately show ?thesis
      using a False by (simp add: add_conn_def go_map nth_append)
  qed
  ultimately show ?thesis unfolding cm_wf_def by blast
qed

text \<open>Sends and time stamps change a connection in place and keep everything else.\<close>

lemma cm_inv_conn_update:
  assumes inv: "cm_inv ok port cm" and r: "r < length (cm_heap cm)" and c: "conn_ok c"
    "ac_ID c = ac_ID (cm_heap cm ! r)" "ac_Port c = ac_Port (cm_heap cm ! r)"
    "ac_cancelled c = ac_cancelled (cm_heap cm ! r)"
  shows "cm_inv ok port (cm\<lparr>cm_heap := (cm_heap cm)[r := c]\<rparr>)"
proof -
  let ?cm = "cm\<lparr>cm_heap := (cm_heap cm)[r := c]\<rparr>"
  have heap: "cm_heap ?cm ! s = (if s = r then c else cm_heap cm ! s)" for s
    using r by simp
  have wf: "cm_wf cm" using inv by (simp add: cm_inv_def)
  then have "cm_wf ?cm"
    unfolding cm_wf_def heap using c by simp
  moreover have "cm_port port ?cm = cm_port port cm" by (simp add: cm_port_def fun_eq_iff)
  moreover have "ac_Port (cm_heap ?cm ! s) = ac_Port (cm_heap cm ! s)" for s
    using c(3) r by (simp add: nth_list_update)
  ultimately show ?thesis
    using inv unfolding cm_inv_def by simp
qed

lemma refs_distinct:
  assumes "cm_wf cm" shows "distinct (map snd (cm_agents cm))"
proof -
  have ok: "gomap_ok (cm_agents cm)" using assms by (simp add: cm_wf_def)
  then have "distinct (cm_agents cm)" by (simp add: gomap_ok_def distinct_map)
  moreover have "inj_on snd (set (cm_agents cm))"
    using cm_wf_inj [OF assms] by (auto simp: inj_on_def gomap_in_iff [OF ok])
  ultimately show ?thesis by (simp add: distinct_map)
qed

text \<open>
  The \<^verbatim>\<open>select\<close> on a connection of the table: it never panics, a successful send appends the
  message to the queue, and a failed one changes nothing.
\<close>

lemma send_select_open:
  assumes "conn_ok c" "\<not> ac_cancelled c" "out \<in> set (send_select expired a msg c)"
  obtains (sent) "chan_room (ac_SendCh c)" "out = Ok (None, c\<lparr>ac_SendCh := chan_push msg (ac_SendCh c)\<rparr>)"
  | (timeout) "expired" "out = Ok (Some (TimeoutSending a), c)"
  | (wait) "\<not> expired" "\<not> chan_room (ac_SendCh c)" "out = Block"
  using assms unfolding send_select_def conn_ok_def Let_def by (auto split: if_splits)

definition stale_conn :: "gotime \<Rightarrow> 'm ConnectionManager \<Rightarrow> string \<Rightarrow> bool" where
  "stale_conn now cm a \<longleftrightarrow> (case map_of (cm_agents cm) a of
     Some r \<Rightarrow> time_sub now (ac_LastSeen (cm_heap cm ! r)) > staleConnectionTimeout | None \<Rightarrow> False)"

section \<open>The operations against the interface\<close>

context agent_server_iface
begin

abbreviation CM_inv :: "'m ConnectionManager \<Rightarrow> bool" where
  "CM_inv \<equiv> cm_inv inv port"

lemma stop_server_ok:
  assumes "pred_option inv (cm_asm cm)"
  shows "\<exists>m. stop_server I a p cm = Ok (cm\<lparr>cm_asm := m\<rparr>) \<and> pred_option inv m \<and>
    (cm_asm cm = None \<longleftrightarrow> m = None) \<and>
    cm_port port (cm\<lparr>cm_asm := m\<rparr>) = (if p \<noteq> 0 then (cm_port port cm)(a := None) else cm_port port cm)"
proof (cases "cm_asm cm")
  case None
  then have "cm\<lparr>cm_asm := None\<rparr> = cm" by simp
  with None show ?thesis
    by (intro exI [of _ None]) (auto simp: stop_server_def cm_port_def fun_eq_iff)
next
  case (Some m)
  with assms have m: "inv m" by simp
  show ?thesis
  proof (cases "p = 0")
    case True
    from Some have "cm\<lparr>cm_asm := Some m\<rparr> = cm" by simp
    with True Some m show ?thesis
      by (intro exI [of _ "Some m"]) (simp add: stop_server_def cm_port_def fun_eq_iff)
  next
    case False
    from m obtain r m' where "iface_stop I a m = Ok (r, m')" "inv m'" "port m' = (port m)(a := None)"
      by (rule stop_cases)
    with False Some show ?thesis
      by (intro exI [of _ "Some m'"]) (auto simp: stop_server_def cm_port_def fun_eq_iff)
  qed
qed

text \<open>Dropping one agent, the common part of five operations.\<close>

lemma drop_entry:
  assumes inv: "CM_inv cm" and r: "map_of (cm_agents cm) a = Some r"
  shows "\<exists>m. obind (drop_conn I a r cm) (\<lambda>cm'. Ok (delete_agent a cm')) = Ok ((dropped a r cm)\<lparr>cm_asm := m\<rparr>) \<and>
    CM_inv ((dropped a r cm)\<lparr>cm_asm := m\<rparr>) \<and> (cm_asm cm = None \<longleftrightarrow> m = None) \<and>
    cm_port port ((dropped a r cm)\<lparr>cm_asm := m\<rparr>) = (cm_port port cm)(a := None)"
proof -
  have wf: "cm_wf cm" using inv by (simp add: cm_inv_def)
  note E = cm_wf_entry [OF wf r]
  let ?c = "cm\<lparr>cm_heap := (cm_heap cm)[r := closed_conn (cm_heap cm ! r)]\<rparr>"
  have port: "cm_port port cm a = None" if "ac_Port (cm_heap cm ! r) = 0"
    using cm_inv_port [OF inv, of a] r that by (cases "cm_port port cm a") simp_all
  have "pred_option inv (cm_asm ?c)" using inv by (simp add: cm_inv_def)
  from stop_server_ok [OF this, of a "ac_Port (cm_heap cm ! r)"] obtain m where
    m: "stop_server I a (ac_Port (cm_heap cm ! r)) ?c = Ok (?c\<lparr>cm_asm := m\<rparr>)" "pred_option inv m"
      "cm_asm ?c = None \<longleftrightarrow> m = None"
      "cm_port port (?c\<lparr>cm_asm := m\<rparr>) = (if ac_Port (cm_heap cm ! r) \<noteq> 0 then (cm_port port ?c)(a := None)
         else cm_port port ?c)"
    by (elim exE conjE) (rule that; assumption)
  have "cm_port port ?c = cm_port port cm" by (simp add: cm_port_def fun_eq_iff)
  with m(4) port have "cm_port port (?c\<lparr>cm_asm := m\<rparr>) = (cm_port port cm)(a := None)"
    by (simp add: fun_upd_idem)
  then have ports: "cm_port port ((dropped a r cm)\<lparr>cm_asm := m\<rparr>) = (cm_port port cm)(a := None)"
    by (simp add: cm_port_def fun_eq_iff)
  have "CM_inv ((dropped a r cm)\<lparr>cm_asm := m\<rparr>)"
    unfolding cm_inv_def ports
  proof (intro conjI allI impI)
    show "cm_wf ((dropped a r cm)\<lparr>cm_asm := m\<rparr>)" using dropped_wf [OF wf r] by simp
    show "pred_option inv (cm_asm ((dropped a r cm)\<lparr>cm_asm := m\<rparr>))" using m(2) by simp
  next
    fix b p assume "((cm_port port cm)(a := None)) b = Some p"
    then have b: "b \<noteq> a" "cm_port port cm b = Some p" by (simp_all split: if_splits)
    from cm_inv_port [OF inv b(2)]
    obtain s where s: "p \<noteq> 0" "map_of (cm_agents cm) b = Some s" "ac_Port (cm_heap cm ! s) = p"
      by blast
    moreover have "s \<noteq> r" using cm_wf_inj [OF wf r] s(2) b(1) by blast
    ultimately show "p \<noteq> 0" "\<exists>s. map_of (cm_agents ((dropped a r cm)\<lparr>cm_asm := m\<rparr>)) b = Some s \<and>
        ac_Port (cm_heap ((dropped a r cm)\<lparr>cm_asm := m\<rparr>) ! s) = p"
      using b(1) by (simp_all add: go_map)
  qed
  moreover have "obind (drop_conn I a r cm) (\<lambda>cm'. Ok (delete_agent a cm')) = Ok ((dropped a r cm)\<lparr>cm_asm := m\<rparr>)"
    using m(1) E by (simp add: drop_conn_def close_conn_open delete_agent_def dropped_def)
  ultimately show ?thesis using m(3) ports by (intro exI [of _ m]) simp
qed

lemma Deregister_ok:
  assumes "CM_inv cm"
  shows "\<exists>cm'. Deregister I a cm = Ok cm' \<and> CM_inv cm' \<and>
    cm_agents cm' = AList.delete a (cm_agents cm) \<and>
    cm_heap cm' = (case map_of (cm_agents cm) a of
       Some r \<Rightarrow> (cm_heap cm)[r := closed_conn (cm_heap cm ! r)] | None \<Rightarrow> cm_heap cm) \<and>
    (cm_asm cm' = None \<longleftrightarrow> cm_asm cm = None) \<and> cm_stopped cm' = cm_stopped cm \<and>
    cm_port port cm' = (cm_port port cm)(a := None)"
proof (cases "map_of (cm_agents cm) a")
  case None
  have "cm_port port cm a = None"
    using cm_inv_port [OF assms, of a] None by (cases "cm_port port cm a") simp_all
  moreover have "AList.delete a (cm_agents cm) = cm_agents cm"
    using None by (simp add: map_of_eq_None_iff)
  ultimately show ?thesis
    using assms None by (intro exI [of _ cm]) (simp add: Deregister_def fun_upd_idem)
next
  case (Some r)
  from drop_entry [OF assms Some] obtain m where
    "obind (drop_conn I a r cm) (\<lambda>cm'. Ok (delete_agent a cm')) = Ok ((dropped a r cm)\<lparr>cm_asm := m\<rparr>)"
    "CM_inv ((dropped a r cm)\<lparr>cm_asm := m\<rparr>)" "cm_asm cm = None \<longleftrightarrow> m = None"
    "cm_port port ((dropped a r cm)\<lparr>cm_asm := m\<rparr>) = (cm_port port cm)(a := None)"
    by (elim exE conjE) (rule that; assumption)
  with Some show ?thesis
    by (intro exI [of _ "(dropped a r cm)\<lparr>cm_asm := m\<rparr>"]) (simp add: Deregister_def)
qed

lemma add_conn_inv:
  assumes inv: "CM_inv cm" and a: "map_of (cm_agents cm) a = None"
    and m: "pred_option inv m" and p: "0 \<le> p"
    and ports: "cm_port port (cm\<lparr>cm_asm := m\<rparr>) = (if p = 0 then cm_port port cm else (cm_port port cm)(a \<mapsto> p))"
  shows "CM_inv (add_conn now st a p (cm\<lparr>cm_asm := m\<rparr>))" (is "CM_inv ?cm")
  unfolding cm_inv_def
proof (intro conjI allI impI)
  have wf: "cm_wf cm" using inv by (simp add: cm_inv_def)
  then show "cm_wf ?cm" using a p by (intro add_conn_wf) simp_all
  show "pred_option inv (cm_asm ?cm)" using m by (simp add: add_conn_def)
  fix b q assume "cm_port port ?cm b = Some q"
  then have "cm_port port (cm\<lparr>cm_asm := m\<rparr>) b = Some q" by (simp add: cm_port_def add_conn_def)
  then consider "b = a" "q = p" "p \<noteq> 0" | "cm_port port cm b = Some q"
    unfolding ports by (cases "p = 0"; cases "b = a") simp_all
  then have "q \<noteq> 0 \<and> (\<exists>r. map_of (cm_agents ?cm) b = Some r \<and> ac_Port (cm_heap ?cm ! r) = q)"
  proof cases
    case 1
    then show ?thesis by (simp add: add_conn_def go_map)
  next
    case 2
    from cm_inv_port [OF inv 2] obtain r where
      r: "q \<noteq> 0" "map_of (cm_agents cm) b = Some r" "ac_Port (cm_heap cm ! r) = q"
      by blast
    moreover from this a have "b \<noteq> a" by auto
    ultimately show ?thesis
      using cm_wf_entry(1) [OF wf r(2)] by (simp add: add_conn_def go_map nth_append)
  qed
  then show "q \<noteq> 0" "\<exists>r. map_of (cm_agents ?cm) b = Some r \<and> ac_Port (cm_heap ?cm ! r) = q"
    by simp_all
qed

lemma Register_eq:
  "Register I now st a cm =
     obind (Deregister I a cm) (\<lambda>cm1.
       case cm_asm cm1 of
         Some asm \<Rightarrow>
           obind (iface_start I a asm) (\<lambda>(res, asm').
             let cm2 = cm1\<lparr>cm_asm := Some asm'\<rparr> in
             case res of
               Inl e \<Rightarrow> Ok (Inl (FailedToStartServer e), cm2)
             | Inr port \<Rightarrow> Ok (Inr (length (cm_heap cm2)), add_conn now st a port cm2))
       | None \<Rightarrow> Ok (Inr (length (cm_heap cm1)), add_conn now st a 0 cm1))"
  by (simp add: Register_def Deregister_def)

text \<open>
  After the old connection is gone, a registration either fails, and then nothing else changed,
  or adds one fresh open connection.
\<close>

lemma Register_cases:
  assumes inv: "CM_inv cm" and dereg: "Deregister I a cm = Ok cm1"
  obtains (failed) e m where "Register I now st a cm = Ok (Inl (FailedToStartServer e), cm1\<lparr>cm_asm := Some m\<rparr>)"
      "CM_inv (cm1\<lparr>cm_asm := Some m\<rparr>)" "cm_port port (cm1\<lparr>cm_asm := Some m\<rparr>) = cm_port port cm1"
      "cm_asm cm \<noteq> None"
  | (plain) "Register I now st a cm = Ok (Inr (length (cm_heap cm)), add_conn now st a 0 cm1)"
      "CM_inv (add_conn now st a 0 cm1)" "cm_asm cm = None"
  | (served) p m where "Register I now st a cm =
        Ok (Inr (length (cm_heap cm)), add_conn now st a p (cm1\<lparr>cm_asm := Some m\<rparr>))"
      "CM_inv (add_conn now st a p (cm1\<lparr>cm_asm := Some m\<rparr>))" "0 < p" "cm_asm cm \<noteq> None"
      "cm_port port (cm1\<lparr>cm_asm := Some m\<rparr>) = (cm_port port cm1)(a \<mapsto> p)"
      "\<forall>b. cm_port port cm1 b \<noteq> Some p"
proof -
  from Deregister_ok [OF inv, of a] dereg
  have inv1: "CM_inv cm1" and a: "map_of (cm_agents cm1) a = None"
    and len: "length (cm_heap cm1) = length (cm_heap cm)" and asm: "cm_asm cm1 = None \<longleftrightarrow> cm_asm cm = None"
    by (auto simp: go_map split: option.splits)
  show thesis
  proof (cases "cm_asm cm1")
    case None
    then have "cm1\<lparr>cm_asm := None\<rparr> = cm1" by simp
    with add_conn_inv [OF inv1 a, of None 0 now st] None asm len dereg show thesis
      by (intro plain) (simp_all add: Register_eq)
  next
    case (Some m)
    with inv1 have "inv m" by (simp add: cm_inv_def)
    then show thesis
    proof (cases rule: start_cases [where a = a])
      case (failed e m')
      have "cm_port port (cm1\<lparr>cm_asm := Some m'\<rparr>) = cm_port port cm1"
        using failed Some by (simp add: cm_port_def fun_eq_iff)
      moreover from this inv1 failed have "CM_inv (cm1\<lparr>cm_asm := Some m'\<rparr>)"
        by (simp add: cm_inv_def)
      ultimately show thesis
        using failed(1) Some dereg asm by (intro that(1)) (simp_all add: Register_eq)
    next
      case (started p m')
      have ports: "cm_port port (cm1\<lparr>cm_asm := Some m'\<rparr>) = (cm_port port cm1)(a \<mapsto> p)"
        using started Some by (simp add: cm_port_def fun_eq_iff)
      have "CM_inv (add_conn now st a p (cm1\<lparr>cm_asm := Some m'\<rparr>))"
        using started ports by (intro add_conn_inv [OF inv1 a]) simp_all
      with ports started Some dereg asm len show thesis
        by (intro served) (simp_all add: Register_eq cm_port_def)
    qed
  qed
qed

lemma remove_stale_ok:
  assumes "CM_inv cm" "gomap_ok es" "\<forall>(a, r)\<in>set es. map_of (cm_agents cm) a = Some r"
  shows "\<exists>cm'. remove_stale I now es cm = Ok cm' \<and> CM_inv cm' \<and> cm_stopped cm' = cm_stopped cm \<and>
    length (cm_heap cm') = length (cm_heap cm) \<and> (cm_asm cm' = None \<longleftrightarrow> cm_asm cm = None) \<and>
    (\<forall>b. map_of (cm_agents cm') b =
           (if b \<in> keys es \<and> stale_conn now cm b then None else map_of (cm_agents cm) b)) \<and>
    (\<forall>b. cm_port port cm' b = (if b \<in> keys es \<and> stale_conn now cm b then None else cm_port port cm b)) \<and>
    (\<forall>b r. map_of (cm_agents cm') b = Some r \<longrightarrow> cm_heap cm' ! r = cm_heap cm ! r)"
  using assms
proof (induction es arbitrary: cm)
  case Nil
  then show ?case by simp
next
  case (Cons e es)
  obtain a r where e: "e = (a, r)" by (cases e)
  have r: "map_of (cm_agents cm) a = Some r" using Cons.prems(3) by (simp add: e)
  have es: "gomap_ok es" "a \<notin> keys es" using Cons.prems(2) by (simp_all add: e gomap_ok_def)
  have stale: "stale_conn now cm a \<longleftrightarrow> time_sub now (ac_LastSeen (cm_heap cm ! r)) > staleConnectionTimeout"
    by (simp add: stale_conn_def r)
  show ?case
  proof (cases "stale_conn now cm a")
    case False
    then have "b \<in> keys (e # es) \<and> stale_conn now cm b \<longleftrightarrow> b \<in> keys es \<and> stale_conn now cm b" for b
      by (auto simp: e)
    moreover have "remove_stale I now (e # es) cm = remove_stale I now es cm"
      using False stale by (simp add: e)
    ultimately show ?thesis
      using Cons.IH [OF Cons.prems(1) es(1)] Cons.prems(3) by simp
  next
    case True
    from drop_entry [OF Cons.prems(1) r] obtain m where
      m: "obind (drop_conn I a r cm) (\<lambda>cm'. Ok (delete_agent a cm')) = Ok ((dropped a r cm)\<lparr>cm_asm := m\<rparr>)"
      "CM_inv ((dropped a r cm)\<lparr>cm_asm := m\<rparr>)" "cm_asm cm = None \<longleftrightarrow> m = None"
      "cm_port port ((dropped a r cm)\<lparr>cm_asm := m\<rparr>) = (cm_port port cm)(a := None)"
      by (elim exE conjE) (rule that; assumption)
    let ?d = "(dropped a r cm)\<lparr>cm_asm := m\<rparr>"
    have wf: "cm_wf cm" using Cons.prems(1) by (simp add: cm_inv_def)
    have other: "s \<noteq> r" if "map_of (cm_agents cm) b = Some s" "b \<noteq> a" for b s
      using cm_wf_inj [OF wf r] that by blast
    have sd: "stale_conn now ?d b \<longleftrightarrow> b \<noteq> a \<and> stale_conn now cm b" for b
      using other [of b] by (auto simp: stale_conn_def go_map split: option.splits)
    have "\<forall>(b, s)\<in>set es. map_of (cm_agents ?d) b = Some s"
    proof (intro ballI, clarify)
      fix b s assume bs: "(b, s) \<in> set es"
      have "b \<noteq> a" using es(2) bs by force
      then show "map_of (cm_agents ?d) b = Some s"
        using Cons.prems(3) bs by (auto simp: go_map)
    qed
    from Cons.IH [OF m(2) es(1) this] obtain cm' where
      cm': "remove_stale I now es ?d = Ok cm'" "CM_inv cm'" "cm_stopped cm' = cm_stopped ?d"
      "length (cm_heap cm') = length (cm_heap ?d)" "cm_asm cm' = None \<longleftrightarrow> cm_asm ?d = None"
      "\<forall>b. map_of (cm_agents cm') b =
         (if b \<in> keys es \<and> stale_conn now ?d b then None else map_of (cm_agents ?d) b)"
      "\<forall>b. cm_port port cm' b = (if b \<in> keys es \<and> stale_conn now ?d b then None else cm_port port ?d b)"
      "\<forall>b r. map_of (cm_agents cm') b = Some r \<longrightarrow> cm_heap cm' ! r = cm_heap ?d ! r"
      by (elim exE conjE) (rule that; assumption)
    have "remove_stale I now (e # es) cm = remove_stale I now es ?d"
      using True stale m(1) by (cases "drop_conn I a r cm") (simp_all add: e)
    moreover have "map_of (cm_agents cm') b =
        (if b \<in> keys (e # es) \<and> stale_conn now cm b then None else map_of (cm_agents cm) b)" for b
      using cm'(6) True es(2) by (auto simp: e sd go_map)
    moreover have "cm_port port cm' b =
        (if b \<in> keys (e # es) \<and> stale_conn now cm b then None else cm_port port cm b)" for b
      using cm'(7) True es(2) by (auto simp: e sd m(4))
    moreover have "cm_heap cm' ! s = cm_heap cm ! s" if s: "map_of (cm_agents cm') b = Some s" for b s
    proof -
      have "map_of (cm_agents cm) b = Some s" "b \<noteq> a"
        using s cm'(6) by (auto simp: go_map split: if_splits)
      with other [of b s] cm'(8) s show ?thesis by simp
    qed
    ultimately show ?thesis
      using cm'(1-5) m(3) by (intro exI [of _ cm']) simp
  qed
qed

lemma drop_all_ok:
  assumes "pred_option inv (cm_asm cm)" "distinct (map snd es)"
    "\<forall>(a, r)\<in>set es. r < length (cm_heap cm) \<and> \<not> chan_closed (ac_SendCh (cm_heap cm ! r))"
  shows "\<exists>cm'. drop_all I es cm = Ok cm' \<and> cm_agents cm' = cm_agents cm \<and> cm_stopped cm' = cm_stopped cm \<and>
    pred_option inv (cm_asm cm') \<and> (cm_asm cm' = None \<longleftrightarrow> cm_asm cm = None) \<and>
    length (cm_heap cm') = length (cm_heap cm) \<and>
    (\<forall>r. cm_heap cm' ! r = (if r \<in> snd ` set es then closed_conn (cm_heap cm ! r) else cm_heap cm ! r))"
  using assms
proof (induction es arbitrary: cm)
  case Nil
  then show ?case by simp
next
  case (Cons e es)
  obtain a r where e: "e = (a, r)" by (cases e)
  have r: "r < length (cm_heap cm)" "\<not> chan_closed (ac_SendCh (cm_heap cm ! r))"
    using Cons.prems(3) by (simp_all add: e)
  let ?c = "cm\<lparr>cm_heap := (cm_heap cm)[r := closed_conn (cm_heap cm ! r)]\<rparr>"
  have "pred_option inv (cm_asm ?c)" using Cons.prems(1) by simp
  from stop_server_ok [OF this, of a "ac_Port (cm_heap cm ! r)"] obtain m where
    m: "stop_server I a (ac_Port (cm_heap cm ! r)) ?c = Ok (?c\<lparr>cm_asm := m\<rparr>)" "pred_option inv m"
      "cm_asm ?c = None \<longleftrightarrow> m = None"
    by (elim exE conjE) (rule that; assumption)
  have drop: "drop_conn I a r cm = Ok (?c\<lparr>cm_asm := m\<rparr>)"
    using m(1) r by (simp add: drop_conn_def close_conn_open)
  have rs: "r \<notin> snd ` set es" "distinct (map snd es)" using Cons.prems(2) by (simp_all add: e)
  let ?d = "?c\<lparr>cm_asm := m\<rparr>"
  have unclosed: "\<forall>(b, s)\<in>set es. s < length (cm_heap ?d) \<and> \<not> chan_closed (ac_SendCh (cm_heap ?d ! s))"
  proof (intro ballI, clarify)
    fix b s assume bs: "(b, s) \<in> set es"
    have "s \<noteq> r" using rs(1) bs by force
    with Cons.prems(3) bs show "s < length (cm_heap ?d) \<and> \<not> chan_closed (ac_SendCh (cm_heap ?d ! s))"
      by auto
  qed
  have "pred_option inv (cm_asm ?d)" using m(2) by simp
  from Cons.IH [OF this rs(2) unclosed] obtain cm' where
    cm': "drop_all I es ?d = Ok cm'" "cm_agents cm' = cm_agents ?d"
      "cm_stopped cm' = cm_stopped ?d" "pred_option inv (cm_asm cm')" "cm_asm cm' = None \<longleftrightarrow> cm_asm ?d = None"
      "length (cm_heap cm') = length (cm_heap ?d)"
      "\<forall>s. cm_heap cm' ! s = (if s \<in> snd ` set es then closed_conn (cm_heap ?d ! s) else cm_heap ?d ! s)"
    by (elim exE conjE) (rule that; assumption)
  have "cm_heap cm' ! s = (if s \<in> snd ` set (e # es) then closed_conn (cm_heap cm ! s) else cm_heap cm ! s)" for s
    using cm'(7) rs(1) r(1) by (auto simp: e nth_list_update)
  with cm'(1-6) m(3) drop show ?case
    by (intro exI [of _ cm']) (simp add: e)
qed

lemma removeStaleConnections_ok:
  assumes "CM_inv cm"
  shows "\<exists>cm'. removeStaleConnections I now cm = Ok cm' \<and> CM_inv cm' \<and> cm_stopped cm' = cm_stopped cm \<and>
    length (cm_heap cm') = length (cm_heap cm) \<and>
    (\<forall>b. map_of (cm_agents cm') b = (if stale_conn now cm b then None else map_of (cm_agents cm) b)) \<and>
    (\<forall>b. cm_port port cm' b = (if stale_conn now cm b then None else cm_port port cm b)) \<and>
    (\<forall>b r. map_of (cm_agents cm') b = Some r \<longrightarrow> cm_heap cm' ! r = cm_heap cm ! r)"
proof -
  have ok: "gomap_ok (cm_agents cm)" using assms by (simp add: cm_inv_def cm_wf_def)
  have entries: "\<forall>(a, r)\<in>set (cm_agents cm). map_of (cm_agents cm) a = Some r"
    by (auto simp: gomap_in_iff [OF ok])
  have all: "b \<in> keys (cm_agents cm) \<and> stale_conn now cm b \<longleftrightarrow> stale_conn now cm b" for b
    by (auto simp: stale_conn_def keys_map_of split: option.splits)
  from remove_stale_ok [OF assms ok entries, of now, unfolded all] show ?thesis
    unfolding removeStaleConnections_def by blast
qed

lemma Stop_ok:
  assumes inv: "CM_inv cm" and st: "\<not> cm_stopped cm"
  shows "\<exists>cm'. Stop_cm I cm = Ok cm' \<and> CM_inv cm' \<and> cm_agents cm' = [] \<and> cm_stopped cm' \<and>
    cm_port port cm' = Map.empty \<and> length (cm_heap cm') = length (cm_heap cm)"
proof -
  have wf: "cm_wf cm" using inv by (simp add: cm_inv_def)
  have ok: "gomap_ok (cm_agents cm)" using wf by (simp add: cm_wf_def)
  let ?c = "cm\<lparr>cm_stopped := True\<rparr>"
  have "\<forall>(a, r)\<in>set (cm_agents cm). r < length (cm_heap ?c) \<and> \<not> chan_closed (ac_SendCh (cm_heap ?c ! r))"
    using cm_wf_entry(1,5) [OF wf] by (auto simp: gomap_in_iff [OF ok])
  moreover have "pred_option inv (cm_asm ?c)" using inv by (simp add: cm_inv_def)
  moreover note refs_distinct [OF wf]
  ultimately obtain c2 where c2: "drop_all I (cm_agents cm) ?c = Ok c2" "cm_stopped c2"
      "pred_option inv (cm_asm c2)" "length (cm_heap c2) = length (cm_heap cm)"
      "\<forall>r. cm_heap c2 ! r = (if r \<in> snd ` set (cm_agents cm) then closed_conn (cm_heap cm ! r)
         else cm_heap cm ! r)"
    using drop_all_ok [of ?c "cm_agents cm"] by auto
  have closed: "conn_ok (cm_heap c2 ! r) \<and> ac_cancelled (cm_heap c2 ! r)" if "r < length (cm_heap c2)" for r
  proof (cases "r \<in> snd ` set (cm_agents cm)")
    case True
    with that wf c2(4,5) show ?thesis by (simp add: cm_wf_def)
  next
    case False
    then have "map_of (cm_agents cm) b \<noteq> Some r" for b
      by (metis map_of_SomeD snd_conv image_eqI)
    with False that wf c2(4,5) show ?thesis by (simp add: cm_wf_def)
  qed
  have wf2: "cm_wf (c2\<lparr>cm_agents := [], cm_asm := m\<rparr>)" for m
    unfolding cm_wf_def using closed by simp
  show ?thesis
  proof (cases "cm_asm c2")
    case None
    with wf2 [of None] have "CM_inv (c2\<lparr>cm_agents := []\<rparr>)"
      by (simp add: cm_inv_def cm_port_def cm_wf_def)
    with None c2 st show ?thesis
      by (intro exI [of _ "c2\<lparr>cm_agents := []\<rparr>"]) (simp add: Stop_cm_def cm_port_def fun_eq_iff)
  next
    case (Some m)
    with c2(3) shutdown_ok [of m] obtain r m' where
      m': "iface_shutdown I m = Ok (r, m')" "inv m'" "port m' = Map.empty"
      by auto
    with wf2 [of "Some m'"] have "CM_inv (c2\<lparr>cm_agents := [], cm_asm := Some m'\<rparr>)"
      by (simp add: cm_inv_def cm_port_def)
    with Some m' c2 st show ?thesis
      by (intro exI [of _ "c2\<lparr>cm_agents := [], cm_asm := Some m'\<rparr>"])
         (simp add: Stop_cm_def cm_port_def fun_eq_iff)
  qed
qed

end

section \<open>Properties\<close>

text \<open>The invariant on the server manager of the program, and a table with one agent.\<close>

abbreviation conn_inv :: "AgentServerManager ConnectionManager \<Rightarrow> bool" where
  "conn_inv \<equiv> cm_inv asm_inv port_of"

abbreviation served :: "AgentServerManager ConnectionManager \<Rightarrow> string \<Rightarrow> int option" where
  "served \<equiv> cm_port port_of"

lemma conn_inv_new:
  "pm_inv pm \<Longrightarrow> allocatedPorts pm = [] \<Longrightarrow> conn_inv (NewConnectionManager (Some (NewAgentServerManager pm)))"
  using asm_inv_new [of pm]
  by (simp add: cm_inv_def cm_wf_def cm_port_def port_of_def NewConnectionManager_def NewAgentServerManager_def)

definition example_conn :: AgentConnection where
  "example_conn = \<lparr>ac_ID = ''a'', ac_Port = 8100, ac_Stream = 0, ac_SendCh = make_chan sendChannelBuffer,
     ac_LastSeen = 0, ac_cancelled = False\<rparr>"

definition example_cm :: "AgentServerManager ConnectionManager" where
  "example_cm = \<lparr>cm_agents = [(''a'', 0)], cm_heap = [example_conn], cm_stopped = False, cm_asm = Some example_asm\<rparr>"

lemma example_cm_inv: "conn_inv example_cm"
proof -
  have "port_of example_asm = [''a'' \<mapsto> 8100]"
    by (auto simp: port_of_def example_asm_def)
  with example_asm_inv show ?thesis
    by (auto simp: cm_inv_def cm_wf_def cm_port_def example_cm_def example_conn_def conn_ok_def
        gomap_ok_def split: if_splits)
qed

lemma Register_effect:
  assumes "conn_inv cm"
  shows "\<exists>res cm'. Register (asm_iface os t timed_out) now st a cm = Ok (res, cm') \<and> conn_inv cm' \<and>
    (\<forall>b. b \<noteq> a \<longrightarrow> map_of (cm_agents cm') b = map_of (cm_agents cm) b \<and> served cm' b = served cm b) \<and>
    (\<forall>r < length (cm_heap cm). cm_heap cm' ! r =
       (if map_of (cm_agents cm) a = Some r then closed_conn (cm_heap cm ! r) else cm_heap cm ! r)) \<and>
    (case res of
       Inl e \<Rightarrow> map_of (cm_agents cm') a = None \<and> served cm' a = None \<and> cm_asm cm \<noteq> None
     | Inr r \<Rightarrow> r = length (cm_heap cm) \<and> map_of (cm_agents cm') a = Some r \<and>
         (\<exists>p. cm_heap cm' ! r = \<lparr>ac_ID = a, ac_Port = p, ac_Stream = st, ac_SendCh = make_chan sendChannelBuffer,
                                  ac_LastSeen = now, ac_cancelled = False\<rparr> \<and>
              (if cm_asm cm = None then p = 0 else 0 < p \<and> served cm' a = Some p)))"
proof -
  obtain cm1 where cm1: "Deregister (asm_iface os t timed_out) a cm = Ok cm1"
      "cm_agents cm1 = AList.delete a (cm_agents cm)"
      "cm_heap cm1 = (case map_of (cm_agents cm) a of
         Some r \<Rightarrow> (cm_heap cm)[r := closed_conn (cm_heap cm ! r)] | None \<Rightarrow> cm_heap cm)"
      "served cm1 = (served cm)(a := None)"
    using asm.Deregister_ok [OF assms, of os t timed_out a] by (elim exE conjE) (rule that; assumption)
  have len: "length (cm_heap cm1) = length (cm_heap cm)"
    using cm1(3) by (simp split: option.splits)
  have heap: "cm_heap cm1 ! r = (if map_of (cm_agents cm) a = Some r then closed_conn (cm_heap cm ! r)
      else cm_heap cm ! r)" if "r < length (cm_heap cm)" for r
    using cm1(3) that by (auto simp: nth_list_update split: option.splits)
  have plain: "served (add_conn now st a p c) = served c" for p c
    by (simp add: cm_port_def add_conn_def fun_eq_iff)
  from assms cm1(1) show ?thesis
  proof (cases rule: asm.Register_cases [where now = now and st = st])
    case (failed e m)
    with cm1 heap show ?thesis by (simp add: go_map)
  next
    case plain
    with cm1 heap len \<open>\<And>p c. served (add_conn now st a p c) = served c\<close> show ?thesis
      by (simp add: go_map) (simp add: add_conn_def go_map nth_append)
  next
    case (served p m)
    with cm1 heap len \<open>\<And>p c. served (add_conn now st a p c) = served c\<close> show ?thesis
      by (simp add: go_map) (simp add: add_conn_def go_map nth_append)
  qed
qed

text \<open>
  C17 (functional): \<open>Register\<close> never panics and keeps the invariant.  An earlier connection of the
  same agent is cancelled and its channel closed, and no other agent is affected.  On success the
  agent has a fresh open connection with an empty queue, and its recorded port is the port its
  HTTP server runs on (0 without a server manager); on failure the agent has neither connection nor
  server.
\<close>

theorem Register_spec:
  assumes "conn_inv cm"
  shows "\<exists>res cm'. Register (asm_iface os t timed_out) now st a cm = Ok (res, cm') \<and> conn_inv cm' \<and>
    (\<forall>b. b \<noteq> a \<longrightarrow> map_of (cm_agents cm') b = map_of (cm_agents cm) b \<and> served cm' b = served cm b) \<and>
    (\<forall>r < length (cm_heap cm). cm_heap cm' ! r =
       (if map_of (cm_agents cm) a = Some r then closed_conn (cm_heap cm ! r) else cm_heap cm ! r)) \<and>
    (case res of
       Inl e \<Rightarrow> map_of (cm_agents cm') a = None \<and> served cm' a = None \<and> cm_asm cm \<noteq> None
     | Inr r \<Rightarrow> r = length (cm_heap cm) \<and> map_of (cm_agents cm') a = Some r \<and>
         (\<exists>p. cm_heap cm' ! r = \<lparr>ac_ID = a, ac_Port = p, ac_Stream = st, ac_SendCh = make_chan sendChannelBuffer,
                                  ac_LastSeen = now, ac_cancelled = False\<rparr> \<and>
              (if cm_asm cm = None then p = 0 else 0 < p \<and> served cm' a = Some p)))"
  using assms by (rule Register_effect)

theorem Register_spec_witness:
  "\<exists>cm'. Register (asm_iface (\<lambda>k p. True) 7 (\<lambda>a. False)) 7 1 ''a'' example_cm = Ok (Inr 1, cm') \<and> conn_inv cm' \<and>
     map_of (cm_agents cm') ''a'' = Some 1 \<and> ac_cancelled (cm_heap cm' ! 0)"
proof -
  have "\<exists>cm'. Register (asm_iface (\<lambda>k p. True) 7 (\<lambda>a. False)) 7 1 ''a'' example_cm = Ok (Inr 1, cm')"
    by (simp add: Register_def example_cm_def example_conn_def example_asm_def drop_conn_def close_conn_def
        stop_server_def delete_agent_def asm_iface_def StopAgentServer_def stop_detach_def stop_shutdown_def
        close_listener_def release_port_def Release_def chan_send_def chan_room_def chan_push_def
        StartAgentServer_def start_attempts.simps maxPortBindRetries_def Allocate_def chan_try_recv_def
        net_listen_def Let_def make_chan_def)
  with Register_spec [OF example_cm_inv, of "\<lambda>k p. True" 7 "\<lambda>a. False" 7 1 "''a''"] show ?thesis
    by (auto simp: example_cm_def)
qed

text \<open>
  \<open>Deregister\<close> never panics, keeps the invariant, removes exactly the agent's
  connection, closes it, and stops the agent's HTTP server; a second call changes nothing.
\<close>

theorem Deregister_spec:
  assumes "conn_inv cm"
  shows "\<exists>cm'. Deregister (asm_iface os t timed_out) a cm = Ok cm' \<and> conn_inv cm' \<and>
    cm_agents cm' = AList.delete a (cm_agents cm) \<and> served cm' = (served cm)(a := None) \<and>
    cm_heap cm' = (case map_of (cm_agents cm) a of
       Some r \<Rightarrow> (cm_heap cm)[r := closed_conn (cm_heap cm ! r)] | None \<Rightarrow> cm_heap cm) \<and>
    Deregister (asm_iface os t timed_out) a cm' = Ok cm'"
proof -
  obtain cm' where cm': "Deregister (asm_iface os t timed_out) a cm = Ok cm'" "conn_inv cm'"
      "cm_agents cm' = AList.delete a (cm_agents cm)"
      "cm_heap cm' = (case map_of (cm_agents cm) a of
         Some r \<Rightarrow> (cm_heap cm)[r := closed_conn (cm_heap cm ! r)] | None \<Rightarrow> cm_heap cm)"
      "served cm' = (served cm)(a := None)"
    using asm.Deregister_ok [OF assms, of os t timed_out a] by (elim exE conjE) (rule that; assumption)
  then have "Deregister (asm_iface os t timed_out) a cm' = Ok cm'"
    by (simp add: Deregister_def go_map)
  with cm' show ?thesis by (intro exI [of _ cm']) simp
qed

theorem Deregister_spec_witness:
  "\<exists>cm'. Deregister (asm_iface (\<lambda>k p. True) 7 (\<lambda>a. True)) ''a'' example_cm = Ok cm' \<and>
     cm_agents cm' = [] \<and> served cm' = Map.empty \<and> ac_cancelled (cm_heap cm' ! 0)"
proof -
  have "served example_cm = [''a'' \<mapsto> 8100]"
    by (auto simp: cm_port_def port_of_def example_cm_def example_asm_def)
  with Deregister_spec [OF example_cm_inv, of "\<lambda>k p. True" 7 "\<lambda>a. True" "''a''"] show ?thesis
    by (auto simp: example_cm_def)
qed

text \<open>
  Whatever the \<^verbatim>\<open>select\<close> of \<open>SendToAgent\<close> picks while nobody removes the agent, it
  does not panic; success appends the message to the back of the agent's queue and changes nothing
  else; every error leaves the table unchanged and is "agent not found" exactly for unknown agents,
  otherwise a timeout after the five seconds; waiting is possible only for a full queue.
\<close>

theorem SendToAgent_spec:
  fixes out :: "(asm_error cm_error option \<times> AgentServerManager ConnectionManager) outcome"
  assumes "conn_inv cm" "out \<in> set (SendToAgent expired a msg cm)"
  shows "case out of
      Panic \<Rightarrow> False
    | Block \<Rightarrow> \<not> expired \<and> (\<exists>r. map_of (cm_agents cm) a = Some r \<and> \<not> chan_room (ac_SendCh (cm_heap cm ! r)))
    | Ok (None, cm') \<Rightarrow> conn_inv cm' \<and> (\<exists>r. map_of (cm_agents cm) a = Some r \<and>
        cm' = cm\<lparr>cm_heap := (cm_heap cm)[r := (cm_heap cm ! r)\<lparr>ac_SendCh := chan_push msg (ac_SendCh (cm_heap cm ! r))\<rparr>]\<rparr>)
    | Ok (Some e, cm') \<Rightarrow> cm' = cm \<and>
        (if map_of (cm_agents cm) a = None then e = AgentNotFound a else e = TimeoutSending a \<and> expired)"
proof (cases "map_of (cm_agents cm) a")
  case None
  with assms(2) show ?thesis by (simp add: SendToAgent_def)
next
  case (Some r)
  let ?c = "cm_heap cm ! r"
  have wf: "cm_wf cm" using assms(1) by (simp add: cm_inv_def)
  note E = cm_wf_entry [OF wf Some]
  from assms(2) Some obtain o1 :: "(asm_error cm_error option \<times> AgentConnection) outcome" where
    o1: "o1 \<in> set (send_select expired a msg ?c)"
    and out: "out = obind o1 (\<lambda>(err, conn). Ok (err, cm\<lparr>cm_heap := (cm_heap cm)[r := conn]\<rparr>))"
    by (auto simp: SendToAgent_def send_to_conn_def)
  from E(3,4) o1 show ?thesis
  proof (cases rule: send_select_open)
    case sent
    then have "conn_ok (?c\<lparr>ac_SendCh := chan_push msg (ac_SendCh ?c)\<rparr>)"
      using E(3) by (simp add: conn_ok_def chan_ok_def chan_room_def)
    from cm_inv_conn_update [OF assms(1) E(1) this] sent out Some show ?thesis by simp
  qed (use out Some in simp_all)
qed

theorem SendToAgent_spec_witness:
  "conn_inv example_cm \<and>
   (let msg = \<lparr>msg_Id = ''1'', msg_Type = PONG, msg_Payload = '''', msg_Metadata = []\<rparr>;
        cm' = example_cm\<lparr>cm_heap := [example_conn\<lparr>ac_SendCh := chan_push msg (make_chan sendChannelBuffer)\<rparr>]\<rparr>
    in (Ok (None, cm') :: (asm_error cm_error option \<times> AgentServerManager ConnectionManager) outcome)
         \<in> set (SendToAgent False ''a'' msg example_cm) \<and> conn_inv cm')"
proof -
  let ?msg = "\<lparr>msg_Id = ''1'', msg_Type = PONG, msg_Payload = '''', msg_Metadata = []\<rparr>"
  let ?cm' = "example_cm\<lparr>cm_heap := [example_conn\<lparr>ac_SendCh := chan_push ?msg (make_chan sendChannelBuffer)\<rparr>]\<rparr>"
  have "(Ok (None, ?cm') :: (asm_error cm_error option \<times> AgentServerManager ConnectionManager) outcome)
      \<in> set (SendToAgent False ''a'' ?msg example_cm)"
    by (simp add: SendToAgent_def send_to_conn_def send_select_def example_cm_def example_conn_def
        chan_room_def sendChannelBuffer_def)
  with SendToAgent_spec [OF example_cm_inv this] example_cm_inv show ?thesis
    by (simp add: Let_def)
qed

text \<open>
  C19 (error): \<open>SendToAgent\<close> looks the connection up, gives the mutex back and then sends.  If the
  agent is deregistered in between, the send is on a closed channel: whatever the timer does, the
  \<^verbatim>\<open>select\<close> may panic (it may also report the closed connection), and it cannot deliver the message.
\<close>

theorem send_after_deregister_may_panic:
  fixes out :: "(asm_error cm_error option \<times> AgentServerManager ConnectionManager) outcome"
  assumes "conn_inv cm" "map_of (cm_agents cm) a = Some r"
    and "Deregister (asm_iface os t timed_out) a cm = Ok cm'"
  shows "(Panic :: (asm_error cm_error option \<times> AgentServerManager ConnectionManager) outcome)
      \<in> set (send_to_conn expired a msg r cm') \<and>
    (Ok (Some (ConnectionClosed a), cm') :: (asm_error cm_error option \<times> AgentServerManager ConnectionManager) outcome)
      \<in> set (send_to_conn expired a msg r cm') \<and>
    (out \<in> set (send_to_conn expired a msg r cm') \<longrightarrow> out \<noteq> Block \<and> (\<forall>cm''. out \<noteq> Ok (None, cm'')))"
proof -
  have "cm_heap cm' = (cm_heap cm)[r := closed_conn (cm_heap cm ! r)]"
    using asm.Deregister_ok [OF assms(1), of os t timed_out a] assms(2,3) by auto
  moreover have "r < length (cm_heap cm)"
    using assms(1,2) cm_wf_entry(1) by (auto simp: cm_inv_def)
  ultimately have "ac_cancelled (cm_heap cm' ! r)" "chan_closed (ac_SendCh (cm_heap cm' ! r))"
    by (simp_all add: closed_conn_def)
  then show ?thesis
    by (auto simp: send_to_conn_def send_select_def Let_def image_iff)
qed

theorem send_after_deregister_may_panic_witness:
  "\<exists>cm'. Deregister (asm_iface (\<lambda>k p. True) 7 (\<lambda>a. False)) ''a'' example_cm = Ok cm' \<and>
     (Panic :: (asm_error cm_error option \<times> AgentServerManager ConnectionManager) outcome) \<in>
       set (send_to_conn False ''a'' \<lparr>msg_Id = '''', msg_Type = PONG, msg_Payload = '''', msg_Metadata = []\<rparr> 0 cm')"
proof -
  obtain cm' where cm': "Deregister (asm_iface (\<lambda>k p. True) 7 (\<lambda>a. False)) ''a'' example_cm = Ok cm'"
    using asm.Deregister_ok [OF example_cm_inv] by blast
  have "map_of (cm_agents example_cm) ''a'' = Some 0" by (simp add: example_cm_def)
  from send_after_deregister_may_panic [OF example_cm_inv this cm'] cm' show ?thesis by blast
qed

text \<open>
  \<open>removeStaleConnections\<close> never panics and keeps the invariant.  It removes exactly
  the agents not seen for more than two minutes, with their HTTP servers, and leaves every other
  agent, its connection and its server as they are, in whatever order the map is visited.
\<close>

theorem removeStaleConnections_spec:
  assumes "conn_inv cm"
  shows "\<exists>cm'. removeStaleConnections (asm_iface os t timed_out) now cm = Ok cm' \<and> conn_inv cm' \<and>
    (\<forall>b. case map_of (cm_agents cm) b of
       None \<Rightarrow> map_of (cm_agents cm') b = None
     | Some r \<Rightarrow>
         if now - ac_LastSeen (cm_heap cm ! r) > 2 * minute
         then map_of (cm_agents cm') b = None \<and> served cm' b = None \<and> ac_cancelled (cm_heap cm' ! r)
         else map_of (cm_agents cm') b = Some r \<and> served cm' b = served cm b \<and>
              cm_heap cm' ! r = cm_heap cm ! r)"
proof -
  obtain cm' where cm': "removeStaleConnections (asm_iface os t timed_out) now cm = Ok cm'" "conn_inv cm'"
      "length (cm_heap cm') = length (cm_heap cm)"
      "\<forall>b. map_of (cm_agents cm') b = (if stale_conn now cm b then None else map_of (cm_agents cm) b)"
      "\<forall>b. served cm' b = (if stale_conn now cm b then None else served cm b)"
      "\<forall>b r. map_of (cm_agents cm') b = Some r \<longrightarrow> cm_heap cm' ! r = cm_heap cm ! r"
    using asm.removeStaleConnections_ok [OF assms, of os t timed_out now]
    by (elim exE conjE) (rule that; assumption)
  have wf: "cm_wf cm" and wf': "cm_wf cm'" using assms cm'(2) by (simp_all add: cm_inv_def)
  have some: "if now - ac_LastSeen (cm_heap cm ! r) > 2 * minute
      then map_of (cm_agents cm') b = None \<and> served cm' b = None \<and> ac_cancelled (cm_heap cm' ! r)
      else map_of (cm_agents cm') b = Some r \<and> served cm' b = served cm b \<and> cm_heap cm' ! r = cm_heap cm ! r"
    if r: "map_of (cm_agents cm) b = Some r" for b r
  proof -
    have stale: "stale_conn now cm b \<longleftrightarrow> now - ac_LastSeen (cm_heap cm ! r) > 2 * minute"
      using time_sub_greater [of "2 * minute"] r
      by (simp add: stale_conn_def staleConnectionTimeout_def go_simps)
    have "ac_cancelled (cm_heap cm' ! r)" if s: "stale_conn now cm b"
    proof -
      have "map_of (cm_agents cm') c \<noteq> Some r" for c
      proof
        assume c: "map_of (cm_agents cm') c = Some r"
        with cm'(4) have "map_of (cm_agents cm) c = Some r" by (auto split: if_splits)
        then have "c = b" using cm_wf_inj [OF wf r] by simp
        with c s cm'(4) show False by simp
      qed
      then show ?thesis
        using wf' cm_wf_entry(1) [OF wf r] cm'(3) by (simp add: cm_wf_def)
    qed
    with stale r cm'(4,5) cm'(6) [rule_format, of b r] show ?thesis by simp
  qed
  have none: "map_of (cm_agents cm') b = None" if "map_of (cm_agents cm) b = None" for b
    using cm'(4) that by simp
  show ?thesis
    by (intro exI [of _ cm'] conjI allI cm'(1,2)) (simp only: some none split: option.split, simp add: some none)
qed

theorem removeStaleConnections_spec_witness:
  "\<exists>cm'. removeStaleConnections (asm_iface (\<lambda>k p. True) 7 (\<lambda>a. False)) (3 * minute) example_cm = Ok cm' \<and>
     map_of (cm_agents cm') ''a'' = None \<and> served cm' ''a'' = None"
proof -
  obtain cm' where "removeStaleConnections (asm_iface (\<lambda>k p. True) 7 (\<lambda>a. False)) (3 * minute) example_cm = Ok cm'"
      and b: "\<forall>b. case map_of (cm_agents example_cm) b of
       None \<Rightarrow> map_of (cm_agents cm') b = None
     | Some r \<Rightarrow>
         if 3 * minute - ac_LastSeen (cm_heap example_cm ! r) > 2 * minute
         then map_of (cm_agents cm') b = None \<and> served cm' b = None \<and> ac_cancelled (cm_heap cm' ! r)
         else map_of (cm_agents cm') b = Some r \<and> served cm' b = served example_cm b \<and>
              cm_heap cm' ! r = cm_heap example_cm ! r"
    using removeStaleConnections_spec [OF example_cm_inv] by blast
  moreover from b [rule_format, of "''a''"] have "map_of (cm_agents cm') ''a'' = None \<and> served cm' ''a'' = None"
    by (simp add: example_cm_def example_conn_def go_simps)
  ultimately show ?thesis by blast
qed

text \<open>
  The first \<open>Stop\<close> of the connection manager never panics; afterwards no agent is
  registered, every connection ever created is cancelled with its channel closed, and no agent has
  an HTTP server.  A second \<open>Stop\<close> panics, because it closes the stop channel again.
\<close>

theorem Stop_cm_spec:
  assumes "conn_inv cm" "\<not> cm_stopped cm"
  shows "\<exists>cm'. Stop_cm (asm_iface os t timed_out) cm = Ok cm' \<and> conn_inv cm' \<and> cm_agents cm' = [] \<and>
    served cm' = Map.empty \<and> length (cm_heap cm') = length (cm_heap cm) \<and>
    (\<forall>r < length (cm_heap cm'). ac_cancelled (cm_heap cm' ! r) \<and> chan_closed (ac_SendCh (cm_heap cm' ! r))) \<and>
    Stop_cm (asm_iface os t timed_out) cm' = Panic"
proof -
  obtain cm' where cm': "Stop_cm (asm_iface os t timed_out) cm = Ok cm'" "conn_inv cm'" "cm_agents cm' = []"
      "cm_stopped cm'" "served cm' = Map.empty" "length (cm_heap cm') = length (cm_heap cm)"
    using asm.Stop_ok [OF assms, of os t timed_out] by (elim exE conjE) (rule that; assumption)
  have "ac_cancelled (cm_heap cm' ! r) \<and> chan_closed (ac_SendCh (cm_heap cm' ! r))"
    if "r < length (cm_heap cm')" for r
    using cm'(2,3) that by (auto simp: cm_inv_def cm_wf_def conn_ok_def)
  moreover have "Stop_cm (asm_iface os t timed_out) cm' = Panic"
    using cm'(4) by (simp add: Stop_cm_def)
  ultimately show ?thesis using cm' by (intro exI [of _ cm']) simp
qed

theorem Stop_cm_spec_witness:
  "\<exists>cm'. Stop_cm (asm_iface (\<lambda>k p. True) 7 (\<lambda>a. False)) example_cm = Ok cm' \<and> served cm' = Map.empty \<and>
     length (cm_heap cm') = 1 \<and> chan_closed (ac_SendCh (cm_heap cm' ! 0))"
proof -
  have "\<not> cm_stopped example_cm" "length (cm_heap example_cm) = 1" by (simp_all add: example_cm_def)
  with Stop_cm_spec [OF example_cm_inv this(1), of "\<lambda>k p. True" 7 "\<lambda>a. False"] show ?thesis by auto
qed

end
