(* ===== verification/Grpc_TLS.thy ===== *)
theory Grpc_TLS
  imports Silo_Prelude
begin

text \<open>
  \<^verbatim>\<open>internal/grpc/tls/credentials.go\<close>: TLS settings of the gRPC server and client.  Reading key pairs
  and files and parsing PEM belong to the standard library and the file system; they are the fields
  of the record \<open>tls_env\<close>, and \<^verbatim>\<open>credentials.NewTLS\<close> keeps the configuration it is given.
\<close>

datatype ClientAuthType =
  NoClientCert | RequestClientCert | RequireAnyClientCert | VerifyClientCertIfGiven | RequireAndVerifyClientCert

record ('cert, 'pool, 'data) tls_env =
  LoadX509KeyPair :: "string \<Rightarrow> string \<Rightarrow> 'cert option"
  ReadFile :: "string \<Rightarrow> 'data option"
  AppendCertsFromPEM :: "'data \<Rightarrow> 'pool option"

record ('cert, 'pool) tls_config =
  tls_Certificates :: "'cert list"
  tls_ClientAuth :: ClientAuthType
  tls_ClientCAs :: "'pool option"
  tls_RootCAs :: "'pool option"
  tls_ServerName :: string

datatype tls_error =
    FailedToLoadCertificate
  | FailedToReadCA
  | FailedToAppendCA
  | InvalidClientAuthType string

definition ParseClientAuthType :: "string \<Rightarrow> tls_error + ClientAuthType" where
  "ParseClientAuthType authType =
     (if authType = ''none'' then Inr NoClientCert
      else if authType = ''request'' then Inr RequestClientCert
      else if authType = ''require'' then Inr RequireAndVerifyClientCert
      else Inl (InvalidClientAuthType authType))"

definition LoadServerCredentials :: "('cert, 'pool, 'data) tls_env \<Rightarrow> string \<Rightarrow> string \<Rightarrow> string \<Rightarrow> ClientAuthType \<Rightarrow>
    tls_error + ('cert, 'pool) tls_config" where
  "LoadServerCredentials env certFile keyFile caFile clientAuth =
     (case LoadX509KeyPair env certFile keyFile of
        None \<Rightarrow> Inl FailedToLoadCertificate
      | Some cert \<Rightarrow>
          let config = \<lparr>tls_Certificates = [cert], tls_ClientAuth = clientAuth, tls_ClientCAs = None,
                        tls_RootCAs = None, tls_ServerName = ''''\<rparr> in
          if clientAuth \<noteq> NoClientCert then
            (case ReadFile env caFile of
               None \<Rightarrow> Inl FailedToReadCA
             | Some ca \<Rightarrow>
                 (case AppendCertsFromPEM env ca of
                    None \<Rightarrow> Inl FailedToAppendCA
                  | Some pool \<Rightarrow> Inr (config\<lparr>tls_ClientCAs := Some pool\<rparr>)))
          else Inr config)"

definition LoadClientCredentials :: "('cert, 'pool, 'data) tls_env \<Rightarrow> string \<Rightarrow> string \<Rightarrow> string \<Rightarrow> string \<Rightarrow>
    tls_error + ('cert, 'pool) tls_config" where
  "LoadClientCredentials env certFile keyFile caFile serverNameOverride =
     (case LoadX509KeyPair env certFile keyFile of
        None \<Rightarrow> Inl FailedToLoadCertificate
      | Some cert \<Rightarrow>
          (case ReadFile env caFile of
             None \<Rightarrow> Inl FailedToReadCA
           | Some ca \<Rightarrow>
               (case AppendCertsFromPEM env ca of
                  None \<Rightarrow> Inl FailedToAppendCA
                | Some pool \<Rightarrow>
                    let config = \<lparr>tls_Certificates = [cert], tls_ClientAuth = NoClientCert,
                                  tls_ClientCAs = None, tls_RootCAs = Some pool, tls_ServerName = ''''\<rparr> in
                    Inr (if serverNameOverride \<noteq> '''' then config\<lparr>tls_ServerName := serverNameOverride\<rparr>
                         else config))))"

lemma LoadServerCredentials_ok:
  assumes "LoadServerCredentials env certFile keyFile caFile auth = Inr c"
  shows "(\<exists>cert. LoadX509KeyPair env certFile keyFile = Some cert \<and> tls_Certificates c = [cert]) \<and>
    tls_ClientAuth c = auth \<and> (auth \<noteq> NoClientCert \<longrightarrow>
    (\<exists>ca. ReadFile env caFile = Some ca \<and> tls_ClientCAs c = AppendCertsFromPEM env ca \<and> tls_ClientCAs c \<noteq> None))"
  using assms unfolding LoadServerCredentials_def Let_def
  by (auto split: option.splits if_splits)

lemma LoadClientCredentials_ok:
  assumes "LoadClientCredentials env certFile keyFile caFile name = Inr c"
  shows "\<exists>cert ca. LoadX509KeyPair env certFile keyFile = Some cert \<and> tls_Certificates c = [cert] \<and>
    ReadFile env caFile = Some ca \<and> tls_RootCAs c = AppendCertsFromPEM env ca \<and> tls_RootCAs c \<noteq> None"
  using assms unfolding LoadClientCredentials_def Let_def
  by (auto split: option.splits if_splits)

end
