(* ===== verification/Grpc_Server.thy ===== *)
theory Grpc_Server
  imports Connection_Manager Grpc_TLS
begin

text \<open>
  \<^verbatim>\<open>internal/grpc/server/server.go\<close>: the gRPC server and the correlation of requests with responses.
  A request waits on a channel of its own, which \<^verbatim>\<open>pendingRequests\<close> finds by message identifier.
  Channels are shared by pointer, so the server has a heap of response channels.  The requester and
  the stream handlers that deliver responses run concurrently: \<open>SendRequestToAgent\<close> and
  \<open>HandleResponse\<close> are composed of atomic parts, which \<open>req_step\<close> interleaves.
\<close>

section \<open>State and operations\<close>

record TLSConfig =
  tc_Enabled :: bool
  tc_CertFile :: string
  tc_KeyFile :: string
  tc_CAFile :: string
  tc_ClientAuth :: string

text \<open>\<open>srv_grpcServer\<close> and \<open>srv_listener\<close> say whether these pointers are not nil.\<close>

record 'm Server =
  srv_grpcServer :: bool
  srv_listener :: bool
  srv_connManager :: "'m ConnectionManager"
  srv_port :: int
  srv_tlsConfig :: "TLSConfig option"
  srv_pendingRequests :: "(string, nat) gomap"
  srv_chans :: "ProxyMessage chan list"

definition NewServer :: "int \<Rightarrow> TLSConfig option \<Rightarrow> 'm Server" where
  "NewServer port tlsConfig =
     \<lparr>srv_grpcServer = False, srv_listener = False, srv_connManager = NewConnectionManager None, srv_port = port, srv_tlsConfig = tlsConfig,
      srv_pendingRequests = [], srv_chans = []\<rparr>"

text \<open>
  \<^verbatim>\<open>Start\<close> up to the call of \<^verbatim>\<open>Serve\<close>: an error, or the transport security the server accepts
  connections with (\<open>None\<close>: plain text).
\<close>

datatype start_error = FailedToListen int | InvalidClientAuth tls_error | FailedToLoadCredentials tls_error

definition Start :: "('cert, 'pool, 'data) tls_env \<Rightarrow> (int \<Rightarrow> bool) \<Rightarrow> 'm Server \<Rightarrow>
    (start_error + ('cert, 'pool) tls_config option) \<times> 'm Server" where
  "Start env listen s =
     (if \<not> listen (srv_port s) then (Inl (FailedToListen (srv_port s)), s)
      else
        let s1 = s\<lparr>srv_listener := True\<rparr>; s2 = s1\<lparr>srv_grpcServer := True\<rparr> in
        case srv_tlsConfig s of
          Some tc \<Rightarrow>
            if tc_Enabled tc then
              (case ParseClientAuthType (tc_ClientAuth tc) of
                 Inl e \<Rightarrow> (Inl (InvalidClientAuth e), s1)
               | Inr clientAuth \<Rightarrow>
                   (case LoadServerCredentials env (tc_CertFile tc) (tc_KeyFile tc) (tc_CAFile tc) clientAuth of
                      Inl e \<Rightarrow> (Inl (FailedToLoadCredentials e), s1)
                    | Inr creds \<Rightarrow> (Inr (Some creds), s2)))
            else (Inr None, s2)
        | None \<Rightarrow> (Inr None, s2))"

text \<open>
  \<^verbatim>\<open>Stop\<close> stops the gRPC server, gracefully or, once the context is done, by force; both belong to
  gRPC.  Then it stops the connection manager.  The gRPC
  server exists only once \<^verbatim>\<open>Start\<close> has created it: \<^verbatim>\<open>GracefulStop\<close> dereferences its receiver.
\<close>

definition Stop_srv :: "('m, 'e) AgentServerIface \<Rightarrow> 'm Server \<Rightarrow> 'm Server outcome" where
  "Stop_srv I s =
     (if \<not> srv_grpcServer s then Panic
      else obind (Stop_cm I (srv_connManager s)) (\<lambda>cm. Ok (s\<lparr>srv_connManager := cm\<rparr>)))"

text \<open>The timeout only decides between the graceful and the forced stop.\<close>

definition StopWithTimeout :: "('m, 'e) AgentServerIface \<Rightarrow> duration \<Rightarrow> 'm Server \<Rightarrow> 'm Server outcome" where
  "StopWithTimeout I timeout s = Stop_srv I s"

definition SetAgentServerManager_srv :: "'m \<Rightarrow> 'm Server \<Rightarrow> 'm Server" where
  "SetAgentServerManager_srv asm s = s\<lparr>srv_connManager := SetAgentServerManager asm (srv_connManager s)\<rparr>"

text \<open>The parts of \<^verbatim>\<open>SendRequestToAgent\<close>.\<close>

definition begin_request :: "string \<Rightarrow> 'm Server \<Rightarrow> nat \<times> 'm Server" where
  "begin_request mid s =
     (length (srv_chans s),
      s\<lparr>srv_chans := srv_chans s @ [make_chan 1],
        srv_pendingRequests := AList.update mid (length (srv_chans s)) (srv_pendingRequests s)\<rparr>)"

definition end_request :: "string \<Rightarrow> 'm Server \<Rightarrow> 'm Server" where
  "end_request mid s = s\<lparr>srv_pendingRequests := AList.delete mid (srv_pendingRequests s)\<rparr>"

datatype 'e request_error =
    FailedToSendRequest "'e cm_error"
  | RequestTimeout
  | ContextDone

text \<open>
  The final \<^verbatim>\<open>select\<close>: a response in the channel, the timer, the caller's context.  Nothing closes a
  response channel, so an empty one is simply not ready.
\<close>

definition await_response :: "bool \<Rightarrow> bool \<Rightarrow> nat \<Rightarrow> 'm Server \<Rightarrow>
    (('e request_error + ProxyMessage) \<times> 'm Server) outcome list" where
  "await_response expired ctx_done ref s =
     (let respCh = srv_chans s ! ref;
          ready =
            (case chan_buf respCh of
               response # rest \<Rightarrow>
                 [Ok (Inr response, s\<lparr>srv_chans := (srv_chans s)[ref := respCh\<lparr>chan_buf := rest\<rparr>]\<rparr>)]
             | [] \<Rightarrow> []) @
            (if expired then [Ok (Inl RequestTimeout, s)] else []) @
            (if ctx_done then [Ok (Inl ContextDone, s)] else [])
      in if ready = [] then [Block] else ready)"

text \<open>
  \<^verbatim>\<open>SendRequestToAgent\<close>; \<open>others\<close> stands for what the other goroutines do to the server between the
  send and the moment the final \<^verbatim>\<open>select\<close> is decided.
\<close>

definition SendRequestToAgent :: "bool \<Rightarrow> bool \<Rightarrow> bool \<Rightarrow> ('m Server \<Rightarrow> 'm Server) \<Rightarrow> string \<Rightarrow> ProxyMessage \<Rightarrow>
    'm Server \<Rightarrow> (('e request_error + ProxyMessage) \<times> 'm Server) outcome list" where
  "SendRequestToAgent send_expired expired ctx_done others agentID msg s =
     (let (ref, s1) = begin_request (msg_Id msg) s in
      lbind (SendToAgent send_expired agentID msg (srv_connManager s1)) (\<lambda>(err, cm).
        let s2 = s1\<lparr>srv_connManager := cm\<rparr> in
        case err of
          Some e \<Rightarrow> [Ok (Inl (FailedToSendRequest e), end_request (msg_Id msg) s2)]
        | None \<Rightarrow>
            lbind (await_response expired ctx_done ref (others s2)) (\<lambda>(res, s3).
              [Ok (res, end_request (msg_Id msg) s3)])))"

text \<open>\<^verbatim>\<open>HandleResponse\<close>: the lookup under the mutex, then a send that gives up when the channel is full.\<close>

definition deliver_response :: "nat \<Rightarrow> ProxyMessage \<Rightarrow> 'm Server \<Rightarrow> 'm Server outcome" where
  "deliver_response ref msg s =
     obind (chan_try_send msg (srv_chans s ! ref)) (\<lambda>res.
       case res of
         Some ch \<Rightarrow> Ok (s\<lparr>srv_chans := (srv_chans s)[ref := ch]\<rparr>)
       | None \<Rightarrow> Ok s)"

definition HandleResponse :: "ProxyMessage \<Rightarrow> 'm Server \<Rightarrow> 'm Server outcome" where
  "HandleResponse msg s =
     (case map_of (srv_pendingRequests s) (msg_Id msg) of
        None \<Rightarrow> Ok s
      | Some ref \<Rightarrow> deliver_response ref msg s)"

section \<open>Requests and responses in flight\<close>

text \<open>
  The running server: requests that wait (by channel, with their identifier), responses that a
  stream handler has looked up but not delivered yet, and two records of the past that the code does
  not keep: the identifier each channel was made for, and the responses handed to requesters.
  Identifiers come from \<^verbatim>\<open>uuid.New\<close>: no request starts with the identifier of one in flight.
\<close>

record 'm req_sys =
  rq_srv :: "'m Server"
  rq_waiting :: "(nat, string) gomap"
  rq_delivering :: "(ProxyMessage \<times> nat) list"
  rq_made_for :: "string list"
  rq_returned :: "(string \<times> ProxyMessage) list"

inductive req_step :: "'m req_sys \<Rightarrow> 'm req_sys \<Rightarrow> bool" where
  begin_req: "mid \<notin> snd ` set (rq_waiting q) \<Longrightarrow> begin_request mid (rq_srv q) = (ref, s) \<Longrightarrow>
    req_step q (q\<lparr>rq_srv := s, rq_waiting := AList.update ref mid (rq_waiting q),
                  rq_made_for := rq_made_for q @ [mid]\<rparr>)"
| look_up: "map_of (srv_pendingRequests (rq_srv q)) (msg_Id m) = Some ref \<Longrightarrow>
    req_step q (q\<lparr>rq_delivering := (m, ref) # rq_delivering q\<rparr>)"
| deliver: "(m, ref) \<in> set (rq_delivering q) \<Longrightarrow> deliver_response ref m (rq_srv q) = Ok s \<Longrightarrow>
    req_step q (q\<lparr>rq_srv := s, rq_delivering := remove1 (m, ref) (rq_delivering q)\<rparr>)"
| receive: "map_of (rq_waiting q) ref = Some mid \<Longrightarrow>
    (Ok (Inr m, s) :: ((unit request_error + ProxyMessage) \<times> 'm Server) outcome)
      \<in> set (await_response expired ctx_done ref (rq_srv q)) \<Longrightarrow>
    req_step q (q\<lparr>rq_srv := end_request mid s, rq_waiting := AList.delete ref (rq_waiting q),
                  rq_returned := (mid, m) # rq_returned q\<rparr>)"
| give_up: "map_of (rq_waiting q) ref = Some mid \<Longrightarrow>
    req_step q (q\<lparr>rq_srv := end_request mid (rq_srv q), rq_waiting := AList.delete ref (rq_waiting q)\<rparr>)"
| table: "req_step q (q\<lparr>rq_srv := (rq_srv q)\<lparr>srv_connManager := cm\<rparr>\<rparr>)"

inductive req_reach :: "'m req_sys \<Rightarrow> bool" where
  init: "req_reach \<lparr>rq_srv = NewServer port tc, rq_waiting = [], rq_delivering = [], rq_made_for = [],
                    rq_returned = []\<rparr>"
| step: "req_reach q \<Longrightarrow> req_step q q' \<Longrightarrow> req_reach q'"

section \<open>Invariant\<close>

definition req_inv :: "'m req_sys \<Rightarrow> bool" where
  "req_inv q \<longleftrightarrow>
     length (rq_made_for q) = length (srv_chans (rq_srv q)) \<and>
     (\<forall>r < length (srv_chans (rq_srv q)).
        let c = srv_chans (rq_srv q) ! r in chan_cap c = 1 \<and> \<not> chan_closed c \<and> chan_ok c \<and>
        (\<forall>m\<in>set (chan_buf c). msg_Id m = rq_made_for q ! r)) \<and>
     (\<forall>mid r. map_of (srv_pendingRequests (rq_srv q)) mid = Some r \<longleftrightarrow> map_of (rq_waiting q) r = Some mid) \<and>
     (\<forall>r mid. map_of (rq_waiting q) r = Some mid \<longrightarrow>
        r < length (srv_chans (rq_srv q)) \<and> rq_made_for q ! r = mid) \<and>
     (\<forall>(m, r)\<in>set (rq_delivering q). r < length (srv_chans (rq_srv q)) \<and> rq_made_for q ! r = msg_Id m) \<and>
     (\<forall>(mid, m)\<in>set (rq_returned q). msg_Id m = mid)"

lemma req_invI:
  assumes "length (rq_made_for q) = length (srv_chans (rq_srv q))"
    "\<And>r. r < length (srv_chans (rq_srv q)) \<Longrightarrow> chan_cap (srv_chans (rq_srv q) ! r) = 1 \<and>
       \<not> chan_closed (srv_chans (rq_srv q) ! r) \<and> chan_ok (srv_chans (rq_srv q) ! r) \<and>
       (\<forall>m\<in>set (chan_buf (srv_chans (rq_srv q) ! r)). msg_Id m = rq_made_for q ! r)"
    "\<And>mid r. map_of (srv_pendingRequests (rq_srv q)) mid = Some r \<longleftrightarrow> map_of (rq_waiting q) r = Some mid"
    "\<And>r mid. map_of (rq_waiting q) r = Some mid \<Longrightarrow>
       r < length (srv_chans (rq_srv q)) \<and> rq_made_for q ! r = mid"
    "\<And>m r. (m, r) \<in> set (rq_delivering q) \<Longrightarrow> r < length (srv_chans (rq_srv q)) \<and> rq_made_for q ! r = msg_Id m"
    "\<And>mid m. (mid, m) \<in> set (rq_returned q) \<Longrightarrow> msg_Id m = mid"
  shows "req_inv q"
  using assms unfolding req_inv_def Let_def by auto

lemma req_invD:
  assumes "req_inv q"
  shows "length (rq_made_for q) = length (srv_chans (rq_srv q))"
    "r < length (srv_chans (rq_srv q)) \<Longrightarrow> chan_cap (srv_chans (rq_srv q) ! r) = 1 \<and>
       \<not> chan_closed (srv_chans (rq_srv q) ! r) \<and> chan_ok (srv_chans (rq_srv q) ! r) \<and>
       (\<forall>m\<in>set (chan_buf (srv_chans (rq_srv q) ! r)). msg_Id m = rq_made_for q ! r)"
    "map_of (srv_pendingRequests (rq_srv q)) mid = Some r \<longleftrightarrow> map_of (rq_waiting q) r = Some mid"
    "map_of (rq_waiting q) r = Some mid \<Longrightarrow> r < length (srv_chans (rq_srv q)) \<and> rq_made_for q ! r = mid"
    "(m, r) \<in> set (rq_delivering q) \<Longrightarrow> r < length (srv_chans (rq_srv q)) \<and> rq_made_for q ! r = msg_Id m"
    "(mid, m) \<in> set (rq_returned q) \<Longrightarrow> msg_Id m = mid"
  using assms unfolding req_inv_def Let_def by auto

lemma await_received:
  assumes "Ok (Inr m, s') \<in> set (await_response expired ctx_done ref s)"
  obtains rest where "chan_buf (srv_chans s ! ref) = m # rest"
    "s' = s\<lparr>srv_chans := (srv_chans s)[ref := (srv_chans s ! ref)\<lparr>chan_buf := rest\<rparr>]\<rparr>"
  using assms unfolding await_response_def Let_def by (auto split: list.splits if_splits)

lemma deliver_response_open:
  assumes "\<not> chan_closed (srv_chans s ! ref)"
  shows "deliver_response ref m s = Ok (if chan_room (srv_chans s ! ref)
    then s\<lparr>srv_chans := (srv_chans s)[ref := chan_push m (srv_chans s ! ref)]\<rparr> else s)"
  using assms by (simp add: deliver_response_def chan_try_send_def)

text \<open>A request that ends, with a response or without, gives its channel and its entry back.\<close>

lemma req_inv_end:
  assumes inv: "req_inv q" and w: "map_of (rq_waiting q) ref = Some mid"
    and ret: "\<And>k m. (k, m) \<in> set rs \<Longrightarrow> msg_Id m = k"
  shows "req_inv (q\<lparr>rq_srv := end_request mid (rq_srv q), rq_waiting := AList.delete ref (rq_waiting q),
    rq_returned := rs\<rparr>)"
proof -
  note D = req_invD [OF inv]
  have p: "map_of (srv_pendingRequests (rq_srv q)) mid = Some ref" using D(3) w by simp
  have iff: "k \<noteq> mid \<and> map_of (srv_pendingRequests (rq_srv q)) k = Some r \<longleftrightarrow>
      r \<noteq> ref \<and> map_of (rq_waiting q) r = Some k" for k r
    using D(3) [of k r] p w by auto
  show ?thesis
  proof (rule req_invI)
    fix k r
    show "map_of (srv_pendingRequests (rq_srv (q\<lparr>rq_srv := end_request mid (rq_srv q),
          rq_waiting := AList.delete ref (rq_waiting q), rq_returned := rs\<rparr>))) k = Some r \<longleftrightarrow>
        map_of (rq_waiting (q\<lparr>rq_srv := end_request mid (rq_srv q),
          rq_waiting := AList.delete ref (rq_waiting q), rq_returned := rs\<rparr>)) r = Some k"
      using iff [of k r] by (auto simp: end_request_def go_map)
  next
    fix r k assume "map_of (rq_waiting (q\<lparr>rq_srv := end_request mid (rq_srv q),
          rq_waiting := AList.delete ref (rq_waiting q), rq_returned := rs\<rparr>)) r = Some k"
    then show "r < length (srv_chans (rq_srv (q\<lparr>rq_srv := end_request mid (rq_srv q),
          rq_waiting := AList.delete ref (rq_waiting q), rq_returned := rs\<rparr>))) \<and>
        rq_made_for (q\<lparr>rq_srv := end_request mid (rq_srv q),
          rq_waiting := AList.delete ref (rq_waiting q), rq_returned := rs\<rparr>) ! r = k"
      using D(4) [of r k] by (auto simp: end_request_def go_map split: if_splits)
  qed (use D(1,2,5) ret in \<open>auto simp: end_request_def\<close>)
qed

text \<open>Changing the contents of one channel, within its capacity and to messages of its identifier.\<close>

lemma req_inv_chan:
  assumes inv: "req_inv q" and r: "r < length (srv_chans (rq_srv q))"
    and c: "chan_cap c = 1" "\<not> chan_closed c" "chan_ok c" "\<forall>m\<in>set (chan_buf c). msg_Id m = rq_made_for q ! r"
  shows "req_inv (q\<lparr>rq_srv := (rq_srv q)\<lparr>srv_chans := (srv_chans (rq_srv q))[r := c]\<rparr>\<rparr>)"
  using req_invD [OF inv] c r by (intro req_invI) (auto simp: nth_list_update)

lemma req_inv_begin:
  assumes inv: "req_inv q" and new: "mid \<notin> snd ` set (rq_waiting q)"
    and b: "begin_request mid (rq_srv q) = (ref, s)"
  shows "req_inv (q\<lparr>rq_srv := s, rq_waiting := AList.update ref mid (rq_waiting q),
    rq_made_for := rq_made_for q @ [mid]\<rparr>)"
proof -
  note D = req_invD [OF inv]
  have ref: "ref = length (srv_chans (rq_srv q))"
    and s: "srv_chans s = srv_chans (rq_srv q) @ [make_chan 1]"
      "srv_pendingRequests s = AList.update mid ref (srv_pendingRequests (rq_srv q))"
    using b by (auto simp: begin_request_def)
  have w: "map_of (rq_waiting q) r \<noteq> Some mid" for r
    using new by (metis map_of_SomeD snd_conv image_eqI)
  have r: "map_of (rq_waiting q) ref = None"
    using D(4) [of ref] ref by (cases "map_of (rq_waiting q) ref") auto
  show ?thesis
  proof (rule req_invI)
    fix k r'
    have "map_of (srv_pendingRequests (rq_srv q)) k \<noteq> Some ref" using D(3) [of k ref] r by simp
    moreover have "map_of (rq_waiting q) r' \<noteq> Some mid" using w .
    ultimately show "map_of (srv_pendingRequests (rq_srv (q\<lparr>rq_srv := s,
          rq_waiting := AList.update ref mid (rq_waiting q), rq_made_for := rq_made_for q @ [mid]\<rparr>))) k = Some r' \<longleftrightarrow>
        map_of (rq_waiting (q\<lparr>rq_srv := s, rq_waiting := AList.update ref mid (rq_waiting q),
          rq_made_for := rq_made_for q @ [mid]\<rparr>)) r' = Some k"
      using D(3) [of k r'] by (auto simp: s go_map)
  next
    fix r' k assume "map_of (rq_waiting (q\<lparr>rq_srv := s,
          rq_waiting := AList.update ref mid (rq_waiting q), rq_made_for := rq_made_for q @ [mid]\<rparr>)) r' = Some k"
    then show "r' < length (srv_chans (rq_srv (q\<lparr>rq_srv := s,
          rq_waiting := AList.update ref mid (rq_waiting q), rq_made_for := rq_made_for q @ [mid]\<rparr>))) \<and>
        rq_made_for (q\<lparr>rq_srv := s, rq_waiting := AList.update ref mid (rq_waiting q),
          rq_made_for := rq_made_for q @ [mid]\<rparr>) ! r' = k"
      using D(1) D(4) [of r' k] by (auto simp: s ref go_map nth_append split: if_splits)
  next
    fix m r' assume "(m, r') \<in> set (rq_delivering (q\<lparr>rq_srv := s,
          rq_waiting := AList.update ref mid (rq_waiting q), rq_made_for := rq_made_for q @ [mid]\<rparr>))"
    then show "r' < length (srv_chans (rq_srv (q\<lparr>rq_srv := s,
          rq_waiting := AList.update ref mid (rq_waiting q), rq_made_for := rq_made_for q @ [mid]\<rparr>))) \<and>
        rq_made_for (q\<lparr>rq_srv := s, rq_waiting := AList.update ref mid (rq_waiting q),
          rq_made_for := rq_made_for q @ [mid]\<rparr>) ! r' = msg_Id m"
      using D(1) D(5) [of m r'] by (simp add: s nth_append)
  qed (use D(1,2,6) in \<open>auto simp: s nth_append less_Suc_eq\<close>)
qed

lemma req_step_inv:
  assumes step: "req_step q q'" and inv: "req_inv q"
  shows "req_inv q'"
proof -
  note D = req_invD [OF inv]
  from step show ?thesis
  proof cases
    case (begin_req mid ref s)
    with req_inv_begin [OF inv] show ?thesis by simp
  next
    case (look_up m ref)
    then have "ref < length (srv_chans (rq_srv q)) \<and> rq_made_for q ! ref = msg_Id m"
      using D(3,4) by blast
    with look_up D show ?thesis by (intro req_invI) auto
  next
    case (deliver m ref s)
    then have ref: "ref < length (srv_chans (rq_srv q))" "rq_made_for q ! ref = msg_Id m"
      using D(5) by blast+
    let ?c = "srv_chans (rq_srv q) ! ref"
    have c: "chan_cap ?c = 1" "\<not> chan_closed ?c" "chan_ok ?c" "\<forall>m\<in>set (chan_buf ?c). msg_Id m = rq_made_for q ! ref"
      using D(2) [OF ref(1)] by simp_all
    then have s: "s = (if chan_room ?c
        then (rq_srv q)\<lparr>srv_chans := (srv_chans (rq_srv q))[ref := chan_push m ?c]\<rparr> else rq_srv q)"
      using deliver(3) by (simp add: deliver_response_open)
    have "req_inv (q\<lparr>rq_srv := s\<rparr>)"
    proof (cases "chan_room ?c")
      case True
      then have "chan_ok (chan_push m ?c)" using c by (simp add: chan_ok_def chan_room_def)
      with True c ref show ?thesis unfolding s by (simp add: req_inv_chan [OF inv])
    next
      case False
      with inv show ?thesis by (simp add: s)
    qed
    then have "req_inv (q\<lparr>rq_srv := s, rq_delivering := remove1 (m, ref) (rq_delivering q)\<rparr>)"
      unfolding req_inv_def by (auto dest: notin_set_remove1 in_set_remove1 [THEN iffD1] set_remove1_subset [THEN subsetD])
    with deliver show ?thesis by simp
  next
    case (receive ref mid m s expired ctx_done)
    from receive(3) obtain rest where buf: "chan_buf (srv_chans (rq_srv q) ! ref) = m # rest"
        and s: "s = (rq_srv q)\<lparr>srv_chans := (srv_chans (rq_srv q))[ref := (srv_chans (rq_srv q) ! ref)\<lparr>chan_buf := rest\<rparr>]\<rparr>"
      by (rule await_received)
    have ref: "ref < length (srv_chans (rq_srv q))" "rq_made_for q ! ref = mid"
      using D(4) [OF receive(2)] by simp_all
    have "req_inv (q\<lparr>rq_srv := s\<rparr>)"
      unfolding s using D(2) [OF ref(1)] buf
      by (intro req_inv_chan [OF inv ref(1)]) (auto simp: chan_ok_def)
    moreover have "msg_Id m = mid" using D(2) [OF ref(1)] buf ref(2) by simp
    ultimately have "req_inv ((q\<lparr>rq_srv := s\<rparr>)\<lparr>rq_srv := end_request mid (rq_srv (q\<lparr>rq_srv := s\<rparr>)),
        rq_waiting := AList.delete ref (rq_waiting (q\<lparr>rq_srv := s\<rparr>)), rq_returned := (mid, m) # rq_returned q\<rparr>)"
      using receive(2) D(6) by (intro req_inv_end) auto
    with receive(1) show ?thesis by simp
  next
    case (give_up ref mid)
    with req_inv_end [OF inv, of ref mid "rq_returned q"] D(6) show ?thesis by simp
  next
    case (table cm)
    with inv show ?thesis by (simp add: req_inv_def)
  qed
qed

lemma req_reach_inv: "req_reach q \<Longrightarrow> req_inv q"
proof (induction rule: req_reach.induct)
  case (init port tc)
  then show ?case by (simp add: req_inv_def NewServer_def)
qed (rule req_step_inv)

section \<open>Properties\<close>

text \<open>
  C3 (invariant): in every interleaving of requests, deliveries and timeouts, a response handed to a
  requester carries the identifier of its request, and the pending table lists exactly the requests
  that are waiting, each with its own channel: nothing is delivered to the wrong request, and no entry
  stays behind.
\<close>

theorem responses_match_requests:
  assumes "req_reach q"
  shows "(\<forall>mid m. (mid, m) \<in> set (rq_returned q) \<longrightarrow> msg_Id m = mid) \<and>
    (\<forall>mid r. map_of (srv_pendingRequests (rq_srv q)) mid = Some r \<longleftrightarrow> map_of (rq_waiting q) r = Some mid) \<and>
    (\<forall>r < length (srv_chans (rq_srv q)). length (chan_buf (srv_chans (rq_srv q) ! r)) \<le> 1)"
  using req_invD [OF req_reach_inv [OF assms]] unfolding chan_ok_def by metis

theorem responses_match_requests_witness:
  "\<exists>q :: nat req_sys. req_reach q \<and> map_of (rq_waiting q) 0 = Some ''r'' \<and>
     map_of (srv_pendingRequests (rq_srv q)) ''r'' = Some 0"
proof -
  let ?q = "\<lparr>rq_srv = NewServer 9090 None, rq_waiting = [], rq_delivering = [], rq_made_for = [],
             rq_returned = []\<rparr> :: nat req_sys"
  have "begin_request ''r'' (rq_srv ?q) = (0, snd (begin_request ''r'' (rq_srv ?q)))"
    by (simp add: begin_request_def NewServer_def)
  then have "req_step ?q (?q\<lparr>rq_srv := snd (begin_request ''r'' (rq_srv ?q)),
      rq_waiting := AList.update 0 ''r'' (rq_waiting ?q), rq_made_for := rq_made_for ?q @ [''r'']\<rparr>)"
    (is "req_step _ ?q'") by (intro req_step.begin_req) simp_all
  then have reach: "req_reach ?q'" by (rule req_reach.step [OF req_reach.init])
  have "map_of (rq_waiting ?q') 0 = Some ''r''" by simp
  with responses_match_requests [OF reach] reach show ?thesis by blast
qed

text \<open>
  In every reachable state \<open>HandleResponse\<close> returns at once, it neither blocks nor panics.
  A response to an unknown request is dropped; the first response to a pending request is put in its
  channel, and later ones are dropped while it is there.  A delivery that was overtaken by a timeout
  still completes.
\<close>

theorem HandleResponse_never_blocks:
  assumes "req_reach q"
  shows "(\<exists>s. HandleResponse m (rq_srv q) = Ok s \<and> srv_pendingRequests s = srv_pendingRequests (rq_srv q) \<and>
      (case map_of (srv_pendingRequests (rq_srv q)) (msg_Id m) of
         None \<Rightarrow> s = rq_srv q
       | Some r \<Rightarrow> chan_buf (srv_chans s ! r) =
           (if chan_buf (srv_chans (rq_srv q) ! r) = [] then [m] else chan_buf (srv_chans (rq_srv q) ! r)))) \<and>
    ((m, r) \<in> set (rq_delivering q) \<longrightarrow> (\<exists>s. deliver_response r m (rq_srv q) = Ok s))"
proof -
  note D = req_invD [OF req_reach_inv [OF assms]]
  have "\<exists>s. HandleResponse m (rq_srv q) = Ok s \<and> srv_pendingRequests s = srv_pendingRequests (rq_srv q) \<and>
      chan_buf (srv_chans s ! r) =
        (if chan_buf (srv_chans (rq_srv q) ! r) = [] then [m] else chan_buf (srv_chans (rq_srv q) ! r))"
    if r: "map_of (srv_pendingRequests (rq_srv q)) (msg_Id m) = Some r" for r
  proof -
    have len: "r < length (srv_chans (rq_srv q))" using D(3,4) r by blast
    then have "\<not> chan_closed (srv_chans (rq_srv q) ! r)"
        "chan_room (srv_chans (rq_srv q) ! r) \<longleftrightarrow> chan_buf (srv_chans (rq_srv q) ! r) = []"
      using D(2) [OF len] by (simp_all add: chan_room_def)
    with r len show ?thesis by (simp add: HandleResponse_def deliver_response_open)
  qed
  then have "\<exists>s. HandleResponse m (rq_srv q) = Ok s \<and> srv_pendingRequests s = srv_pendingRequests (rq_srv q) \<and>
      (case map_of (srv_pendingRequests (rq_srv q)) (msg_Id m) of
         None \<Rightarrow> s = rq_srv q
       | Some r \<Rightarrow> chan_buf (srv_chans s ! r) =
           (if chan_buf (srv_chans (rq_srv q) ! r) = [] then [m] else chan_buf (srv_chans (rq_srv q) ! r)))"
    by (cases "map_of (srv_pendingRequests (rq_srv q)) (msg_Id m)") (simp_all add: HandleResponse_def)
  moreover have "\<exists>s. deliver_response r m (rq_srv q) = Ok s" if "(m, r) \<in> set (rq_delivering q)"
    using D(2) D(5) [OF that] by (simp add: deliver_response_open)
  ultimately show ?thesis by blast
qed

theorem HandleResponse_never_blocks_witness:
  "HandleResponse \<lparr>msg_Id = ''x'', msg_Type = RESPONSE, msg_Payload = '''', msg_Metadata = []\<rparr>
     (NewServer 9090 None :: nat Server) = Ok (NewServer 9090 None)"
proof -
  have "req_reach \<lparr>rq_srv = NewServer 9090 None :: nat Server, rq_waiting = [], rq_delivering = [],
      rq_made_for = [], rq_returned = []\<rparr>"
    by (rule req_reach.init)
  from HandleResponse_never_blocks [OF this,
      of "\<lparr>msg_Id = ''x'', msg_Type = RESPONSE, msg_Payload = '''', msg_Metadata = []\<rparr>"]
  show ?thesis by (simp add: NewServer_def)
qed

text \<open>
  A request to a connected agent with room in its queue, answered by the agent before
  the timers fire, returns exactly the agent's answer, whatever else was pending; the message was
  queued for that agent, and the pending table is as before.
\<close>

theorem request_response_roundtrip:
  fixes s :: "AgentServerManager Server"
  assumes inv: "conn_inv (srv_connManager s)" and r: "map_of (cm_agents (srv_connManager s)) a = Some r"
    and room: "chan_room (ac_SendCh (cm_heap (srv_connManager s) ! r))"
    and new: "msg_Id msg \<notin> keys (srv_pendingRequests s)" and resp: "msg_Id resp = msg_Id msg"
  shows "\<exists>s'. (SendRequestToAgent False False False
        (\<lambda>s2. case HandleResponse resp s2 of Ok s3 \<Rightarrow> s3 | _ \<Rightarrow> s2) a msg s
        :: ((asm_error request_error + ProxyMessage) \<times> AgentServerManager Server) outcome list) = [Ok (Inr resp, s')] \<and>
    srv_pendingRequests s' = srv_pendingRequests s \<and> conn_inv (srv_connManager s') \<and>
    chan_buf (ac_SendCh (cm_heap (srv_connManager s') ! r)) =
      chan_buf (ac_SendCh (cm_heap (srv_connManager s) ! r)) @ [msg]"
proof -
  let ?cm = "srv_connManager s"
  let ?c = "(cm_heap ?cm ! r)\<lparr>ac_SendCh := chan_push msg (ac_SendCh (cm_heap ?cm ! r))\<rparr>"
  let ?cm' = "?cm\<lparr>cm_heap := (cm_heap ?cm)[r := ?c]\<rparr>"
  have wf: "cm_wf ?cm" using inv by (simp add: cm_inv_def)
  note E = cm_wf_entry [OF wf r]
  have "conn_ok ?c" using E(3) room by (simp add: conn_ok_def chan_ok_def chan_room_def)
  then have inv': "conn_inv ?cm'" by (intro cm_inv_conn_update [OF inv E(1)]) simp_all
  have send: "(SendToAgent False a msg ?cm :: (asm_error cm_error option \<times> _) outcome list) = [Ok (None, ?cm')]"
    using r room E(4,5) by (simp add: SendToAgent_def send_to_conn_def send_select_def)
  have pending: "AList.delete (msg_Id msg) (AList.update (msg_Id msg) v (srv_pendingRequests s)) = srv_pendingRequests s" for v
    using new by (simp add: update_fresh AList.delete_eq filter_id_conv) force
  show ?thesis
    using E(1) inv'
    by (simp add: SendRequestToAgent_def begin_request_def send HandleResponse_def resp go_map
        deliver_response_def chan_try_send_def chan_room_def await_response_def end_request_def pending
        split: list.splits)
qed

theorem request_response_roundtrip_witness:
  "let req = \<lparr>msg_Id = ''1'', msg_Type = REQUEST, msg_Payload = ''q'', msg_Metadata = []\<rparr>;
       resp = \<lparr>msg_Id = ''1'', msg_Type = RESPONSE, msg_Payload = ''p'', msg_Metadata = []\<rparr>
   in \<exists>s'. (SendRequestToAgent False False False
          (\<lambda>s2. case HandleResponse resp s2 of Ok s3 \<Rightarrow> s3 | _ \<Rightarrow> s2) ''a'' req
          ((NewServer 9090 None)\<lparr>srv_connManager := example_cm\<rparr>)
          :: ((asm_error request_error + ProxyMessage) \<times> AgentServerManager Server) outcome list)
        = [Ok (Inr resp, s')] \<and> srv_pendingRequests s' = []"
proof -
  let ?s = "(NewServer 9090 None)\<lparr>srv_connManager := example_cm\<rparr>"
  have 1: "conn_inv (srv_connManager ?s)" using example_cm_inv by simp
  have 2: "map_of (cm_agents (srv_connManager ?s)) ''a'' = Some 0"
    and 3: "chan_room (ac_SendCh (cm_heap (srv_connManager ?s) ! 0))"
    by (simp_all add: example_cm_def example_conn_def chan_room_def sendChannelBuffer_def)
  show ?thesis
    using request_response_roundtrip [OF 1 2 3,
        of "\<lparr>msg_Id = ''1'', msg_Type = REQUEST, msg_Payload = ''q'', msg_Metadata = []\<rparr>"
           "\<lparr>msg_Id = ''1'', msg_Type = RESPONSE, msg_Payload = ''p'', msg_Metadata = []\<rparr>"]
    by (auto simp: NewServer_def)
qed

lemma SendRequestToAgent_outcomes:
  fixes out :: "((asm_error request_error + ProxyMessage) \<times> AgentServerManager Server) outcome"
  assumes inv: "conn_inv (srv_connManager s)" and new: "msg_Id msg \<notin> keys (srv_pendingRequests s)"
    and others: "\<And>s2. srv_pendingRequests (others s2) = srv_pendingRequests s2"
    and out: "out \<in> set (SendRequestToAgent send_expired expired ctx_done others a msg s)"
  shows "case out of
      Ok (res, s') \<Rightarrow> srv_pendingRequests s' = srv_pendingRequests s
    | Block \<Rightarrow> \<not> (send_expired \<and> expired)
    | Panic \<Rightarrow> False"
proof -
  obtain ref s1 where b: "begin_request (msg_Id msg) s = (ref, s1)" by (cases "begin_request (msg_Id msg) s")
  then have s1: "srv_connManager s1 = srv_connManager s"
      "srv_pendingRequests s1 = AList.update (msg_Id msg) ref (srv_pendingRequests s)"
    by (auto simp: begin_request_def)
  have pending: "AList.delete (msg_Id msg) (srv_pendingRequests s1) = srv_pendingRequests s"
    unfolding s1 using new by (simp add: update_fresh AList.delete_eq filter_id_conv) force
  have nopanic: "o1 = Ok (e, cm) \<or> (o1 = Block \<and> \<not> send_expired)"
    if "o1 \<in> set (SendToAgent send_expired a msg (srv_connManager s) :: (asm_error cm_error option \<times> _) outcome list)"
      "\<And>x. o1 = Ok x \<Longrightarrow> x = (e, cm)" for o1 e cm
  proof (cases "map_of (cm_agents (srv_connManager s)) a")
    case None
    with that show ?thesis by (simp add: SendToAgent_def)
  next
    case (Some r)
    note E = cm_wf_entry [OF _ Some]
    have wf: "cm_wf (srv_connManager s)" using inv by (simp add: cm_inv_def)
    show ?thesis
      using that Some E(4,5) [OF wf]
      by (auto simp: SendToAgent_def send_to_conn_def send_select_def Let_def split: if_splits)
  qed
  from out [unfolded SendRequestToAgent_def b Let_def prod.case s1(1)] show ?thesis
  proof (cases rule: lbind_cases)
    case (ok x)
    then show ?thesis
      using others pending
      by (auto simp: end_request_def lbind_def await_response_def Let_def split: option.splits list.splits if_splits)
  next
    case block
    with nopanic [of Block] show ?thesis by simp
  next
    case panic
    with nopanic [of Panic] show ?thesis by simp
  qed
qed

text \<open>
  What a request to a connected agent comes to.  \<open>queued_request\<close> is the server once the message is in the queue
  of the agent; \<open>others\<close> runs from there.
\<close>

definition queued_request :: "nat \<Rightarrow> ProxyMessage \<Rightarrow> 'm Server \<Rightarrow> 'm Server" where
  "queued_request r msg s =
     (let cm = srv_connManager s; conn = cm_heap cm ! r in
      (snd (begin_request (msg_Id msg) s))\<lparr>srv_connManager :=
         cm\<lparr>cm_heap := (cm_heap cm)[r := conn\<lparr>ac_SendCh := chan_push msg (ac_SendCh conn)\<rparr>]\<rparr>\<rparr>)"

abbreviation delivered_answers :: "('m Server \<Rightarrow> 'm Server) \<Rightarrow> nat \<Rightarrow> ProxyMessage \<Rightarrow> 'm Server \<Rightarrow> ProxyMessage list" where
  "delivered_answers others r msg s \<equiv> chan_buf (srv_chans (others (queued_request r msg s)) ! length (srv_chans s))"

lemma SendRequestToAgent_connected:
  fixes out :: "((asm_error request_error + ProxyMessage) \<times> AgentServerManager Server) outcome"
  assumes inv: "conn_inv (srv_connManager s)" and r: "map_of (cm_agents (srv_connManager s)) a = Some r"
    and out: "out \<in> set (SendRequestToAgent send_expired expired ctx_done others a msg s)"
  shows "case out of
      Ok (res, s') \<Rightarrow> res = Inl (FailedToSendRequest (TimeoutSending a)) \<and> send_expired \<or>
        chan_room (ac_SendCh (cm_heap (srv_connManager s) ! r)) \<and>
          (res = Inl RequestTimeout \<and> expired \<or> res = Inl ContextDone \<and> ctx_done \<or>
           (\<exists>m rest. delivered_answers others r msg s = m # rest \<and> res = Inr m))
    | Block \<Rightarrow> \<not> chan_room (ac_SendCh (cm_heap (srv_connManager s) ! r)) \<and> \<not> send_expired \<or>
        \<not> expired \<and> \<not> ctx_done \<and> delivered_answers others r msg s = []
    | Panic \<Rightarrow> False"
proof -
  let ?cm = "srv_connManager s" and ?q = "queued_request r msg s"
  let ?c = "cm_heap ?cm ! r" and ?await = "await_response expired ctx_done (length (srv_chans s)) (others (queued_request r msg s))
      :: ((asm_error request_error + ProxyMessage) \<times> AgentServerManager Server) outcome list"
  let ?sent = "\<lambda>(err, cm). let s2 = (snd (begin_request (msg_Id msg) s))\<lparr>srv_connManager := cm\<rparr> in
        case err of
          Some e \<Rightarrow> [Ok (Inl (FailedToSendRequest e), end_request (msg_Id msg) s2)]
        | None \<Rightarrow>
            lbind (await_response expired ctx_done (length (srv_chans s)) (others s2)) (\<lambda>(res, s3).
              [Ok (res, end_request (msg_Id msg) s3)])"
  have wf: "cm_wf ?cm" using inv by (simp add: cm_inv_def)
  note E = cm_wf_entry [OF wf r]
  have run: "out \<in> set (lbind (SendToAgent send_expired a msg ?cm) ?sent)"
    using out unfolding SendRequestToAgent_def begin_request_def Let_def prod.case snd_conv by simp
  have send: "set (SendToAgent send_expired a msg ?cm :: (asm_error cm_error option \<times> _) outcome list) =
      (if chan_room (ac_SendCh ?c) then {Ok (None, srv_connManager ?q)} else {}) \<union>
      (if send_expired then {Ok (Some (TimeoutSending a), ?cm)} else {}) \<union>
      (if \<not> chan_room (ac_SendCh ?c) \<and> \<not> send_expired then {Block} else {})"
    using E(4,5) r by (auto simp: SendToAgent_def send_to_conn_def send_select_def queued_request_def begin_request_def Let_def)
  have q: "(snd (begin_request (msg_Id msg) s))\<lparr>srv_connManager := srv_connManager ?q\<rparr> = ?q"
    by (simp add: queued_request_def Let_def)
  have await: "case o1 of
      Ok (res, s') \<Rightarrow> res = Inl RequestTimeout \<and> expired \<or> res = Inl ContextDone \<and> ctx_done \<or>
        (\<exists>m rest. delivered_answers others r msg s = m # rest \<and> res = Inr m)
    | Block \<Rightarrow> \<not> expired \<and> \<not> ctx_done \<and> delivered_answers others r msg s = []
    | Panic \<Rightarrow> False" if "o1 \<in> set ?await" for o1
    using that by (auto simp: await_response_def Let_def split: list.splits if_splits)
  from run show ?thesis
  proof (cases rule: lbind_cases)
    case (ok x)
    from ok(1) [unfolded send] consider "x = (None, srv_connManager ?q)" "chan_room (ac_SendCh ?c)"
      | "x = (Some (TimeoutSending a), ?cm)" "send_expired"
      by (auto split: if_splits)
    then show ?thesis
    proof cases
      case 1
      with ok(2) have "out \<in> set (lbind ?await (\<lambda>(res, s3). [Ok (res, end_request (msg_Id msg) s3)]))"
        by (simp add: Let_def q)
      then show ?thesis
        by (cases rule: lbind_cases) (use await 1(2) in \<open>fastforce+\<close>)
    next
      case 2
      with ok(2) show ?thesis by (simp add: Let_def)
    qed
  next
    case block
    with send show ?thesis by (auto split: if_splits)
  next
    case panic
    with send show ?thesis by (auto split: if_splits)
  qed
qed

text \<open>
  However a request ends, with an answer, a failed send, a timeout or a cancelled
  context, its entry in the pending table is gone; and once its timers have fired it cannot wait.
\<close>

theorem SendRequestToAgent_no_leak:
  fixes out :: "((asm_error request_error + ProxyMessage) \<times> AgentServerManager Server) outcome"
  assumes inv: "conn_inv (srv_connManager s)" and new: "msg_Id msg \<notin> keys (srv_pendingRequests s)"
    and others: "\<And>s2. srv_pendingRequests (others s2) = srv_pendingRequests s2"
    and out: "out \<in> set (SendRequestToAgent send_expired expired ctx_done others a msg s)"
  shows "case out of
      Ok (res, s') \<Rightarrow> srv_pendingRequests s' = srv_pendingRequests s
    | Block \<Rightarrow> \<not> (send_expired \<and> expired)
    | Panic \<Rightarrow> False"
  using assms by (rule SendRequestToAgent_outcomes)

theorem SendRequestToAgent_no_leak_witness:
  "\<exists>s'. (Ok (Inl RequestTimeout, s') :: ((asm_error request_error + ProxyMessage) \<times> AgentServerManager Server) outcome)
      \<in> set (SendRequestToAgent False True False (\<lambda>s2. s2) ''a''
              \<lparr>msg_Id = ''1'', msg_Type = REQUEST, msg_Payload = '''', msg_Metadata = []\<rparr>
              ((NewServer 9090 None)\<lparr>srv_connManager := example_cm\<rparr>)) \<and> srv_pendingRequests s' = []"
proof -
  let ?s = "(NewServer 9090 None)\<lparr>srv_connManager := example_cm\<rparr>"
  let ?m = "\<lparr>msg_Id = ''1'', msg_Type = REQUEST, msg_Payload = '''', msg_Metadata = []\<rparr>"
  have "\<exists>s'. (Ok (Inl RequestTimeout, s') :: ((asm_error request_error + ProxyMessage) \<times> AgentServerManager Server) outcome)
      \<in> set (SendRequestToAgent False True False (\<lambda>s2. s2) ''a'' ?m ?s)"
    by (simp add: SendRequestToAgent_def begin_request_def SendToAgent_def send_to_conn_def send_select_def
        example_cm_def example_conn_def chan_room_def sendChannelBuffer_def await_response_def NewServer_def)
  then obtain s' where s': "(Ok (Inl RequestTimeout, s') :: ((asm_error request_error + ProxyMessage) \<times> AgentServerManager Server) outcome)
      \<in> set (SendRequestToAgent False True False (\<lambda>s2. s2) ''a'' ?m ?s)"
    by blast
  have 1: "conn_inv (srv_connManager ?s)" using example_cm_inv by simp
  have 2: "msg_Id ?m \<notin> keys (srv_pendingRequests ?s)" by (simp add: NewServer_def)
  from SendRequestToAgent_no_leak [OF 1 2 _ s'] s' show ?thesis by (auto simp: NewServer_def)
qed

text \<open>
  C34 (safety): with TLS enabled the server never comes up in plain text and never with weaker client
  authentication than configured: it starts only with the key pair of the configured files loaded, which is
  the one certificate that it shows, and, unless the setting is "none", with the certificates of the configured CA file as the pool that client certificates are
  checked against.  An unknown setting is an error.
\<close>

theorem Start_enforces_tls:
  assumes "srv_tlsConfig s = Some tc" "tc_Enabled tc" "Start env listen s = (Inr c, s')"
  shows "\<exists>creds. c = Some creds \<and>
    (\<exists>cert. LoadX509KeyPair env (tc_CertFile tc) (tc_KeyFile tc) = Some cert \<and> tls_Certificates creds = [cert]) \<and>
    ParseClientAuthType (tc_ClientAuth tc) = Inr (tls_ClientAuth creds) \<and>
    tc_ClientAuth tc \<in> {''none'', ''request'', ''require''} \<and>
    (tc_ClientAuth tc = ''require'' \<longrightarrow> tls_ClientAuth creds = RequireAndVerifyClientCert) \<and>
    (tc_ClientAuth tc \<noteq> ''none'' \<longrightarrow> (\<exists>ca. ReadFile env (tc_CAFile tc) = Some ca \<and>
       tls_ClientCAs creds = AppendCertsFromPEM env ca \<and> tls_ClientCAs creds \<noteq> None))"
proof -
  from assms obtain auth creds where auth: "ParseClientAuthType (tc_ClientAuth tc) = Inr auth"
      and creds: "LoadServerCredentials env (tc_CertFile tc) (tc_KeyFile tc) (tc_CAFile tc) auth = Inr creds"
      and c: "c = Some creds"
    by (auto simp: Start_def Let_def split: if_splits sum.splits)
  have "tc_ClientAuth tc = ''none'' \<and> auth = NoClientCert \<or>
      tc_ClientAuth tc = ''request'' \<and> auth = RequestClientCert \<or>
      tc_ClientAuth tc = ''require'' \<and> auth = RequireAndVerifyClientCert"
    using auth by (auto simp: ParseClientAuthType_def split: if_splits)
  with auth c LoadServerCredentials_ok [OF creds] show ?thesis by auto
qed

theorem Start_enforces_tls_witness:
  "\<exists>creds :: (nat, nat) tls_config.
     fst (Start \<lparr>LoadX509KeyPair = \<lambda>c k. Some 1, ReadFile = \<lambda>f. Some ''pem'', AppendCertsFromPEM = \<lambda>p. Some 2\<rparr> (\<lambda>p. True)
       (NewServer 9090 (Some \<lparr>tc_Enabled = True, tc_CertFile = ''c'', tc_KeyFile = ''k'', tc_CAFile = ''ca'',
          tc_ClientAuth = ''require''\<rparr>) :: nat Server)) = Inr (Some creds) \<and>
     tls_ClientAuth creds = RequireAndVerifyClientCert \<and> tls_Certificates creds = [1]"
proof -
  let ?env = "\<lparr>LoadX509KeyPair = \<lambda>c k. Some 1, ReadFile = \<lambda>f. Some ''pem'', AppendCertsFromPEM = \<lambda>p. Some 2\<rparr> :: (nat, nat, string) tls_env"
  let ?tc = "\<lparr>tc_Enabled = True, tc_CertFile = ''c'', tc_KeyFile = ''k'', tc_CAFile = ''ca'', tc_ClientAuth = ''require''\<rparr>"
  let ?s = "NewServer 9090 (Some ?tc) :: nat Server"
  have tc: "srv_tlsConfig ?s = Some ?tc" "tc_Enabled ?tc" by (simp_all add: NewServer_def)
  obtain c s' where c: "Start ?env (\<lambda>p. True) ?s = (Inr c, s')"
    by (simp add: Start_def NewServer_def ParseClientAuthType_def LoadServerCredentials_def Let_def)
  from Start_enforces_tls [OF tc c] c show ?thesis by auto
qed

text \<open>
  If the gRPC server cannot start, because the port is taken or the TLS settings are unusable, then
  stopping it, which is what the program does next, panics: there is no gRPC server to stop, and
  the connection manager is not stopped either.
\<close>

theorem stop_after_failed_start_panics:
  assumes "Start env listen (NewServer port tc) = (Inl e, s)"
  shows "Stop_srv I s = Panic \<and> StopWithTimeout I timeout s = Panic \<and>
    (listen port \<longrightarrow> srv_listener s)"
  using assms by (auto simp: Start_def NewServer_def Stop_srv_def StopWithTimeout_def Let_def split: if_splits option.splits sum.splits)

theorem stop_after_failed_start_panics_witness:
  "let I = \<lparr>iface_start = \<lambda>a m. Ok (Inl ''no'', m), iface_stop = \<lambda>a m. Ok (None, m), iface_shutdown = \<lambda>m. Ok (None, m)\<rparr> in
   Stop_srv I (snd (Start (\<lparr>LoadX509KeyPair = \<lambda>c k. None, ReadFile = \<lambda>f. None, AppendCertsFromPEM = \<lambda>p. None\<rparr> :: (nat, nat, string) tls_env)
     (\<lambda>p. False) (NewServer 9090 None :: nat Server))) = Panic"
proof -
  let ?env = "\<lparr>LoadX509KeyPair = \<lambda>c k. None, ReadFile = \<lambda>f. None, AppendCertsFromPEM = \<lambda>p. None\<rparr> :: (nat, nat, string) tls_env"
  have run: "Start ?env (\<lambda>p. False) (NewServer 9090 None :: nat Server) = (Inl (FailedToListen 9090), NewServer 9090 None)"
    by (simp add: Start_def NewServer_def)
  show ?thesis unfolding Let_def run snd_conv by (rule stop_after_failed_start_panics [OF run, THEN conjunct1])
qed

end
