(* ===== verification/Stream_Handler.thy ===== *)
theory Stream_Handler
  imports Grpc_Server "HOL-Library.Sublist"
begin

text \<open>
  \<^verbatim>\<open>internal/grpc/server/stream_handler.go\<close>: the life of an agent's stream.  The first message names
  the agent and registers its connection; two loops then receive and send messages until one of
  them fails or the connection is cancelled, and the deferred call deregisters the agent.  The
  loops are driven by lists of events, what the network and the other goroutines did before each
  iteration.  The step relation \<open>table_step\<close> interleaves the critical sections of all streams.
\<close>

section \<open>Operations\<close>

datatype stream_err = StreamEOF | StreamError string

datatype 'e handle_error =
    FailedToReceive stream_err
  | AgentIDNotFound
  | FailedToRegister "'e cm_error"
  | StreamFailed stream_err
  | ContextCanceled

text \<open>\<open>uid\<close> is the identifier that \<^verbatim>\<open>uuid.New\<close> generates for a \<^verbatim>\<open>PONG\<close>.\<close>

definition processMessage :: "bool \<Rightarrow> string \<Rightarrow> string \<Rightarrow> ProxyMessage \<Rightarrow> 'm Server \<Rightarrow>
    ('e cm_error option \<times> 'm Server) outcome list" where
  "processMessage expired uid agentID msg s =
     (case msg_Type msg of
        PING \<Rightarrow>
          let pong = \<lparr>msg_Id = uid, msg_Type = PONG, msg_Payload = [], msg_Metadata = []\<rparr> in
          lbind (SendToAgent expired agentID pong (srv_connManager s)) (\<lambda>(err, cm).
            [Ok (err, s\<lparr>srv_connManager := cm\<rparr>)])
      | RESPONSE \<Rightarrow> [obind (HandleResponse msg s) (\<lambda>s'. Ok (None, s'))]
      | _ \<Rightarrow> [Ok (None, s)])"

text \<open>\<^verbatim>\<open>HandleStream\<close> up to the start of the loops; the error of the first message is only logged.\<close>

definition open_stream :: "('m, 'e) AgentServerIface \<Rightarrow> gotime \<Rightarrow> gotime \<Rightarrow> bool \<Rightarrow> string \<Rightarrow> nat \<Rightarrow>
    stream_err + ProxyMessage \<Rightarrow> 'm Server \<Rightarrow>
    (('e handle_error + string \<times> nat) \<times> 'm Server) outcome list" where
  "open_stream I now now' expired uid st first s =
     (case first of
        Inl err \<Rightarrow> [Ok (Inl (FailedToReceive err), s)]
      | Inr firstMsg \<Rightarrow>
          let agentID = metadata_get firstMsg ''agent_id'' in
          if agentID = [] then [Ok (Inl AgentIDNotFound, s)]
          else
            lbind [Register I now st agentID (srv_connManager s)] (\<lambda>(res, cm).
              let s1 = s\<lparr>srv_connManager := cm\<rparr> in
              case res of
                Inl err \<Rightarrow> [Ok (Inl (FailedToRegister err), s1)]
              | Inr conn \<Rightarrow>
                  let s2 = s1\<lparr>srv_connManager := UpdateLastSeen now' agentID (srv_connManager s1)\<rparr> in
                  lbind (processMessage expired uid agentID firstMsg s2 :: ('e cm_error option \<times> _) outcome list)
                    (\<lambda>(err, s3). [Ok (Inr (agentID, conn), s3)])))"

text \<open>The \<^verbatim>\<open>select\<close> of \<^verbatim>\<open>HandleStream\<close>: an error of one of the loops, or the connection's context.\<close>

definition stream_select :: "stream_err list \<Rightarrow> nat \<Rightarrow> 'm ConnectionManager \<Rightarrow> 'e handle_error option outcome list" where
  "stream_select errChan conn cm =
     (let ready =
        (case errChan of
           err # _ \<Rightarrow> [Ok (if err \<noteq> StreamEOF then Some (StreamFailed err) else None)]
         | [] \<Rightarrow> []) @
        (if ac_cancelled (cm_heap cm ! conn) then [Ok (Some ContextCanceled)] else [])
      in if ready = [] then [Block] else ready)"

text \<open>
  \<^verbatim>\<open>HandleStream\<close>; \<open>others\<close> is what the loops and the other goroutines do to the server until the
  \<^verbatim>\<open>select\<close> is decided, and \<open>errChan\<close> what the loops have put in the error channel by then.
\<close>

definition HandleStream :: "('m, 'e) AgentServerIface \<Rightarrow> gotime \<Rightarrow> gotime \<Rightarrow> bool \<Rightarrow> string \<Rightarrow> nat \<Rightarrow>
    stream_err + ProxyMessage \<Rightarrow> ('m Server \<Rightarrow> 'm Server) \<Rightarrow> stream_err list \<Rightarrow> 'm Server \<Rightarrow>
    ('e handle_error option \<times> 'm Server) outcome list" where
  "HandleStream I now now' expired uid st first others errChan s =
     lbind (open_stream I now now' expired uid st first s) (\<lambda>(res, s1).
       case res of
         Inl err \<Rightarrow> [Ok (Some err, s1)]
       | Inr (agentID, conn) \<Rightarrow>
           let s2 = others s1 in
           lbind (stream_select errChan conn (srv_connManager s2)) (\<lambda>ret.
             [obind (Deregister I agentID (srv_connManager s2)) (\<lambda>cm.
                Ok (ret, s2\<lparr>srv_connManager := cm\<rparr>))]))"

text \<open>
  One event per iteration of \<^verbatim>\<open>receiveLoop\<close>: whether \<^verbatim>\<open>done\<close> is closed, what \<^verbatim>\<open>Recv\<close> returns, and the
  choices of the message handling.  The error put in the error channel, if any, is the result; the
  channel has room for both loops.  No event means that \<^verbatim>\<open>Recv\<close> is waiting.
\<close>

record recv_event =
  re_done :: bool
  re_recv :: "stream_err + ProxyMessage"
  re_now :: gotime
  re_expired :: bool
  re_uid :: string

fun receiveLoop :: "recv_event list \<Rightarrow> string \<Rightarrow> 'm Server \<Rightarrow> (stream_err option \<times> 'm Server) outcome list" where
  "receiveLoop [] agentID s = [Block]"
| "receiveLoop (ev # evs) agentID s =
     (if re_done ev then [Ok (None, s)]
      else
        case re_recv ev of
          Inl err \<Rightarrow> [Ok (Some err, s)]
        | Inr msg \<Rightarrow>
            let s1 = s\<lparr>srv_connManager := UpdateLastSeen (re_now ev) agentID (srv_connManager s)\<rparr> in
            lbind (processMessage (re_expired ev) (re_uid ev) agentID msg s1 :: (unit cm_error option \<times> _) outcome list)
              (\<lambda>(err, s2). receiveLoop evs agentID s2))"

text \<open>
  One event per iteration of \<^verbatim>\<open>sendLoop\<close>: what was queued and whether the channel was closed since the
  last one, whether \<^verbatim>\<open>done\<close> is closed, and the error of \<^verbatim>\<open>stream.Send\<close>.  The result is the error put in
  the error channel, the messages sent and the channel.
\<close>

record send_event =
  se_queued :: "ProxyMessage list"
  se_closed :: bool
  se_done :: bool
  se_err :: "stream_err option"

fun sendLoop :: "send_event list \<Rightarrow> ProxyMessage list \<Rightarrow> ProxyMessage chan \<Rightarrow>
    (stream_err option \<times> ProxyMessage list \<times> ProxyMessage chan) outcome list" where
  "sendLoop [] sent sendCh = [Block]"
| "sendLoop (ev # evs) sent sendCh =
     (let ch = sendCh\<lparr>chan_buf := chan_buf sendCh @ se_queued ev, chan_closed := chan_closed sendCh \<or> se_closed ev\<rparr>;
          ready =
            (if se_done ev then [Ok (None, sent, ch)] else []) @
            (case chan_try_recv ch of
               Some (Some msg, ch') \<Rightarrow>
                 (case se_err ev of
                    Some err \<Rightarrow> [Ok (Some err, sent, ch')]
                  | None \<Rightarrow> sendLoop evs (sent @ [msg]) ch')
             | Some (None, ch') \<Rightarrow> [Ok (None, sent, ch')]
             | None \<Rightarrow> [])
      in if ready = [] then [Block] else ready)"

section \<open>Interleavings of the critical sections\<close>

text \<open>
  What any number of streams, senders and the cleanup goroutine do to the table, one critical section
  or channel operation at a time.  A sender may hold a connection that was replaced meanwhile; the
  rule \<open>send\<close> covers the sends that do not panic.
\<close>

inductive table_step :: "AgentServerManager ConnectionManager \<Rightarrow> AgentServerManager ConnectionManager \<Rightarrow> bool" where
  register: "Register (asm_iface os t timed_out) now st a cm = Ok (res, cm') \<Longrightarrow> table_step cm cm'"
| deregister: "Deregister (asm_iface os t timed_out) a cm = Ok cm' \<Longrightarrow> table_step cm cm'"
| send: "r < length (cm_heap cm) \<Longrightarrow>
    (Ok (err, cm') :: (asm_error cm_error option \<times> AgentServerManager ConnectionManager) outcome)
      \<in> set (send_to_conn expired a msg r cm) \<Longrightarrow> table_step cm cm'"
| take: "r < length (cm_heap cm) \<Longrightarrow> chan_try_recv (ac_SendCh (cm_heap cm ! r)) = Some (m, ch) \<Longrightarrow>
    table_step cm (cm\<lparr>cm_heap := (cm_heap cm)[r := (cm_heap cm ! r)\<lparr>ac_SendCh := ch\<rparr>]\<rparr>)"
| seen: "table_step cm (UpdateLastSeen now a cm)"
| stale: "removeStaleConnections (asm_iface os t timed_out) now cm = Ok cm' \<Longrightarrow> table_step cm cm'"
| stop: "Stop_cm (asm_iface os t timed_out) cm = Ok cm' \<Longrightarrow> table_step cm cm'"

inductive table_reach :: "PortManager \<Rightarrow> AgentServerManager ConnectionManager \<Rightarrow> bool" for pm where
  init: "table_reach pm (NewConnectionManager (Some (NewAgentServerManager pm)))"
| step: "table_reach pm cm \<Longrightarrow> table_step cm cm' \<Longrightarrow> table_reach pm cm'"

lemma UpdateLastSeen_inv:
  assumes "cm_inv ok port cm" shows "cm_inv ok port (UpdateLastSeen now a cm)"
proof (cases "map_of (cm_agents cm) a")
  case None
  with assms show ?thesis by (simp add: UpdateLastSeen_def)
next
  case (Some r)
  have wf: "cm_wf cm" using assms by (simp add: cm_inv_def)
  note E = cm_wf_entry [OF wf Some]
  have "cm_inv ok port (cm\<lparr>cm_heap := (cm_heap cm)[r := (cm_heap cm ! r)\<lparr>ac_LastSeen := now\<rparr>]\<rparr>)"
    using E(3) by (intro cm_inv_conn_update [OF assms E(1)]) (simp_all add: conn_ok_def)
  with Some show ?thesis by (simp add: UpdateLastSeen_def)
qed

lemma send_to_conn_inv:
  assumes inv: "cm_inv ok port cm" and r: "r < length (cm_heap cm)"
    and out: "Ok (err, cm') \<in> set (send_to_conn expired a msg r cm)"
  shows "cm_inv ok port cm'"
proof -
  let ?c = "cm_heap cm ! r"
  have c: "conn_ok ?c" using inv r by (simp add: cm_inv_def cm_wf_def)
  from out obtain c' where c': "Ok (err, c') \<in> set (send_select expired a msg ?c)"
      and cm': "cm' = cm\<lparr>cm_heap := (cm_heap cm)[r := c']\<rparr>"
    by (auto simp: send_to_conn_def)
  have "c' = ?c \<or> chan_room (ac_SendCh ?c) \<and> c' = ?c\<lparr>ac_SendCh := chan_push msg (ac_SendCh ?c)\<rparr>"
    using c' by (auto simp: send_select_def Let_def split: if_splits)
  then have "conn_ok c'" "ac_ID c' = ac_ID ?c" "ac_Port c' = ac_Port ?c" "ac_cancelled c' = ac_cancelled ?c"
    using c by (auto simp: conn_ok_def chan_ok_def chan_room_def)
  from cm_inv_conn_update [OF inv r this] cm' show ?thesis by simp
qed

lemma take_inv:
  assumes inv: "cm_inv ok port cm" and r: "r < length (cm_heap cm)"
    and ch: "chan_try_recv (ac_SendCh (cm_heap cm ! r)) = Some (m, ch)"
  shows "cm_inv ok port (cm\<lparr>cm_heap := (cm_heap cm)[r := (cm_heap cm ! r)\<lparr>ac_SendCh := ch\<rparr>]\<rparr>)"
proof -
  have "conn_ok (cm_heap cm ! r)" using inv r by (simp add: cm_inv_def cm_wf_def)
  then have "conn_ok ((cm_heap cm ! r)\<lparr>ac_SendCh := ch\<rparr>)"
    using ch by (auto simp: chan_try_recv_def conn_ok_def chan_ok_def split: list.splits if_splits)
  then show ?thesis by (intro cm_inv_conn_update [OF inv r]) simp_all
qed

lemma Register_result_inv:
  assumes "conn_inv cm" "Register (asm_iface os t timed_out) now st a cm = Ok (res, cm')"
  shows "conn_inv cm'"
proof -
  obtain cm1 where d: "Deregister (asm_iface os t timed_out) a cm = Ok cm1"
    using asm.Deregister_ok [OF assms(1)] by blast
  from assms(1) d show ?thesis
    by (cases rule: asm.Register_cases [where now = now and st = st]) (use assms(2) in auto)
qed

lemma table_step_inv: "table_step cm cm' \<Longrightarrow> conn_inv cm \<Longrightarrow> conn_inv cm'"
proof (induction rule: table_step.induct)
  case (register os t timed_out now st a cm res cm')
  then show ?case by (blast intro: Register_result_inv)
next
  case (deregister os t timed_out a cm cm')
  then show ?case using asm.Deregister_ok [of cm os t timed_out a] by auto
next
  case (stale os t timed_out now cm cm')
  then show ?case using asm.removeStaleConnections_ok [of cm os t timed_out now] by auto
next
  case (stop os t timed_out cm cm')
  then have "\<not> cm_stopped cm" by (auto simp: Stop_cm_def)
  with stop show ?case using asm.Stop_ok [of cm os t timed_out] by auto
qed (auto intro: send_to_conn_inv take_inv UpdateLastSeen_inv)

lemma table_reach_inv:
  "table_reach pm cm \<Longrightarrow> pm_inv pm \<Longrightarrow> allocatedPorts pm = [] \<Longrightarrow> conn_inv cm"
  by (induction rule: table_reach.induct) (auto intro: conn_inv_new table_step_inv)

lemma processMessage_inv:
  assumes inv: "cm_inv ok port (srv_connManager s)"
    and out: "Ok (err, s') \<in> set (processMessage expired uid a msg s)"
  shows "cm_inv ok port (srv_connManager s')"
proof (cases "msg_Type msg = PING")
  case True
  with out obtain cm' where "Ok (err, cm') \<in> set (SendToAgent expired a
      \<lparr>msg_Id = uid, msg_Type = PONG, msg_Payload = [], msg_Metadata = []\<rparr> (srv_connManager s))"
      and s': "srv_connManager s' = cm'"
    by (auto simp: processMessage_def elim!: lbind_cases)
  moreover have "cm_wf (srv_connManager s)" using inv by (simp add: cm_inv_def)
  ultimately show ?thesis
    using inv send_to_conn_inv [OF inv cm_wf_entry(1)] unfolding SendToAgent_def
    by (cases "map_of (cm_agents (srv_connManager s)) a") auto
next
  case False
  have "srv_connManager s1 = srv_connManager s" if "HandleResponse msg s = Ok s1" for s1
    using that by (auto simp: HandleResponse_def deliver_response_def split: option.splits)
  then have "srv_connManager s' = srv_connManager s"
    using False out by (cases "msg_Type msg") (auto simp: processMessage_def)
  with inv show ?thesis by simp
qed

lemma open_stream_inv:
  assumes inv: "conn_inv (srv_connManager s)"
    and out: "Ok (res, s') \<in> set (open_stream (asm_iface os t timed_out) now now' expired uid st (Inr first) s)"
    and a: "metadata_get first ''agent_id'' = a" "a \<noteq> []"
  shows "conn_inv (srv_connManager s') \<and> (case res of
      Inl e \<Rightarrow> map_of (cm_agents (srv_connManager s')) a = None \<and> served (srv_connManager s') a = None
    | Inr (b, conn) \<Rightarrow> b = a)"
proof -
  obtain r1 cm1 where reg: "Register (asm_iface os t timed_out) now st a (srv_connManager s) = Ok (r1, cm1)"
      "conn_inv cm1" "\<And>e. r1 = Inl e \<Longrightarrow> map_of (cm_agents cm1) a = None \<and> served cm1 a = None"
    using Register_effect [OF inv, of os t timed_out now st a] by fastforce
  show ?thesis
  proof (cases r1)
    case (Inl e)
    with out a reg show ?thesis by (simp add: open_stream_def)
  next
    case (Inr r)
    let ?s2 = "s\<lparr>srv_connManager := UpdateLastSeen now' a cm1\<rparr>"
    from out a reg(1) Inr obtain err where
      p: "Ok (err, s') \<in> set (processMessage expired uid a first ?s2 :: (asm_error cm_error option \<times> _) outcome list)"
      and res: "res = Inr (a, r)"
      by (auto simp: open_stream_def elim!: lbind_cases)
    have "conn_inv (srv_connManager ?s2)" using UpdateLastSeen_inv [OF reg(2)] by simp
    from processMessage_inv [OF this p] res show ?thesis by simp
  qed
qed

text \<open>The send loop takes messages in order and loses at most the one whose transmission failed.\<close>

lemma sendLoop_order:
  assumes "Ok (err, sent', ch') \<in> set (sendLoop evs sent ch)"
  shows "\<exists>n lost. sent' @ lost @ chan_buf ch' = sent @ chan_buf ch @ concat (map se_queued (take n evs)) \<and>
    length lost \<le> 1 \<and> (err = None \<longrightarrow> lost = [])"
  using assms
proof (induction evs sent ch arbitrary: rule: sendLoop.induct)
  case (1 sent ch)
  then show ?case by simp
next
  case (2 ev evs sent ch)
  let ?ch = "ch\<lparr>chan_buf := chan_buf ch @ se_queued ev, chan_closed := chan_closed ch \<or> se_closed ev\<rparr>"
  have now: ?case if "sent' @ lost @ chan_buf ch' = sent @ chan_buf ?ch" "length lost \<le> 1" "err = None \<longrightarrow> lost = []" for lost
    using that by (intro exI [of _ "Suc 0"] exI [of _ lost]) simp
  consider "err = None" "sent' = sent" "chan_buf ch' = chan_buf ?ch"
    | msg rest where "chan_buf ?ch = msg # rest" "err \<noteq> None" "sent' = sent" "chan_buf ch' = rest"
    | msg rest where "chan_buf ?ch = msg # rest" "se_err ev = None"
        "Ok (err, sent', ch') \<in> set (sendLoop evs (sent @ [msg]) (?ch\<lparr>chan_buf := rest\<rparr>))"
    using "2.prems" by (auto simp: Let_def chan_try_recv_def split: if_splits list.splits option.splits)
  then show ?case
  proof cases
    case 1
    then show ?thesis by (intro now [of "[]"]) simp_all
  next
    case (2 msg rest)
    then show ?thesis by (intro now [of "[msg]"]) simp_all
  next
    case (3 msg rest)
    have "chan_try_recv ?ch = Some (Some msg, ?ch\<lparr>chan_buf := rest\<rparr>)"
      using 3(1) by (simp add: chan_try_recv_def)
    from "2.IH" [OF refl this refl refl 3(2,3)] obtain n lost where
      n: "sent' @ lost @ chan_buf ch' = (sent @ [msg]) @ rest @ concat (map se_queued (take n evs))"
        "length lost \<le> 1" "err = None \<longrightarrow> lost = []"
      by auto
    moreover have "chan_buf ch @ se_queued ev = msg # rest" using 3(1) by simp
    ultimately show ?thesis by (intro exI [of _ "Suc n"] exI [of _ lost]) simp
  qed
qed

section \<open>Properties\<close>

text \<open>
  C4 (invariant): in every interleaving of registrations, deregistrations, sends, receives, time
  stamps, cleanups and the stop, the connections in the table are open, all others are cancelled
  with their channel closed, and HTTP servers run only for registered agents, on the port that the
  agent's connection records; and no registration, deregistration or cleanup can panic by closing a
  channel twice.
\<close>

theorem table_interleavings_safe:
  assumes "table_reach pm cm" "pm_inv pm" "allocatedPorts pm = []"
  shows "(\<forall>r < length (cm_heap cm). let c = cm_heap cm ! r in
        ac_cancelled c = chan_closed (ac_SendCh c) \<and>
        (ac_cancelled c \<longleftrightarrow> map_of (cm_agents cm) (ac_ID c) \<noteq> Some r)) \<and>
    (\<forall>a p. served cm a = Some p \<longrightarrow> (\<exists>r. map_of (cm_agents cm) a = Some r \<and> ac_Port (cm_heap cm ! r) = p)) \<and>
    Register (asm_iface os t timed_out) now st a cm \<noteq> Panic \<and> Deregister (asm_iface os t timed_out) a cm \<noteq> Panic \<and>
    removeStaleConnections (asm_iface os t timed_out) now cm \<noteq> Panic"
proof -
  have inv: "conn_inv cm" by (rule table_reach_inv [OF assms])
  have "Register (asm_iface os t timed_out) now st a cm \<noteq> Panic"
    using Register_effect [OF inv, of os t timed_out now st a] by auto
  moreover have "Deregister (asm_iface os t timed_out) a cm \<noteq> Panic"
    using asm.Deregister_ok [OF inv, of os t timed_out a] by auto
  moreover have "removeStaleConnections (asm_iface os t timed_out) now cm \<noteq> Panic"
    using asm.removeStaleConnections_ok [OF inv, of os t timed_out now] by auto
  moreover have "\<forall>r < length (cm_heap cm). let c = cm_heap cm ! r in
      ac_cancelled c = chan_closed (ac_SendCh c) \<and>
      (ac_cancelled c \<longleftrightarrow> map_of (cm_agents cm) (ac_ID c) \<noteq> Some r)"
    using inv unfolding cm_inv_def cm_wf_def conn_ok_def Let_def by blast
  ultimately show ?thesis using cm_inv_port [OF inv] by blast
qed

theorem table_interleavings_safe_witness:
  "\<exists>cm. table_reach example_pool cm \<and> ListConnections cm = [''a''] \<and>
     Deregister (asm_iface (\<lambda>k p. True) 7 (\<lambda>a. False)) ''a'' cm \<noteq> Panic"
proof -
  let ?cm = "NewConnectionManager (Some (NewAgentServerManager example_pool))"
  have "\<exists>cm'. Register (asm_iface (\<lambda>k p. True) 7 (\<lambda>a. False)) 7 0 ''a'' ?cm = Ok (Inr 0, cm') \<and>
      ListConnections cm' = [''a'']"
    by (simp add: Register_def NewConnectionManager_def asm_iface_def StartAgentServer_def start_attempts.simps
        maxPortBindRetries_def Allocate_def chan_try_recv_def net_listen_def Let_def NewAgentServerManager_def
        example_pool_def add_conn_def ListConnections_def)
  then obtain cm' where "Register (asm_iface (\<lambda>k p. True) 7 (\<lambda>a. False)) 7 0 ''a'' ?cm = Ok (Inr 0, cm')"
      and l: "ListConnections cm' = [''a'']"
    by blast
  then have reach: "table_reach example_pool cm'"
    by (intro table_reach.step [OF table_reach.init] table_step.register)
  with table_interleavings_safe [OF reach example_pool_inv] l show ?thesis by blast
qed

text \<open>
  C18 (error): when an agent reconnects before its old stream has ended, the registration of the new
  stream cancels the old connection; the old handler's \<^verbatim>\<open>select\<close> then has exactly one way to go on, and
  its deferred \<open>Deregister\<close> removes the connection of the new stream: the agent ends up
  unregistered, its new connection closed and its HTTP server stopped.
\<close>

theorem reconnect_is_torn_down:
  assumes inv: "conn_inv cm" and old: "map_of (cm_agents cm) a = Some r1"
    and reg: "Register (asm_iface os t timed_out) now st a cm = Ok (Inr r2, cm2)"
  shows "map_of (cm_agents cm2) a = Some r2 \<and> \<not> ac_cancelled (cm_heap cm2 ! r2) \<and>
    (stream_select [] r1 cm2 :: asm_error handle_error option outcome list) = [Ok (Some ContextCanceled)] \<and>
    (\<exists>cm3. Deregister (asm_iface os' t' timed_out') a cm2 = Ok cm3 \<and> map_of (cm_agents cm3) a = None \<and>
       ac_cancelled (cm_heap cm3 ! r2) \<and> chan_closed (ac_SendCh (cm_heap cm3 ! r2)) \<and> served cm3 a = None)"
proof -
  have wf: "cm_wf cm" using inv by (simp add: cm_inv_def)
  have r1: "r1 < length (cm_heap cm)" using cm_wf_entry(1) [OF wf old] .
  from Register_effect [OF inv, of os t timed_out now st a] reg
  have inv2: "conn_inv cm2" and r2: "map_of (cm_agents cm2) a = Some r2"
    and heap: "\<forall>r < length (cm_heap cm). cm_heap cm2 ! r =
       (if map_of (cm_agents cm) a = Some r then closed_conn (cm_heap cm ! r) else cm_heap cm ! r)"
    by (auto simp del: all_simps)
  have wf2: "cm_wf cm2" using inv2 by (simp add: cm_inv_def)
  have "ac_cancelled (cm_heap cm2 ! r1)" using heap old r1 by simp
  then have sel: "(stream_select [] r1 cm2 :: asm_error handle_error option outcome list) = [Ok (Some ContextCanceled)]"
    by (simp add: stream_select_def)
  obtain cm3 where "Deregister (asm_iface os' t' timed_out') a cm2 = Ok cm3"
      "cm_agents cm3 = AList.delete a (cm_agents cm2)"
      "cm_heap cm3 = (case map_of (cm_agents cm2) a of
         Some r \<Rightarrow> (cm_heap cm2)[r := closed_conn (cm_heap cm2 ! r)] | None \<Rightarrow> cm_heap cm2)"
      "served cm3 = (served cm2)(a := None)"
    using asm.Deregister_ok [OF inv2, of os' t' timed_out' a] by (elim exE conjE) (rule that; assumption)
  with r2 cm_wf_entry(1,4) [OF wf2 r2] sel show ?thesis
    by (simp add: go_map closed_conn_def)
qed

theorem reconnect_is_torn_down_witness:
  "\<exists>cm2 cm3. Register (asm_iface (\<lambda>k p. True) 7 (\<lambda>a. False)) 7 1 ''a'' example_cm = Ok (Inr 1, cm2) \<and>
     map_of (cm_agents cm2) ''a'' = Some 1 \<and>
     Deregister (asm_iface (\<lambda>k p. True) 7 (\<lambda>a. False)) ''a'' cm2 = Ok cm3 \<and> map_of (cm_agents cm3) ''a'' = None"
proof -
  have "\<exists>cm'. Register (asm_iface (\<lambda>k p. True) 7 (\<lambda>a. False)) 7 1 ''a'' example_cm = Ok (Inr 1, cm')"
    by (simp add: Register_def example_cm_def example_conn_def example_asm_def drop_conn_def close_conn_def
        stop_server_def delete_agent_def asm_iface_def StopAgentServer_def stop_detach_def stop_shutdown_def
        close_listener_def release_port_def Release_def chan_send_def chan_room_def chan_push_def
        StartAgentServer_def start_attempts.simps maxPortBindRetries_def Allocate_def chan_try_recv_def
        net_listen_def Let_def make_chan_def)
  then obtain cm2 where reg: "Register (asm_iface (\<lambda>k p. True) 7 (\<lambda>a. False)) 7 1 ''a'' example_cm = Ok (Inr 1, cm2)"
    by blast
  have "map_of (cm_agents example_cm) ''a'' = Some 0" by (simp add: example_cm_def)
  from reconnect_is_torn_down [OF example_cm_inv this reg] reg show ?thesis by blast
qed

text \<open>
  C38 (safety): whenever \<open>HandleStream\<close> returns, for whatever reason, and whatever the other goroutines
  did in the meantime to the table, the agent named in the first message is not registered any more
  and has no HTTP server, and the table is in order.
\<close>

theorem HandleStream_cleans_up:
  assumes inv: "conn_inv (srv_connManager s)"
    and others: "\<And>s1. conn_inv (srv_connManager s1) \<Longrightarrow> conn_inv (srv_connManager (others s1))"
    and a: "metadata_get first ''agent_id'' = a" "a \<noteq> []"
    and out: "Ok (ret, s') \<in> set (HandleStream (asm_iface os t timed_out) now now' expired uid st (Inr first) others errs s)"
  shows "conn_inv (srv_connManager s') \<and> map_of (cm_agents (srv_connManager s')) a = None \<and>
    served (srv_connManager s') a = None"
  using out unfolding HandleStream_def
proof (cases rule: lbind_cases)
  case (ok x)
  obtain res s1 where x: "x = (res, s1)" by (cases x)
  note o = open_stream_inv [OF inv ok(1) [unfolded x] a]
  show ?thesis
  proof (cases res)
    case (Inl e)
    with ok(2) x o show ?thesis by simp
  next
    case (Inr bc)
    with o obtain conn where res: "res = Inr (a, conn)" and inv1: "conn_inv (srv_connManager s1)"
      by (cases bc) auto
    have inv2: "conn_inv (srv_connManager (others s1))" using others inv1 .
    from ok(2) x res obtain cm where d: "Deregister (asm_iface os t timed_out) a (srv_connManager (others s1)) = Ok cm"
        and s': "srv_connManager s' = cm"
      by (auto simp: Let_def elim!: lbind_cases)
    from asm.Deregister_ok [OF inv2, of os t timed_out a] d s' show ?thesis
      by (auto simp: go_map)
  qed
qed simp_all

theorem HandleStream_cleans_up_witness:
  "\<exists>ret s'. Ok (ret, s') \<in> set (HandleStream (asm_iface (\<lambda>k p. True) 7 (\<lambda>a. False)) 7 8 False ''u'' 0
       (Inr \<lparr>msg_Id = ''1'', msg_Type = UNKNOWN, msg_Payload = '''', msg_Metadata = [(''agent_id'', ''a'')]\<rparr>)
       (\<lambda>s. s) [StreamEOF] ((NewServer 9090 None)\<lparr>srv_connManager := example_cm\<rparr>)) \<and>
     map_of (cm_agents (srv_connManager s')) ''a'' = None"
proof -
  let ?s = "(NewServer 9090 None)\<lparr>srv_connManager := example_cm\<rparr>"
  let ?m = "\<lparr>msg_Id = ''1'', msg_Type = UNKNOWN, msg_Payload = '''', msg_Metadata = [(''agent_id'', ''a'')]\<rparr>"
  let ?I = "asm_iface (\<lambda>k p. True) 7 (\<lambda>a. False)"
  have "\<exists>s'. Ok (None, s') \<in> set (HandleStream ?I 7 8 False ''u'' 0 (Inr ?m) (\<lambda>s. s) [StreamEOF] ?s)"
    by (simp add: HandleStream_def open_stream_def metadata_get_def NewServer_def processMessage_def
        stream_select_def Register_def example_cm_def example_conn_def example_asm_def drop_conn_def close_conn_def
        stop_server_def delete_agent_def asm_iface_def StopAgentServer_def stop_detach_def stop_shutdown_def
        close_listener_def release_port_def Release_def chan_send_def chan_room_def chan_push_def
        StartAgentServer_def start_attempts.simps maxPortBindRetries_def Allocate_def chan_try_recv_def
        net_listen_def Let_def make_chan_def add_conn_def UpdateLastSeen_def Deregister_def)
  then obtain s' where s': "Ok (None, s') \<in> set (HandleStream ?I 7 8 False ''u'' 0 (Inr ?m) (\<lambda>s. s) [StreamEOF] ?s)"
    by blast
  have "conn_inv (srv_connManager ?s)" using example_cm_inv by simp
  from HandleStream_cleans_up [OF this _ _ _ s', of "''a''"] s' show ?thesis
    by (auto simp: metadata_get_def)
qed

text \<open>
  The send loop transmits the messages of the agent's queue in the order in which they
  were queued, and when it returns, everything queued up to then was either sent, or is still in the
  channel, or is the one message whose transmission failed.
\<close>

theorem sendLoop_fifo:
  assumes "Ok (err, sent, ch') \<in> set (sendLoop evs [] ch)"
  shows "prefix sent (chan_buf ch @ concat (map se_queued evs)) \<and>
    (\<exists>n lost. sent @ lost @ chan_buf ch' = chan_buf ch @ concat (map se_queued (take n evs)) \<and>
      length lost \<le> 1 \<and> (err = None \<longrightarrow> lost = []))"
proof -
  from sendLoop_order [OF assms] obtain n lost where
    n: "sent @ lost @ chan_buf ch' = chan_buf ch @ concat (map se_queued (take n evs))"
      "length lost \<le> 1" "err = None \<longrightarrow> lost = []"
    by auto
  have "chan_buf ch @ concat (map se_queued evs)
      = sent @ (lost @ chan_buf ch' @ concat (map se_queued (drop n evs)))"
    using n(1) by (metis append.assoc append_take_drop_id concat_append map_append)
  then have "prefix sent (chan_buf ch @ concat (map se_queued evs))" by (rule prefixI)
  with n show ?thesis by blast
qed

theorem sendLoop_fifo_witness:
  "let m = \<lambda>i. \<lparr>msg_Id = i, msg_Type = PONG, msg_Payload = '''', msg_Metadata = []\<rparr>;
       ev = \<lparr>se_queued = [m ''2''], se_closed = True, se_done = False, se_err = None\<rparr>;
       ch = \<lparr>chan_buf = [m ''1''], chan_cap = 100, chan_closed = False\<rparr>;
       e0 = ev\<lparr>se_queued := []\<rparr>
   in Ok (None, [m ''1'', m ''2''], ch\<lparr>chan_buf := [], chan_closed := True\<rparr>) \<in> set (sendLoop [ev, e0, e0] [] ch) \<and>
      prefix [m ''1'', m ''2''] ([m ''1''] @ concat (map se_queued [ev, e0, e0]))"
proof -
  let ?m = "\<lambda>i. \<lparr>msg_Id = i, msg_Type = PONG, msg_Payload = '''', msg_Metadata = []\<rparr>"
  let ?ev = "\<lparr>se_queued = [?m ''2''], se_closed = True, se_done = False, se_err = None\<rparr>"
  let ?ch = "\<lparr>chan_buf = [?m ''1''], chan_cap = 100, chan_closed = False\<rparr>"
  let ?e0 = "?ev\<lparr>se_queued := []\<rparr>"
  have ok: "Ok (None, [?m ''1'', ?m ''2''], ?ch\<lparr>chan_buf := [], chan_closed := True\<rparr>)
      \<in> set (sendLoop [?ev, ?e0, ?e0] [] ?ch)"
    by (simp add: chan_try_recv_def)
  from sendLoop_fifo [OF this]
  have "prefix [?m ''1'', ?m ''2''] (chan_buf ?ch @ concat (map se_queued [?ev, ?e0, ?e0]))" ..
  with ok show ?thesis unfolding Let_def chan.simps by (rule conjI)
qed

end
