(* ===== verification/Http_Text.thy ===== *)
theory Http_Text
  imports Silo_Prelude "HOL-Library.Sublist"
begin

text \<open>
  What the program uses of the text functions of Go's standard library: decimal numbers
  (\<^verbatim>\<open>strconv.Itoa\<close>, \<^verbatim>\<open>strconv.Atoi\<close>), canonical header names and header maps
  (\<^verbatim>\<open>textproto.CanonicalMIMEHeaderKey\<close>, \<^verbatim>\<open>http.Header.Set\<close>), prefixes of strings.
\<close>

section \<open>Decimal numbers\<close>

definition digit_char :: "nat \<Rightarrow> char" where
  "digit_char d = char_of (48 + d)"

fun digits :: "nat \<Rightarrow> string" where
  "digits n = (if n < 10 then [digit_char n] else digits (n div 10) @ [digit_char (n mod 10)])"

declare digits.simps [simp del]

definition Itoa :: "int \<Rightarrow> string" where
  "Itoa i = (if i < 0 then CHR ''-'' # digits (nat (- i)) else digits (nat i))"

definition is_digit :: "char \<Rightarrow> bool" where
  "is_digit c \<longleftrightarrow> 48 \<le> (of_char c :: nat) \<and> (of_char c :: nat) \<le> 57"

fun parse_digits :: "nat \<Rightarrow> string \<Rightarrow> nat option" where
  "parse_digits acc [] = Some acc"
| "parse_digits acc (c # cs) =
     (if is_digit c then parse_digits (acc * 10 + (of_char c - 48)) cs else None)"

text \<open>\<^verbatim>\<open>Atoi\<close>: \<open>None\<close> is a syntax error or a number outside \<^verbatim>\<open>int\<close>.\<close>

definition Atoi :: "string \<Rightarrow> int option" where
  "Atoi s =
     (let neg = (s \<noteq> [] \<and> hd s = CHR ''-'');
          ds = (if s \<noteq> [] \<and> (hd s = CHR ''-'' \<or> hd s = CHR ''+'') then tl s else s) in
      if ds = [] then None
      else
        case parse_digits 0 ds of
          None \<Rightarrow> None
        | Some n \<Rightarrow>
            let v = (if neg then - int n else int n) in
            if - (2 ^ 63) \<le> v \<and> v < 2 ^ 63 then Some v else None)"

lemma of_digit_char: "d < 10 \<Longrightarrow> (of_char (digit_char d) :: nat) = 48 + d"
  by (simp add: digit_char_def)

lemma is_digit_char: "d < 10 \<Longrightarrow> is_digit (digit_char d)"
  by (simp add: is_digit_def of_digit_char)

lemma parse_digits_append:
  "parse_digits acc (xs @ ys) = (case parse_digits acc xs of None \<Rightarrow> None | Some n \<Rightarrow> parse_digits n ys)"
  by (induction xs arbitrary: acc) auto

lemma digits_head: "\<exists>c cs. digits n = c # cs \<and> is_digit c"
proof (induction n rule: digits.induct)
  case (1 n)
  show ?case
  proof (cases "n < 10")
    case True
    then show ?thesis by (simp add: digits.simps [of n] is_digit_char)
  next
    case False
    with "1.IH" show ?thesis by (auto simp: digits.simps [of n])
  qed
qed

lemma parse_digits_digits: "parse_digits 0 (digits n) = Some n"
proof (induction n rule: digits.induct)
  case (1 n)
  show ?case
  proof (cases "n < 10")
    case True
    then show ?thesis by (simp add: digits.simps [of n] is_digit_char of_digit_char)
  next
    case False
    with "1.IH" show ?thesis
      by (simp add: digits.simps [of n] parse_digits_append is_digit_char of_digit_char)
  qed
qed

lemma Atoi_Itoa:
  assumes "- (2 ^ 63) \<le> i" "i < 2 ^ 63" shows "Atoi (Itoa i) = Some i"
proof -
  obtain c cs where d: "digits (nat \<bar>i\<bar>) = c # cs" "is_digit c" using digits_head by blast
  have sign: "c \<noteq> CHR ''-''" "c \<noteq> CHR ''+''" using d(2) by (auto simp: is_digit_def)
  show ?thesis
  proof (cases "i < 0")
    case True
    then have "Itoa i = CHR ''-'' # c # cs" using d(1) by (simp add: Itoa_def)
    then show ?thesis
      using True assms parse_digits_digits [of "nat \<bar>i\<bar>"] d(1) by (simp add: Atoi_def Let_def)
  next
    case False
    then have "Itoa i = c # cs" using d(1) by (simp add: Itoa_def)
    then show ?thesis
      using False assms parse_digits_digits [of "nat \<bar>i\<bar>"] d(1) sign by (simp add: Atoi_def Let_def)
  qed
qed

section \<open>Header names\<close>

definition is_upper :: "char \<Rightarrow> bool" where
  "is_upper c \<longleftrightarrow> 65 \<le> (of_char c :: nat) \<and> (of_char c :: nat) \<le> 90"

definition is_lower :: "char \<Rightarrow> bool" where
  "is_lower c \<longleftrightarrow> 97 \<le> (of_char c :: nat) \<and> (of_char c :: nat) \<le> 122"

definition to_upper :: "char \<Rightarrow> char" where
  "to_upper c = (if is_lower c then char_of (of_char c - 32 :: nat) else c)"

definition to_lower :: "char \<Rightarrow> char" where
  "to_lower c = (if is_upper c then char_of (of_char c + 32 :: nat) else c)"

definition validHeaderFieldByte :: "char \<Rightarrow> bool" where
  "validHeaderFieldByte c \<longleftrightarrow> is_digit c \<or> is_upper c \<or> is_lower c \<or> c \<in> set ''!#$%&*+-.^_`|~'' \<or> (of_char c :: nat) = 39"

fun canonical_bytes :: "bool \<Rightarrow> string \<Rightarrow> string" where
  "canonical_bytes upper [] = []"
| "canonical_bytes upper (c # cs) =
     (let c' = (if upper then to_upper c else to_lower c) in c' # canonical_bytes (c' = CHR ''-'') cs)"

definition CanonicalHeaderKey :: "string \<Rightarrow> string" where
  "CanonicalHeaderKey k = (if list_all validHeaderFieldByte k then canonical_bytes True k else k)"

type_synonym http_header = "(string, string list) gomap"

definition header_set :: "string \<Rightarrow> string \<Rightarrow> http_header \<Rightarrow> http_header" where
  "header_set k v h = AList.update (CanonicalHeaderKey k) [v] h"

lemma is_upper_to_upper: "is_lower c \<Longrightarrow> is_upper (to_upper c)"
  by (auto simp: to_upper_def is_lower_def is_upper_def)

lemma is_lower_to_lower: "is_upper c \<Longrightarrow> is_lower (to_lower c)"
  by (simp add: to_lower_def is_lower_def is_upper_def)

lemma upper_not_lower: "is_upper c \<Longrightarrow> \<not> is_lower c"
  by (simp add: is_upper_def is_lower_def)

lemma to_upper_idem [simp]: "to_upper (to_upper c) = to_upper c"
proof (cases "is_lower c")
  case True
  from upper_not_lower [OF is_upper_to_upper [OF this]] show ?thesis by (simp add: to_upper_def [of "to_upper c"])
qed (simp add: to_upper_def)

lemma to_lower_idem [simp]: "to_lower (to_lower c) = to_lower c"
proof (cases "is_upper c")
  case True
  from is_lower_to_lower [OF this] upper_not_lower show ?thesis by (auto simp: to_lower_def [of "to_lower c"])
qed (simp add: to_lower_def)

lemma validHeaderFieldByte_case [simp]:
  "validHeaderFieldByte c \<Longrightarrow> validHeaderFieldByte (to_upper c)"
  "validHeaderFieldByte c \<Longrightarrow> validHeaderFieldByte (to_lower c)"
  using is_upper_to_upper [of c] is_lower_to_lower [of c]
  by (auto simp: validHeaderFieldByte_def to_upper_def [of c] to_lower_def [of c] split: if_splits)

lemma canonical_bytes_idem: "canonical_bytes u (canonical_bytes u k) = canonical_bytes u k"
  by (induction k arbitrary: u) (simp_all add: Let_def)

lemma canonical_bytes_valid:
  "list_all validHeaderFieldByte k \<Longrightarrow> list_all validHeaderFieldByte (canonical_bytes u k)"
  by (induction k arbitrary: u) (simp_all add: Let_def)

lemma CanonicalHeaderKey_idem [simp]: "CanonicalHeaderKey (CanonicalHeaderKey k) = CanonicalHeaderKey k"
  by (simp add: CanonicalHeaderKey_def canonical_bytes_idem canonical_bytes_valid)

lemma map_of_header_set [go_map]:
  "map_of (header_set k v h) = (map_of h)(CanonicalHeaderKey k \<mapsto> [v])"
  by (simp add: header_set_def go_map)

end
