(* ===== verification/Request_Handler.thy ===== *)
theory Request_Handler
  imports Proxy_Message Http_Text
begin

text \<open>
  \<^verbatim>\<open>internal/grpc/client/request_handler.go\<close>: the agent's side of a forwarded request.  The message is
  turned into an HTTP request to the local service, and the service's response into a message.
  The HTTP client and the local service are the fields of \<open>http_env\<close>: whether \<^verbatim>\<open>http.NewRequest\<close>
  accepts a method and a URL, and what \<^verbatim>\<open>Do\<close> returns; errors are their texts, which the agent forwards.
\<close>

section \<open>Operations\<close>

record LocalRequest =
  lr_Method :: string
  lr_URL :: string
  lr_Header :: http_header
  lr_Body :: bytes

record LocalResponse =
  lp_StatusCode :: int
  lp_Header :: http_header
  lp_Body :: "string + bytes"

record http_env =
  NewRequest_error :: "string \<Rightarrow> string \<Rightarrow> string option"
  Do :: "LocalRequest \<Rightarrow> string + LocalResponse"

text \<open>\<^verbatim>\<open>http.NewRequest\<close> takes an empty method for \<^verbatim>\<open>GET\<close>.\<close>

definition local_request :: "string \<Rightarrow> ProxyMessage \<Rightarrow> LocalRequest" where
  "local_request localURL msg =
     (let method = metadata_get msg ''method'';
          path = metadata_get msg ''path'';
          query = metadata_get msg ''query'';
          url = (if query \<noteq> [] then localURL @ path @ ''?'' @ query else localURL @ path);
          h = fold (\<lambda>(key, v) h. if prefix ''header_'' key then header_set (drop 7 key) v h else h)
                (msg_Metadata msg) [];
          h' = (case map_of (msg_Metadata msg) ''content_type'' of
                  Some contentType \<Rightarrow> if contentType \<noteq> [] then header_set ''Content-Type'' contentType h else h
                | None \<Rightarrow> h)
      in \<lparr>lr_Method = (if method = [] then ''GET'' else method), lr_URL = url, lr_Header = h',
          lr_Body = msg_Payload msg\<rparr>)"

definition response_metadata :: "LocalResponse \<Rightarrow> (string, string) gomap" where
  "response_metadata resp =
     fold (\<lambda>(key, vals) md. case vals of v # _ \<Rightarrow> AList.update (''header_'' @ key) v md | [] \<Rightarrow> md)
       (lp_Header resp) [(''status_code'', Itoa (lp_StatusCode resp))]"

definition HandleRequest :: "http_env \<Rightarrow> string \<Rightarrow> ProxyMessage \<Rightarrow> string + ProxyMessage" where
  "HandleRequest env localURL msg =
     (let req = local_request localURL msg in
      case NewRequest_error env (metadata_get msg ''method'') (lr_URL req) of
        Some err \<Rightarrow> Inl (''failed to create request: '' @ err)
      | None \<Rightarrow>
          (case Do env req of
             Inl err \<Rightarrow> Inl (''failed to execute request: '' @ err)
           | Inr resp \<Rightarrow>
               (case lp_Body resp of
                  Inl err \<Rightarrow> Inl (''failed to read response body: '' @ err)
                | Inr body \<Rightarrow>
                    Inr \<lparr>msg_Id = msg_Id msg, msg_Type = RESPONSE, msg_Payload = body,
                         msg_Metadata = response_metadata resp\<rparr>)))"

section \<open>Headers through the metadata\<close>

text \<open>
  The headers that the agent sets, as a map: whatever the order in which the metadata is visited, the
  header \<open>k\<close> gets the value stored under \<^verbatim>\<open>header_k\<close>.
\<close>

definition canonical_metadata :: "(string, string) gomap \<Rightarrow> bool" where
  "canonical_metadata md \<longleftrightarrow> gomap_ok md \<and>
     (\<forall>key\<in>keys md. prefix ''header_'' key \<longrightarrow> CanonicalHeaderKey (drop 7 key) = drop 7 key)"

lemma prefix_header_drop: "prefix ''header_'' key \<Longrightarrow> ''header_'' @ drop 7 key = key"
  by (auto simp: prefix_def)

lemma fold_metadata_headers:
  assumes "canonical_metadata md"
  shows "map_of (fold (\<lambda>(key, v) h. if prefix ''header_'' key then header_set (drop 7 key) v h else h) md h) k =
    (case map_of md (''header_'' @ k) of Some v \<Rightarrow> Some [v] | None \<Rightarrow> map_of h k)"
  using assms
proof (induction md arbitrary: h)
  case Nil
  then show ?case by simp
next
  case (Cons e md)
  obtain key v where e: "e = (key, v)" by (cases e)
  have md: "canonical_metadata md" using Cons.prems by (simp add: canonical_metadata_def gomap_ok_def)
  have new: "map_of md key = None"
    using Cons.prems by (simp add: canonical_metadata_def gomap_ok_def e map_of_eq_None_iff)
  show ?case
  proof (cases "prefix ''header_'' key")
    case True
    note key = prefix_header_drop [OF True]
    have canon: "CanonicalHeaderKey (drop 7 key) = drop 7 key"
      using Cons.prems True by (simp add: canonical_metadata_def e)
    have iff: "key = ''header_'' @ k \<longleftrightarrow> k = drop 7 key" using key by auto
    show ?thesis
    proof (cases "k = drop 7 key")
      case True': True
      with key have "''header_'' @ k = key" by simp
      with Cons.IH [OF md] True True' new canon show ?thesis by (simp add: e go_map)
    next
      case False
      then have "key \<noteq> ''header_'' @ k" using iff by blast
      with Cons.IH [OF md] True False canon show ?thesis by (simp add: e go_map split: option.split)
    qed
  next
    case False
    then have "key \<noteq> ''header_'' @ k" by auto
    with Cons.IH [OF md] False show ?thesis by (simp add: e)
  qed
qed

text \<open>The metadata that a response header becomes.\<close>

lemma response_metadata_lookup:
  assumes "gomap_ok (lp_Header resp)"
  shows "map_of (response_metadata resp) (''header_'' @ k) =
      (case map_of (lp_Header resp) k of Some (v # vs) \<Rightarrow> Some v | _ \<Rightarrow> None)"
    "map_of (response_metadata resp) ''status_code'' = Some (Itoa (lp_StatusCode resp))"
proof -
  let ?f = "\<lambda>(key, vals) md. case vals of v # _ \<Rightarrow> AList.update (''header_'' @ key) v md | [] \<Rightarrow> md"
  have gen: "map_of (fold ?f hs md) (''header_'' @ k) =
      (case map_of hs k of Some (v # vs) \<Rightarrow> Some v | _ \<Rightarrow> map_of md (''header_'' @ k))"
    if "gomap_ok hs" for hs :: http_header and md :: "(string, string) gomap"
    using that
  proof (induction hs arbitrary: md)
    case Nil
    then show ?case by simp
  next
    case (Cons e hs)
    obtain key vals where e: "e = (key, vals)" by (cases e)
    have "gomap_ok hs" "map_of hs key = None"
      using Cons.prems by (simp_all add: gomap_ok_def e map_of_eq_None_iff)
    with Cons.IH show ?case
      by (cases "key = k") (auto simp: e go_map split: list.split option.split)
  qed
  have status: "map_of (fold ?f hs md) ''status_code'' = map_of md ''status_code''" for hs :: http_header and md
    by (induction hs arbitrary: md) (auto simp: go_map split: list.split)
  show "map_of (response_metadata resp) (''header_'' @ k) =
      (case map_of (lp_Header resp) k of Some (v # vs) \<Rightarrow> Some v | _ \<Rightarrow> None)"
    using gen [OF assms] by (simp add: response_metadata_def split: option.split list.split)
  show "map_of (response_metadata resp) ''status_code'' = Some (Itoa (lp_StatusCode resp))"
    using status by (simp add: response_metadata_def)
qed

end
