(* ===== verification/Proxy_Handler.thy ===== *)
theory Proxy_Handler
  imports Stream_Handler Request_Handler
begin

text \<open>
  \<^verbatim>\<open>internal/api/http/handler/proxy.go\<close>: the HTTP side of a forwarded request.  The handler reads the
  request from the gin context, a record of what the code reads of it, and its effect is the sequence
  of calls it makes on the context: \<^verbatim>\<open>JSON\<close>, \<^verbatim>\<open>Header\<close>, \<^verbatim>\<open>Status\<close> and \<^verbatim>\<open>Writer.Write\<close>.
\<close>

section \<open>Operations\<close>

record ProxyContext =
  pc_Method :: string
  pc_Path :: string
  pc_RawQuery :: string
  pc_ContentType :: string
  pc_Header :: http_header
  pc_Body :: "string + bytes"

text \<open>The error text in a JSON body is a literal of the handler or the text of an error value.\<close>

datatype 'e error_body = ErrorText string | ErrorOf "'e request_error"

datatype 'e gin_call =
    GinJSON int "'e error_body"
  | GinHeader string string
  | GinStatus int
  | GinWrite bytes

definition build_request :: "string \<Rightarrow> ProxyContext \<Rightarrow> string \<Rightarrow> bytes \<Rightarrow> ProxyMessage" where
  "build_request uid c targetPath body =
     (let headers = fold (\<lambda>(key, vals) h. case vals of v # _ \<Rightarrow> AList.update key v h | [] \<Rightarrow> h) (pc_Header c) [];
          md = [(''method'', pc_Method c), (''path'', targetPath), (''query'', pc_RawQuery c),
                (''content_type'', pc_ContentType c)]
      in \<lparr>msg_Id = uid, msg_Type = REQUEST, msg_Payload = body,
          msg_Metadata = fold (\<lambda>(key, v) md. AList.update (''header_'' @ key) v md) headers md\<rparr>)"

definition header_name :: "string \<Rightarrow> string" where
  "header_name key = (if length key > 7 \<and> take 7 key = ''header_'' then drop 7 key else key)"

definition response_status :: "ProxyMessage \<Rightarrow> int" where
  "response_status response =
     (case map_of (msg_Metadata response) ''status_code'' of
        Some statusStr \<Rightarrow> (case Atoi statusStr of Some code \<Rightarrow> code | None \<Rightarrow> 200)
      | None \<Rightarrow> 200)"

definition write_response :: "ProxyMessage \<Rightarrow> 'e gin_call list" where
  "write_response response =
     map (\<lambda>(key, v). GinHeader (header_name key) v)
       (filter (\<lambda>(key, v). key \<noteq> ''status_code'' \<and> length v > 0) (msg_Metadata response)) @
     [GinStatus (response_status response), GinWrite (msg_Payload response)]"

definition forwardRequest :: "bool \<Rightarrow> bool \<Rightarrow> bool \<Rightarrow> ('m Server \<Rightarrow> 'm Server) \<Rightarrow> string \<Rightarrow> ProxyContext \<Rightarrow>
    string \<Rightarrow> string \<Rightarrow> 'm Server \<Rightarrow> ('e gin_call list \<times> 'm Server) outcome list" where
  "forwardRequest send_expired expired ctx_done others uid c agentID targetPath s =
     (case GetConnection agentID (srv_connManager s) of
        None \<Rightarrow> [Ok ([GinJSON 404 (ErrorText ''agent not found'')], s)]
      | Some conn \<Rightarrow>
          (case pc_Body c of
             Inl err \<Rightarrow> [Ok ([GinJSON 500 (ErrorText ''failed to read request body'')], s)]
           | Inr body \<Rightarrow>
               lbind (SendRequestToAgent send_expired expired ctx_done others
                        (ac_ID (cm_heap (srv_connManager s) ! conn)) (build_request uid c targetPath body) s)
                 (\<lambda>(res, s').
                    case res of
                      Inl err \<Rightarrow> [Ok ([GinJSON 504 (ErrorOf err)], s')]
                    | Inr response \<Rightarrow> [Ok (write_response response, s')])))"

definition ProxyRequestDirect :: "bool \<Rightarrow> bool \<Rightarrow> bool \<Rightarrow> ('m Server \<Rightarrow> 'm Server) \<Rightarrow> string \<Rightarrow> ProxyContext \<Rightarrow>
    string \<Rightarrow> 'm Server \<Rightarrow> ('e gin_call list \<times> 'm Server) outcome list" where
  "ProxyRequestDirect send_expired expired ctx_done others uid c agentID s =
     forwardRequest send_expired expired ctx_done others uid c agentID (pc_Path c) s"

text \<open>
  The engine of the HTTP server of one agent (\<^verbatim>\<open>createAgentEngine\<close> of the server manager) has no routes of its
  own: every request goes to the agent.
\<close>

definition createAgentEngine :: "string \<Rightarrow> bool \<Rightarrow> bool \<Rightarrow> bool \<Rightarrow> ('m Server \<Rightarrow> 'm Server) \<Rightarrow> string \<Rightarrow> ProxyContext \<Rightarrow>
    'm Server \<Rightarrow> ('e gin_call list \<times> 'm Server) outcome list" where
  "createAgentEngine agentID send_expired expired ctx_done others uid c s =
     ProxyRequestDirect send_expired expired ctx_done others uid c agentID s"

text \<open>The response that the calls produce; \<^verbatim>\<open>Header\<close> with a value that is not empty sets the header.\<close>

fun written_header :: "'e gin_call list \<Rightarrow> http_header \<Rightarrow> http_header" where
  "written_header [] h = h"
| "written_header (GinHeader k v # calls) h = written_header calls (header_set k v h)"
| "written_header (_ # calls) h = written_header calls h"

text \<open>The calls that write a status line.\<close>

fun is_status :: "'e gin_call \<Rightarrow> bool" where
  "is_status (GinJSON code b) = True"
| "is_status (GinStatus code) = True"
| "is_status _ = False"

section \<open>Metadata\<close>

definition canonical_header :: "http_header \<Rightarrow> bool" where
  "canonical_header h \<longleftrightarrow> gomap_ok h \<and> (\<forall>k\<in>keys h. CanonicalHeaderKey k = k \<and> k \<noteq> [])"

text \<open>Two messages with the same contents: the metadata may be listed in any order.\<close>

definition same_message :: "ProxyMessage \<Rightarrow> ProxyMessage \<Rightarrow> bool" where
  "same_message m m' \<longleftrightarrow> msg_Id m' = msg_Id m \<and> msg_Type m' = msg_Type m \<and> msg_Payload m' = msg_Payload m \<and>
     gomap_ok (msg_Metadata m') \<and> map_of (msg_Metadata m') = map_of (msg_Metadata m)"

lemma first_values_lookup:
  assumes "gomap_ok hs"
  shows "map_of (fold (\<lambda>(key, vals) h. case vals of v # _ \<Rightarrow> AList.update key v h | [] \<Rightarrow> h) hs h0) k =
    (case map_of hs k of Some (v # vs) \<Rightarrow> Some v | _ \<Rightarrow> map_of h0 k)"
  using assms
proof (induction hs arbitrary: h0)
  case Nil
  then show ?case by simp
next
  case (Cons e hs)
  obtain key vals where e: "e = (key, vals)" by (cases e)
  have "gomap_ok hs" "map_of hs key = None"
    using Cons.prems by (simp_all add: gomap_ok_def e map_of_eq_None_iff)
  with Cons.IH show ?case
    by (cases "key = k") (auto simp: e go_map split: list.split option.split)
qed

lemma first_values_ok:
  "gomap_ok h0 \<Longrightarrow>
    gomap_ok (fold (\<lambda>(key, vals) h. case vals of v # _ \<Rightarrow> AList.update key v h | [] \<Rightarrow> h) (hs :: http_header) h0)"
  by (induction hs arbitrary: h0) (auto split: list.split)

lemma prefixed_lookup:
  assumes "gomap_ok hs"
  shows "map_of (fold (\<lambda>(key, v) md. AList.update (''header_'' @ key) v md) hs md) key =
    (if prefix ''header_'' key then
       (case map_of hs (drop 7 key) of Some v \<Rightarrow> Some v | None \<Rightarrow> map_of md key)
     else map_of md key)"
  using assms
proof (induction hs arbitrary: md)
  case Nil
  then show ?case by simp
next
  case (Cons e hs)
  obtain k v where e: "e = (k, v)" by (cases e)
  have ok: "gomap_ok hs" and new: "map_of hs k = None"
    using Cons.prems by (simp_all add: gomap_ok_def e map_of_eq_None_iff)
  show ?case
  proof (cases "prefix ''header_'' key")
    case True
    note key = prefix_header_drop [OF True]
    then have iff: "''header_'' @ k = key \<longleftrightarrow> k = drop 7 key" by auto
    with Cons.IH [OF ok] True new show ?thesis
      by (cases "k = drop 7 key") (auto simp: e go_map split: option.split)
  next
    case False
    then have "key \<noteq> ''header_'' @ k" by auto
    with Cons.IH [OF ok] False show ?thesis by (simp add: e go_map)
  qed
qed

lemma build_request_lookup:
  assumes "gomap_ok (pc_Header c)"
  shows "map_of (msg_Metadata (build_request uid c p body)) (''header_'' @ k) =
      (case map_of (pc_Header c) k of Some (v # vs) \<Rightarrow> Some v | _ \<Rightarrow> None)"
    "map_of (msg_Metadata (build_request uid c p body)) ''method'' = Some (pc_Method c)"
    "map_of (msg_Metadata (build_request uid c p body)) ''path'' = Some p"
    "map_of (msg_Metadata (build_request uid c p body)) ''query'' = Some (pc_RawQuery c)"
    "map_of (msg_Metadata (build_request uid c p body)) ''content_type'' = Some (pc_ContentType c)"
  using first_values_lookup [OF assms, of "[]" k] prefixed_lookup [OF first_values_ok [OF gomap_ok_Nil, of "pc_Header c"]]
  by (simp_all add: build_request_def Let_def split: option.split list.split)

lemma build_request_canonical:
  assumes h: "canonical_header (pc_Header c)"
    and same: "gomap_ok md" "map_of md = map_of (msg_Metadata (build_request uid c p body))"
  shows "canonical_metadata md"
  unfolding canonical_metadata_def
proof (intro conjI ballI impI same(1))
  fix key assume "key \<in> keys md" and pre: "prefix ''header_'' key"
  then obtain v where "map_of (msg_Metadata (build_request uid c p body)) (''header_'' @ drop 7 key) = Some v"
    unfolding keys_map_of same(2) prefix_header_drop [OF pre] by auto
  then obtain vs where "map_of (pc_Header c) (drop 7 key) = Some vs"
    using h build_request_lookup(1) [of c uid p body "drop 7 key"]
    by (auto simp: canonical_header_def split: option.splits)
  then have "drop 7 key \<in> keys (pc_Header c)" by (simp add: keys_map_of)
  with h show "CanonicalHeaderKey (drop 7 key) = drop 7 key" unfolding canonical_header_def by blast
qed

text \<open>What arrives at the local service, as maps.\<close>

lemma request_translation:
  assumes h: "canonical_header (pc_Header c)" and same: "same_message (build_request uid c p body) msg"
  shows "lr_Method (local_request localURL msg) = (if pc_Method c = [] then ''GET'' else pc_Method c)"
    "lr_URL (local_request localURL msg) =
       localURL @ p @ (if pc_RawQuery c = [] then [] else ''?'' @ pc_RawQuery c)"
    "lr_Body (local_request localURL msg) = body"
    "map_of (lr_Header (local_request localURL msg)) k =
       (if k = ''Content-Type'' \<and> pc_ContentType c \<noteq> [] then Some [pc_ContentType c]
        else case map_of (pc_Header c) k of Some (v # vs) \<Rightarrow> Some [v] | _ \<Rightarrow> None)"
proof -
  have ok: "gomap_ok (pc_Header c)" using h by (simp add: canonical_header_def)
  have md: "gomap_ok (msg_Metadata msg)"
      "map_of (msg_Metadata msg) = map_of (msg_Metadata (build_request uid c p body))"
    using same by (simp_all add: same_message_def)
  note L = build_request_lookup [OF ok, of uid p body, folded md(2)]
  have ct: "CanonicalHeaderKey ''Content-Type'' = ''Content-Type''" by code_simp
  show "lr_Method (local_request localURL msg) = (if pc_Method c = [] then ''GET'' else pc_Method c)"
    using L by (simp add: local_request_def metadata_get_def Let_def)
  show "lr_URL (local_request localURL msg) =
      localURL @ p @ (if pc_RawQuery c = [] then [] else ''?'' @ pc_RawQuery c)"
    using L by (simp add: local_request_def metadata_get_def Let_def)
  show "lr_Body (local_request localURL msg) = body"
    using same by (simp add: local_request_def same_message_def build_request_def Let_def)
  have "map_of (fold (\<lambda>(key, v) h. if prefix ''header_'' key then header_set (drop 7 key) v h else h)
      (msg_Metadata msg) []) k = (case map_of (pc_Header c) k of Some (v # vs) \<Rightarrow> Some [v] | _ \<Rightarrow> None)"
    using fold_metadata_headers [OF build_request_canonical [OF h md], of "[]" k] L(1) [of k]
    by (simp split: option.split list.split)
  then show "map_of (lr_Header (local_request localURL msg)) k =
      (if k = ''Content-Type'' \<and> pc_ContentType c \<noteq> [] then Some [pc_ContentType c]
       else case map_of (pc_Header c) k of Some (v # vs) \<Rightarrow> Some [v] | _ \<Rightarrow> None)"
    using L(5) by (simp add: local_request_def Let_def ct go_map)
qed

text \<open>What the HTTP client gets back.\<close>

lemma written_header_lookup:
  assumes "gomap_ok md" "\<forall>(key, v)\<in>set md. key = ''status_code'' \<or>
      (\<exists>k. key = ''header_'' @ k \<and> k \<noteq> [] \<and> CanonicalHeaderKey k = k)"
  shows "map_of (written_header (map (\<lambda>(key, v). GinHeader (header_name key) v)
      (filter (\<lambda>(key, v). key \<noteq> ''status_code'' \<and> length v > 0) md) @ [GinStatus st, GinWrite b] :: 'e gin_call list) h) k =
    (case map_of md (''header_'' @ k) of Some v \<Rightarrow> if v \<noteq> [] then Some [v] else map_of h k | None \<Rightarrow> map_of h k)"
  using assms
proof (induction md arbitrary: h)
  case Nil
  then show ?case by simp
next
  case (Cons e md)
  obtain key v where e: "e = (key, v)" by (cases e)
  have ok: "gomap_ok md" and new: "map_of md key = None"
    using Cons.prems(1) by (simp_all add: gomap_ok_def e map_of_eq_None_iff)
  note IH = Cons.IH [OF ok]
  consider "key = ''status_code''" | k' where "key = ''header_'' @ k'" "k' \<noteq> []" "CanonicalHeaderKey k' = k'"
    using Cons.prems(2) e by auto
  then show ?case
  proof cases
    case 1
    with IH Cons.prems(2) e show ?thesis by simp
  next
    case (2 k')
    have "header_name key = k'" using 2 by (simp add: header_name_def)
    with IH Cons.prems(2) e 2 new show ?thesis
      by (cases "k' = k") (auto simp: go_map split: option.split)
  qed
qed

lemma response_metadata_keys:
  "key \<in> keys (response_metadata resp) \<Longrightarrow> key = ''status_code'' \<or> (\<exists>k\<in>keys (lp_Header resp). key = ''header_'' @ k)"
proof -
  let ?f = "\<lambda>(key, vals) md. case vals of v # _ \<Rightarrow> AList.update (''header_'' @ key) v md | [] \<Rightarrow> md"
  have "keys (fold ?f hs md) \<subseteq> keys md \<union> (\<lambda>k. ''header_'' @ k) ` keys hs" for hs :: http_header and md :: "(string, string) gomap"
  proof (induction hs arbitrary: md)
    case Nil
    then show ?case by simp
  next
    case (Cons e hs)
    obtain k vals where e: "e = (k, vals)" by (cases e)
    have "keys (?f e md) \<subseteq> insert (''header_'' @ k) (keys md)"
      by (auto simp: e AList.dom_update split: list.split)
    then have "keys (?f e md) \<union> B \<subseteq> keys md \<union> insert (''header_'' @ k) B" for B by blast
    from order_trans [OF Cons.IH [of "?f e md"] this] show ?case by (simp add: e)
  qed
  from this [of "lp_Header resp" "[(''status_code'', Itoa (lp_StatusCode resp))]"]
  have "keys (response_metadata resp) \<subseteq> {''status_code''} \<union> (\<lambda>k. ''header_'' @ k) ` keys (lp_Header resp)"
    by (simp add: response_metadata_def)
  then show "key \<in> keys (response_metadata resp) \<Longrightarrow> key = ''status_code'' \<or> (\<exists>k\<in>keys (lp_Header resp). key = ''header_'' @ k)"
    by blast
qed

lemma response_translation:
  assumes h: "canonical_header (lp_Header resp)" and st: "- (2 ^ 63) \<le> lp_StatusCode resp" "lp_StatusCode resp < 2 ^ 63"
    and md: "gomap_ok (msg_Metadata m)" "map_of (msg_Metadata m) = map_of (response_metadata resp)"
  shows "response_status m = lp_StatusCode resp"
    "map_of (written_header (write_response m :: 'e gin_call list) []) k =
       (case map_of (lp_Header resp) k of Some (v # vs) \<Rightarrow> if v \<noteq> [] then Some [v] else None | _ \<Rightarrow> None)"
proof -
  have ok: "gomap_ok (lp_Header resp)" using h by (simp add: canonical_header_def)
  note L = response_metadata_lookup [OF ok, folded md(2)]
  show "response_status m = lp_StatusCode resp"
    using L(2) Atoi_Itoa [OF st] by (simp add: response_status_def)
  have "key = ''status_code'' \<or> (\<exists>k. key = ''header_'' @ k \<and> k \<noteq> [] \<and> CanonicalHeaderKey k = k)"
    if "(key, v) \<in> set (msg_Metadata m)" for key v
  proof -
    have "map_of (response_metadata resp) key \<noteq> None"
      using md that by (simp add: gomap_in_iff [OF md(1)])
    then have "key \<in> keys (response_metadata resp)" by (simp add: keys_map_of)
    from response_metadata_keys [OF this] h show ?thesis
      unfolding canonical_header_def by blast
  qed
  then have "\<forall>(key, v)\<in>set (msg_Metadata m). key = ''status_code'' \<or>
      (\<exists>k. key = ''header_'' @ k \<and> k \<noteq> [] \<and> CanonicalHeaderKey k = k)"
    by blast
  from written_header_lookup [OF md(1) this, of "response_status m" "msg_Payload m" "[]" k, where 'e = 'e] L(1) [of k]
  show "map_of (written_header (write_response m :: 'e gin_call list) []) k =
      (case map_of (lp_Header resp) k of Some (v # vs) \<Rightarrow> if v \<noteq> [] then Some [v] else None | _ \<Rightarrow> None)"
    by (simp add: write_response_def split: option.split list.split)
qed

section \<open>Properties\<close>

text \<open>
  The request that the agent makes of the forwarded message, in whatever order the
  metadata arrives, has the method, path, query and body of the client's request, and the first value
  of each of its headers, for every header name.  The exception is \<^verbatim>\<open>Content-Type\<close>, which is what gin's
  \<^verbatim>\<open>ContentType\<close> returns whenever that is not empty.
\<close>

theorem forwarded_request:
  assumes "canonical_header (pc_Header c)" "same_message (build_request uid c (pc_Path c) body) msg"
  shows "lr_Method (local_request localURL msg) = (if pc_Method c = [] then ''GET'' else pc_Method c) \<and>
    lr_URL (local_request localURL msg) =
      localURL @ pc_Path c @ (if pc_RawQuery c = [] then [] else ''?'' @ pc_RawQuery c) \<and>
    lr_Body (local_request localURL msg) = body \<and>
    (\<forall>k. map_of (lr_Header (local_request localURL msg)) k =
       (if k = ''Content-Type'' \<and> pc_ContentType c \<noteq> [] then Some [pc_ContentType c]
        else case map_of (pc_Header c) k of Some (v # vs) \<Rightarrow> Some [v] | _ \<Rightarrow> None))"
  using request_translation [OF assms] by simp

theorem forwarded_request_witness:
  "let c = \<lparr>pc_Method = ''PUT'', pc_Path = ''/v'', pc_RawQuery = ''x=1'', pc_ContentType = ''text/plain'',
            pc_Header = [(''X-Id'', [''7'', ''8'']), (''Content-Type'', [''text/plain; charset=utf-8''])],
            pc_Body = Inr ''b''\<rparr>;
       r = local_request ''http://l'' (build_request ''u'' c (pc_Path c) ''b'')
   in lr_URL r = ''http://l/v?x=1'' \<and> map_of (lr_Header r) ''X-Id'' = Some [''7''] \<and>
      map_of (lr_Header r) ''Content-Type'' = Some [''text/plain'']"
proof -
  let ?c = "\<lparr>pc_Method = ''PUT'', pc_Path = ''/v'', pc_RawQuery = ''x=1'', pc_ContentType = ''text/plain'',
            pc_Header = [(''X-Id'', [''7'', ''8'']), (''Content-Type'', [''text/plain; charset=utf-8''])],
            pc_Body = Inr ''b''\<rparr>"
  have "CanonicalHeaderKey ''X-Id'' = ''X-Id''" "CanonicalHeaderKey ''Content-Type'' = ''Content-Type''"
    by code_simp+
  then have h: "canonical_header (pc_Header ?c)" by (simp add: canonical_header_def gomap_ok_def)
  have "same_message (build_request ''u'' ?c (pc_Path ?c) ''b'') (build_request ''u'' ?c (pc_Path ?c) ''b'')"
    by (simp add: same_message_def build_request_def gomap_ok_def)
  from forwarded_request [OF h this, of "''http://l''"] show ?thesis by (simp add: Let_def)
qed

text \<open>
  The HTTP client gets the status code and the body of the local service's response,
  and for each of its headers the first value, unless that is empty; no other header is set.
\<close>

theorem forwarded_response:
  assumes "HandleRequest env localURL msg = Inr m0" "Do env (local_request localURL msg) = Inr resp"
    and "same_message m0 m" "canonical_header (lp_Header resp)"
    and "- (2 ^ 63) \<le> lp_StatusCode resp" "lp_StatusCode resp < 2 ^ 63"
  shows "\<exists>hs body. (write_response m :: 'e gin_call list) = hs @ [GinStatus (lp_StatusCode resp), GinWrite body] \<and>
    (\<forall>call\<in>set hs. \<exists>k v. call = GinHeader k v) \<and> lp_Body resp = Inr body \<and> msg_Id m = msg_Id msg \<and>
    (\<forall>k. map_of (written_header (write_response m :: 'e gin_call list) []) k =
       (case map_of (lp_Header resp) k of Some (v # vs) \<Rightarrow> if v \<noteq> [] then Some [v] else None | _ \<Rightarrow> None))"
proof -
  from assms(1,2) obtain body where body: "lp_Body resp = Inr body"
      and m0: "m0 = \<lparr>msg_Id = msg_Id msg, msg_Type = RESPONSE, msg_Payload = body, msg_Metadata = response_metadata resp\<rparr>"
    by (auto simp: HandleRequest_def Let_def split: option.splits sum.splits)
  have md: "gomap_ok (msg_Metadata m)" "map_of (msg_Metadata m) = map_of (response_metadata resp)"
    using assms(3) m0 by (simp_all add: same_message_def)
  note T = response_translation(1) [OF assms(4-6) md] response_translation(2) [OF assms(4-6) md, where 'e = 'e]
  let ?hs = "map (\<lambda>(key, v). GinHeader (header_name key) v)
      (filter (\<lambda>(key, v). key \<noteq> ''status_code'' \<and> length v > 0) (msg_Metadata m)) :: 'e gin_call list"
  have "\<forall>call\<in>set ?hs. \<exists>k v. call = GinHeader k v" by auto
  moreover have "write_response m = ?hs @ [GinStatus (lp_StatusCode resp), GinWrite body]"
    using T(1) assms(3) m0 by (simp add: write_response_def same_message_def)
  ultimately show ?thesis
    using T(2) body assms(3) m0 by (intro exI [of _ ?hs] exI [of _ body]) (simp add: same_message_def)
qed

theorem forwarded_response_witness:
  "let resp = \<lparr>lp_StatusCode = 404, lp_Header = [(''X-A'', [''1'', ''2'']), (''X-B'', [''''])], lp_Body = Inr ''no''\<rparr>;
       env = \<lparr>NewRequest_error = \<lambda>m u. None, Do = \<lambda>r. Inr resp\<rparr>;
       msg = \<lparr>msg_Id = ''i'', msg_Type = REQUEST, msg_Payload = '''', msg_Metadata = []\<rparr>
   in \<exists>m hs. HandleRequest env ''http://l'' msg = Inr m \<and>
        (write_response m :: unit gin_call list) = hs @ [GinStatus 404, GinWrite ''no''] \<and>
        map_of (written_header (write_response m :: unit gin_call list) []) ''X-A'' = Some [''1'']"
proof -
  let ?resp = "\<lparr>lp_StatusCode = 404, lp_Header = [(''X-A'', [''1'', ''2'']), (''X-B'', [''''])], lp_Body = Inr ''no''\<rparr>"
  let ?env = "\<lparr>NewRequest_error = \<lambda>m u. None, Do = \<lambda>r. Inr ?resp\<rparr>"
  let ?msg = "\<lparr>msg_Id = ''i'', msg_Type = REQUEST, msg_Payload = '''', msg_Metadata = []\<rparr>"
  let ?m = "\<lparr>msg_Id = ''i'', msg_Type = RESPONSE, msg_Payload = ''no'', msg_Metadata = response_metadata ?resp\<rparr>"
  have 1: "HandleRequest ?env ''http://l'' ?msg = Inr ?m" by (simp add: HandleRequest_def)
  have 2: "Do ?env (local_request ''http://l'' ?msg) = Inr ?resp" by simp
  have 3: "same_message ?m ?m" by (simp add: same_message_def response_metadata_def gomap_ok_def)
  have "CanonicalHeaderKey ''X-A'' = ''X-A''" "CanonicalHeaderKey ''X-B'' = ''X-B''" by code_simp+
  then have 4: "canonical_header (lp_Header ?resp)" by (simp add: canonical_header_def gomap_ok_def)
  from forwarded_response [OF 1 2 3 4, where 'e = unit]
  obtain hs where "(write_response ?m :: unit gin_call list) = hs @ [GinStatus 404, GinWrite ''no'']"
      "\<forall>k. map_of (written_header (write_response ?m :: unit gin_call list) []) k =
       (case map_of (lp_Header ?resp) k of Some (v # vs) \<Rightarrow> if v \<noteq> [] then Some [v] else None | _ \<Rightarrow> None)"
    by auto
  from this(1) this(2) [rule_format, of "''X-A''"] 1 show ?thesis by (auto simp: Let_def)
qed

text \<open>
  C14 (error): every proxied request that completes writes exactly one status, with its reason: 404 and
  nothing sent for an agent that is not connected; 500 and nothing sent when the body cannot be read; 504 when the
  message could not be queued in time, when the time for the answer is over or when the client has gone; and otherwise
  the status and body of the first answer that was delivered for this request.  A request waits only
  while the queue of the agent is full or no answer is there and no timer has fired.  It never panics
  while the agent stays connected, and no pending entry is left.
\<close>

theorem forwardRequest_one_response:
  fixes s :: "AgentServerManager Server"
    and out :: "(asm_error gin_call list \<times> AgentServerManager Server) outcome"
  assumes inv: "conn_inv (srv_connManager s)" and new: "uid \<notin> keys (srv_pendingRequests s)"
    and others: "\<And>s2. srv_pendingRequests (others s2) = srv_pendingRequests s2"
    and out: "out \<in> set (forwardRequest send_expired expired ctx_done others uid c a p s)"
  shows "case out of
      Ok (calls, s') \<Rightarrow> length (filter is_status calls) = 1 \<and> srv_pendingRequests s' = srv_pendingRequests s \<and>
        (case map_of (cm_agents (srv_connManager s)) a of
           None \<Rightarrow> calls = [GinJSON 404 (ErrorText ''agent not found'')] \<and> s' = s
         | Some r \<Rightarrow>
             (case pc_Body c of
                Inl err \<Rightarrow> calls = [GinJSON 500 (ErrorText ''failed to read request body'')] \<and> s' = s
              | Inr body \<Rightarrow>
                  calls = [GinJSON 504 (ErrorOf (FailedToSendRequest (TimeoutSending a)))] \<and> send_expired \<or>
                  chan_room (ac_SendCh (cm_heap (srv_connManager s) ! r)) \<and>
                  (calls = [GinJSON 504 (ErrorOf RequestTimeout)] \<and> expired \<or>
                   calls = [GinJSON 504 (ErrorOf ContextDone)] \<and> ctx_done \<or>
                   (\<exists>m rest. delivered_answers others r (build_request uid c p body) s = m # rest \<and> calls = write_response m))))
    | Block \<Rightarrow> \<not> (send_expired \<and> expired) \<and>
        (\<exists>r body. map_of (cm_agents (srv_connManager s)) a = Some r \<and> pc_Body c = Inr body \<and>
           (\<not> chan_room (ac_SendCh (cm_heap (srv_connManager s) ! r)) \<and> \<not> send_expired \<or>
            \<not> expired \<and> \<not> ctx_done \<and> delivered_answers others r (build_request uid c p body) s = []))
    | Panic \<Rightarrow> False"
proof (cases "map_of (cm_agents (srv_connManager s)) a")
  case None
  with out show ?thesis by (simp add: forwardRequest_def GetConnection_def)
next
  case (Some r)
  show ?thesis
  proof (cases "pc_Body c")
    case (Inl e)
    with out Some show ?thesis by (simp add: forwardRequest_def GetConnection_def)
  next
    case (Inr body)
    let ?m = "build_request uid c p body"
    have aid: "ac_ID (cm_heap (srv_connManager s) ! r) = a" using cm_wf_entry(2) [OF _ Some] inv by (simp add: cm_inv_def)
    have "msg_Id ?m = uid" by (simp add: build_request_def Let_def)
    note L = SendRequestToAgent_outcomes [OF inv _ others, where msg = ?m and a = a, unfolded this, OF new]
    note C = SendRequestToAgent_connected [OF inv Some, where msg = ?m and others = others]
    have one: "length (filter is_status (write_response m :: asm_error gin_call list)) = 1" for m
      by (simp add: write_response_def filter_map o_def split_def)
    from out Some Inr aid have "out \<in> set (lbind (SendRequestToAgent send_expired expired ctx_done others a ?m s)
        (\<lambda>(res, s'). case res of Inl err \<Rightarrow> [Ok ([GinJSON 504 (ErrorOf err)], s')]
           | Inr response \<Rightarrow> [Ok (write_response response, s')]))"
      by (simp add: forwardRequest_def GetConnection_def)
    then show ?thesis
    proof (cases rule: lbind_cases)
      case (ok x)
      obtain res s' where x: "x = (res, s')" by (cases x)
      have p: "srv_pendingRequests s' = srv_pendingRequests s" using L [OF ok(1)] x by simp
      show ?thesis
        using ok(2) x p Some Inr one C [OF ok(1)] by (cases res) auto
    next
      case block
      with L [OF block(1)] C [OF block(1)] Some Inr show ?thesis by simp
    next
      case panic
      with L [OF panic(1)] show ?thesis by simp
    qed
  qed
qed

theorem forwardRequest_one_response_witness:
  "let c = \<lparr>pc_Method = ''GET'', pc_Path = ''/'', pc_RawQuery = '''', pc_ContentType = '''', pc_Header = [], pc_Body = Inr ''''\<rparr>;
       s = (NewServer 9090 None)\<lparr>srv_connManager := example_cm\<rparr>;
       m = \<lparr>msg_Id = ''u'', msg_Type = RESPONSE, msg_Payload = ''no'', msg_Metadata = [(''status_code'', ''404'')]\<rparr>
   in (\<exists>s'. (forwardRequest False False False (\<lambda>s2. case HandleResponse m s2 of Ok s3 \<Rightarrow> s3 | _ \<Rightarrow> s2) ''u'' c ''a'' ''/'' s
         :: (asm_error gin_call list \<times> AgentServerManager Server) outcome list) = [Ok ([GinStatus 404, GinWrite ''no''], s')]) \<and>
      (\<exists>s'. (forwardRequest False True False (\<lambda>s2. s2) ''u'' c ''a'' ''/'' s
         :: (asm_error gin_call list \<times> AgentServerManager Server) outcome list) = [Ok ([GinJSON 504 (ErrorOf RequestTimeout)], s')])"
proof -
  define c where "c = \<lparr>pc_Method = ''GET'', pc_Path = ''/'', pc_RawQuery = '''', pc_ContentType = '''', pc_Header = [], pc_Body = Inr ''''\<rparr>"
  define s :: "AgentServerManager Server" where "s = (NewServer 9090 None)\<lparr>srv_connManager := example_cm\<rparr>"
  define m where "m = \<lparr>msg_Id = ''u'', msg_Type = RESPONSE, msg_Payload = ''no'', msg_Metadata = [(''status_code'', ''404'')]\<rparr>"
  define others :: "AgentServerManager Server \<Rightarrow> AgentServerManager Server"
    where "others = (\<lambda>s2. case HandleResponse m s2 of Ok s3 \<Rightarrow> s3 | _ \<Rightarrow> s2)"
  have inv: "conn_inv (srv_connManager s)" using example_cm_inv by (simp add: s_def)
  have new: "''u'' \<notin> keys (srv_pendingRequests s)" by (simp add: s_def NewServer_def)
  have same: "srv_pendingRequests (others s2) = srv_pendingRequests s2" for s2
    by (auto simp: others_def HandleResponse_def deliver_response_def chan_try_send_def split: option.split)
  have r: "map_of (cm_agents (srv_connManager s)) ''a'' = Some 0"
    and room: "chan_room (ac_SendCh (cm_heap (srv_connManager s) ! 0))"
    by (simp_all add: s_def example_cm_def example_conn_def chan_room_def sendChannelBuffer_def)
  have aid: "ac_ID (cm_heap (srv_connManager s) ! 0) = ''a''" by (simp add: s_def example_cm_def example_conn_def)
  let ?msg = "build_request ''u'' c ''/'' ''''"
  have mid: "msg_Id ?msg = ''u''" "msg_Id m = ''u''" by (simp_all add: build_request_def Let_def m_def)
  let ?f1 = "forwardRequest False False False others ''u'' c ''a'' ''/'' s
      :: (asm_error gin_call list \<times> AgentServerManager Server) outcome list"
  let ?f2 = "forwardRequest False True False (\<lambda>s2. s2) ''u'' c ''a'' ''/'' s
      :: (asm_error gin_call list \<times> AgentServerManager Server) outcome list"
  have "\<exists>s'. (SendRequestToAgent False False False others ''a'' ?msg s
      :: ((asm_error request_error + ProxyMessage) \<times> AgentServerManager Server) outcome list) = [Ok (Inr m, s')]"
    using request_response_roundtrip [OF inv r room, of ?msg m] new mid by (auto simp: others_def)
  then obtain calls1 s1 where f1: "?f1 = [Ok (calls1, s1)]"
    using aid r by (auto simp: forwardRequest_def GetConnection_def c_def)
  obtain calls2 s2 where f2: "?f2 = [Ok (calls2, s2)]"
    using r aid by (simp add: forwardRequest_def GetConnection_def c_def SendRequestToAgent_def begin_request_def SendToAgent_def
        send_to_conn_def send_select_def await_response_def s_def NewServer_def example_cm_def example_conn_def chan_room_def
        sendChannelBuffer_def Let_def)
  have ans: "delivered_answers others 0 ?msg s = [m]" "delivered_answers (\<lambda>s2. s2) 0 ?msg s = []"
    by (simp_all add: queued_request_def begin_request_def others_def HandleResponse_def deliver_response_def chan_try_send_def
        chan_room_def go_map s_def NewServer_def Let_def mid)
  have code: "(write_response m :: asm_error gin_call list) = [GinStatus 404, GinWrite ''no'']"
    unfolding m_def by code_simp
  have body: "pc_Body c = Inr ''''" by (simp add: c_def)
  have "calls1 = [GinStatus 404, GinWrite ''no'']"
    using forwardRequest_one_response [OF inv new same, of "Ok (calls1, s1)" False False False c "''a''" "''/''"] f1 ans(1) code
    by (simp add: r body)
  moreover have "calls2 = [GinJSON 504 (ErrorOf RequestTimeout)]"
    using forwardRequest_one_response [OF inv new, of "\<lambda>s2. s2" "Ok (calls2, s2)" False True False c "''a''" "''/''"] f2 ans(2)
    by (simp add: r body)
  ultimately show ?thesis using f1 f2 unfolding others_def m_def c_def s_def Let_def by auto
qed

text \<open>
  C20 (error): the handler forwards the decoded path, and the agent pastes it into a URL again.  A request
  without a query whose path contains an (encoded) question mark with something after it therefore reaches the
  local service as a different request: the one whose path ends there and whose query is the rest.
\<close>

theorem decoded_path_changes_request:
  assumes "canonical_header (pc_Header c)" "pc_RawQuery c = []" "pc_Path c = p @ ''?'' @ q" "q \<noteq> []"
  shows "lr_URL (local_request localURL (build_request uid c (pc_Path c) body)) =
    lr_URL (local_request localURL (build_request uid (c\<lparr>pc_Path := p, pc_RawQuery := q\<rparr>) p body))"
proof -
  have ok: "gomap_ok (pc_Header c)" using assms(1) by (simp add: canonical_header_def)
  note L = build_request_lookup [OF ok] build_request_lookup [of "c\<lparr>pc_Path := p, pc_RawQuery := q\<rparr>"]
  show ?thesis
    using assms(2-4) L ok by (simp add: local_request_def metadata_get_def Let_def)
qed

theorem decoded_path_changes_request_witness:
  "let c = \<lparr>pc_Method = ''GET'', pc_Path = ''/a?b=1'', pc_RawQuery = '''', pc_ContentType = '''', pc_Header = [],
            pc_Body = Inr ''''\<rparr>
   in lr_URL (local_request ''http://l'' (build_request ''u'' c (pc_Path c) '''')) =
      lr_URL (local_request ''http://l'' (build_request ''u'' (c\<lparr>pc_Path := ''/a'', pc_RawQuery := ''b=1''\<rparr>) ''/a'' ''''))"
  unfolding Let_def
  by (rule decoded_path_changes_request) (simp_all add: canonical_header_def)

end
