(* ===== verification/Grpc_Client.thy ===== *)
theory Grpc_Client
  imports Stream_Handler Request_Handler
begin

text \<open>
  \<^verbatim>\<open>internal/grpc/client/client.go\<close>: the agent's connection to the server.  The connection loop dials,
  runs the stream, disconnects and waits with an exponential backoff.  It is driven by one event per
  iteration: what dialling did and where the stop channel was found closed.  The gRPC connections that
  are open are part of the state, so that a leak would show.
\<close>

section \<open>State and operations\<close>

definition client_sendChannelBuffer :: nat where "client_sendChannelBuffer = 100"
definition initialDelay :: duration where "initialDelay = 1 * second"
definition maxDelay :: duration where "maxDelay = 30 * second"
definition backoffFactor :: int where "backoffFactor = 2"

record ClientTLSConfig =
  ct_Enabled :: bool
  ct_CertFile :: string
  ct_KeyFile :: string
  ct_CAFile :: string
  ct_ServerNameOverride :: string

record Client =
  cl_serverAddr :: string
  cl_agentID :: string
  cl_localURL :: string
  cl_tlsConfig :: "ClientTLSConfig option"
  cl_conn :: "nat option"
  cl_stream :: "nat option"
  cl_sendCh :: "ProxyMessage chan"
  cl_stopCh :: bool
  cl_doneCh :: bool
  cl_reconnectDelay :: duration
  cl_maxReconnectDelay :: duration
  cl_cancelled :: bool
  cl_next_conn :: nat
  cl_open_conns :: "nat list"

definition NewClient :: "string \<Rightarrow> string \<Rightarrow> string \<Rightarrow> ClientTLSConfig option \<Rightarrow> Client" where
  "NewClient serverAddr agentID localURL tlsConfig =
     \<lparr>cl_serverAddr = serverAddr, cl_agentID = agentID, cl_localURL = localURL, cl_tlsConfig = tlsConfig,
      cl_conn = None, cl_stream = None,
      cl_sendCh = make_chan client_sendChannelBuffer, cl_stopCh = False, cl_doneCh = False,
      cl_reconnectDelay = initialDelay, cl_maxReconnectDelay = maxDelay, cl_cancelled = False,
      cl_next_conn = 0, cl_open_conns = []\<rparr>"

text \<open>
  \<^verbatim>\<open>Stop\<close> closes the stop channel, cancels the context and waits for the loop, which \<open>others\<close> stands for.
\<close>

definition Stop_client :: "(Client \<Rightarrow> Client) \<Rightarrow> Client \<Rightarrow> Client outcome" where
  "Stop_client others c =
     (if cl_stopCh c then Panic
      else
        let c' = others (c\<lparr>cl_stopCh := True, cl_cancelled := True\<rparr>) in
        if cl_doneCh c' then Ok c' else Block)"

datatype client_error =
    SendChannelFull
  | FailedToLoadTLS tls_error
  | FailedToDial
  | FailedToCreateStream
  | FailedToSendFirst
  | StreamIsNil
  | ClientStreamError stream_err

definition Send :: "ProxyMessage \<Rightarrow> Client \<Rightarrow> (client_error option \<times> Client) outcome" where
  "Send msg c =
     obind (chan_try_send msg (cl_sendCh c)) (\<lambda>res.
       case res of
         Some ch \<Rightarrow> Ok (None, c\<lparr>cl_sendCh := ch\<rparr>)
       | None \<Rightarrow> Ok (Some SendChannelFull, c))"

record ('cert, 'pool, 'data) connect_env =
  cv_tls :: "('cert, 'pool, 'data) tls_env"
  cv_dial :: bool
  cv_stream :: bool
  cv_send :: bool
  cv_uid :: string

text \<open>\<^verbatim>\<open>connect\<close>: the result is an error, or the transport security used and the first message sent.\<close>

definition connect_creds :: "('cert, 'pool, 'data) tls_env \<Rightarrow> Client \<Rightarrow> client_error + ('cert, 'pool) tls_config option" where
  "connect_creds env c =
     (case cl_tlsConfig c of
        Some tc \<Rightarrow>
          if ct_Enabled tc then
            (case LoadClientCredentials env (ct_CertFile tc) (ct_KeyFile tc) (ct_CAFile tc)
                    (ct_ServerNameOverride tc) of
               Inl e \<Rightarrow> Inl (FailedToLoadTLS e)
             | Inr creds \<Rightarrow> Inr (Some creds))
          else Inr None
      | None \<Rightarrow> Inr None)"

definition close_grpc :: "nat \<Rightarrow> Client \<Rightarrow> Client" where
  "close_grpc conn c = c\<lparr>cl_open_conns := removeAll conn (cl_open_conns c)\<rparr>"

definition connect :: "('cert, 'pool, 'data) connect_env \<Rightarrow> Client \<Rightarrow>
    (client_error + ('cert, 'pool) tls_config option \<times> ProxyMessage) \<times> Client" where
  "connect env c =
     (case connect_creds (cv_tls env) c of
        Inl e \<Rightarrow> (Inl e, c)
      | Inr creds \<Rightarrow>
          if \<not> cv_dial env then (Inl FailedToDial, c)
          else
            let conn = cl_next_conn c;
                c1 = c\<lparr>cl_next_conn := Suc conn, cl_open_conns := conn # cl_open_conns c\<rparr> in
            if \<not> cv_stream env then (Inl FailedToCreateStream, close_grpc conn c1)
            else
              let firstMsg = \<lparr>msg_Id = cv_uid env, msg_Type = PING, msg_Payload = [],
                              msg_Metadata = [(''agent_id'', cl_agentID c)]\<rparr> in
              if \<not> cv_send env then (Inl FailedToSendFirst, close_grpc conn c1)
              else (Inr (creds, firstMsg), c1\<lparr>cl_conn := Some conn, cl_stream := Some conn\<rparr>))"

definition disconnect :: "Client \<Rightarrow> Client" where
  "disconnect c =
     (let c1 = c\<lparr>cl_stream := None\<rparr> in
      case cl_conn c1 of
        Some conn \<Rightarrow> (close_grpc conn c1)\<lparr>cl_conn := None\<rparr>
      | None \<Rightarrow> c1)"

definition increaseReconnectDelay :: "Client \<Rightarrow> Client" where
  "increaseReconnectDelay c =
     (let d = wrap64 (cl_reconnectDelay c * backoffFactor) in
      c\<lparr>cl_reconnectDelay := (if d > cl_maxReconnectDelay c then cl_maxReconnectDelay c else d)\<rparr>)"

text \<open>
  One iteration of \<^verbatim>\<open>connectionLoop\<close>: whether the stop channel is closed at the top, what dialling does,
  whether the stop comes before the timer of a failed attempt, the send channel after the stream has
  run, and whether the stop channel is closed after it.
\<close>

record ('cert, 'pool, 'data) loop_event =
  le_stop_top :: bool
  le_connect :: "('cert, 'pool, 'data) connect_env"
  le_stop_wait :: bool
  le_sendCh :: "ProxyMessage chan"
  le_stop_after :: bool

text \<open>The result: whether the loop has returned, the waiting times, and the client.\<close>

fun connectionLoop :: "('cert, 'pool, 'data) loop_event list \<Rightarrow> duration list \<Rightarrow> Client \<Rightarrow> bool \<times> duration list \<times> Client" where
  "connectionLoop [] waits c = (False, waits, c)"
| "connectionLoop (ev # evs) waits c =
     (if le_stop_top ev then (True, waits, (disconnect c)\<lparr>cl_doneCh := True\<rparr>)
      else
        case connect (le_connect ev) c of
          (Inl err, c1) \<Rightarrow>
            if le_stop_wait ev then (True, waits, c1\<lparr>cl_doneCh := True\<rparr>)
            else connectionLoop evs (waits @ [cl_reconnectDelay c1]) (increaseReconnectDelay c1)
        | (Inr _, c1) \<Rightarrow>
            let c2 = c1\<lparr>cl_reconnectDelay := initialDelay, cl_sendCh := le_sendCh ev\<rparr>;
                c3 = disconnect c2 in
            if le_stop_after ev then (True, waits, c3\<lparr>cl_doneCh := True\<rparr>)
            else connectionLoop evs (waits @ [cl_reconnectDelay c3]) (increaseReconnectDelay c3))"

text \<open>
  The loops of \<^verbatim>\<open>handleStream\<close>.  A received \<^verbatim>\<open>REQUEST\<close> starts a goroutine for \<open>handleRequest\<close>; the receive
  loop returns its error, if any, and the requests it started.
\<close>

definition client_processMessage :: "ProxyMessage \<Rightarrow> ProxyMessage list" where
  "client_processMessage msg = (case msg_Type msg of REQUEST \<Rightarrow> [msg] | _ \<Rightarrow> [])"

record client_recv_event =
  cr_done :: bool
  cr_stream_nil :: bool
  cr_recv :: "stream_err + ProxyMessage"

fun client_receiveLoop :: "client_recv_event list \<Rightarrow> ProxyMessage list \<Rightarrow>
    (client_error option \<times> ProxyMessage list) outcome" where
  "client_receiveLoop [] spawned = Block"
| "client_receiveLoop (ev # evs) spawned =
     (if cr_done ev then Ok (None, spawned)
      else if cr_stream_nil ev then Ok (Some StreamIsNil, spawned)
      else
        case cr_recv ev of
          Inl err \<Rightarrow> Ok (Some (ClientStreamError err), spawned)
        | Inr msg \<Rightarrow> client_receiveLoop evs (spawned @ client_processMessage msg))"

record client_send_event =
  cs_queued :: "ProxyMessage list"
  cs_done :: bool
  cs_stream_nil :: bool
  cs_err :: "stream_err option"

fun client_sendLoop :: "client_send_event list \<Rightarrow> ProxyMessage list \<Rightarrow> ProxyMessage chan \<Rightarrow>
    (client_error option \<times> ProxyMessage list \<times> ProxyMessage chan) outcome list" where
  "client_sendLoop [] sent sendCh = [Block]"
| "client_sendLoop (ev # evs) sent sendCh =
     (let ch = sendCh\<lparr>chan_buf := chan_buf sendCh @ cs_queued ev\<rparr>;
          ready =
            (if cs_done ev then [Ok (None, sent, ch)] else []) @
            (case chan_try_recv ch of
               Some (Some msg, ch') \<Rightarrow>
                 if cs_stream_nil ev then [Ok (Some StreamIsNil, sent, ch')]
                 else
                   (case cs_err ev of
                      Some err \<Rightarrow> [Ok (Some (ClientStreamError err), sent, ch')]
                    | None \<Rightarrow> client_sendLoop evs (sent @ [msg]) ch')
             | Some (None, ch') \<Rightarrow> [Ok (None, sent, ch')]
             | None \<Rightarrow> [])
      in if ready = [] then [Block] else ready)"

text \<open>One event per iteration of \<^verbatim>\<open>pingLoop\<close>: \<open>None\<close> when \<^verbatim>\<open>done\<close> is chosen, else the new identifier.\<close>

fun pingLoop :: "string option list \<Rightarrow> Client \<Rightarrow> (client_error option \<times> Client) outcome" where
  "pingLoop [] c = Block"
| "pingLoop (None # evs) c = Ok (None, c)"
| "pingLoop (Some uid # evs) c =
     obind (Send \<lparr>msg_Id = uid, msg_Type = PING, msg_Payload = [], msg_Metadata = []\<rparr> c) (\<lambda>(err, c').
       case err of
         Some e \<Rightarrow> Ok (Some e, c')
       | None \<Rightarrow> pingLoop evs c')"

text \<open>
  \<^verbatim>\<open>handleStream\<close> starts the three loops and returns the first error that arrives on \<^verbatim>\<open>errChan\<close>, from
  whichever loop is the first to fail; while none has failed it waits.  Each loop sends at most one
  error, so the capacity of three is never exceeded.
\<close>

definition loop_error :: "(client_error option \<times> 'a) outcome \<Rightarrow> client_error list" where
  "loop_error res = (case res of Ok (Some err, _) \<Rightarrow> [err] | _ \<Rightarrow> [])"

definition handleStream :: "client_recv_event list \<Rightarrow> client_send_event list \<Rightarrow> string option list \<Rightarrow> Client \<Rightarrow>
    client_error outcome list" where
  "handleStream recvs sends pings c =
     (let errChan = loop_error (client_receiveLoop recvs []) @
            concat (map loop_error (client_sendLoop sends [] (cl_sendCh c))) @
            loop_error (pingLoop pings c)
      in if errChan = [] then [Block] else map Ok errChan)"

definition handleRequest :: "http_env \<Rightarrow> ProxyMessage \<Rightarrow> Client \<Rightarrow> Client outcome" where
  "handleRequest env msg c =
     (case HandleRequest env (cl_localURL c) msg of
        Inl err \<Rightarrow>
          let errorResponse = \<lparr>msg_Id = msg_Id msg, msg_Type = RESPONSE, msg_Payload = err,
                               msg_Metadata = [(''status_code'', ''502''), (''error'', err)]\<rparr> in
          obind (Send errorResponse c) (\<lambda>(sendErr, c'). Ok c')
      | Inr response \<Rightarrow> obind (Send response c) (\<lambda>(err, c'). Ok c'))"

section \<open>Invariant of the connection loop\<close>

text \<open>At the top of the loop there is no connection; the delay is between its bounds.\<close>

definition idle :: "Client \<Rightarrow> bool" where
  "idle c \<longleftrightarrow> cl_conn c = None \<and> cl_stream c = None \<and> cl_open_conns c = []"

definition delay_ok :: "Client \<Rightarrow> bool" where
  "delay_ok c \<longleftrightarrow> cl_maxReconnectDelay c = maxDelay \<and> initialDelay \<le> cl_reconnectDelay c \<and> cl_reconnectDelay c \<le> maxDelay"

lemmas client_delays = initialDelay_def maxDelay_def backoffFactor_def second_def

lemma increase_eq:
  assumes "delay_ok c"
  shows "increaseReconnectDelay c = c\<lparr>cl_reconnectDelay := min (2 * cl_reconnectDelay c) maxDelay\<rparr>"
proof -
  have "wrap64 (cl_reconnectDelay c * 2) = 2 * cl_reconnectDelay c"
    using assms by (subst wrap64_id) (auto simp: delay_ok_def client_delays)
  with assms show ?thesis
    by (auto simp: increaseReconnectDelay_def Let_def delay_ok_def backoffFactor_def min_def)
qed

lemma increase_ok: "delay_ok c \<Longrightarrow> delay_ok (increaseReconnectDelay c)"
  by (auto simp: increase_eq delay_ok_def client_delays)

lemma increase_idle [simp]: "idle (increaseReconnectDelay c) = idle c"
  by (simp add: increaseReconnectDelay_def idle_def Let_def)

lemma connect_failed:
  assumes "connect env c = (Inl e, c1)" "idle c"
  shows "idle c1 \<and> cl_reconnectDelay c1 = cl_reconnectDelay c \<and> cl_maxReconnectDelay c1 = cl_maxReconnectDelay c"
  using assms by (auto simp: connect_def Let_def close_grpc_def idle_def split: sum.splits if_splits)

lemma connect_ok:
  assumes "connect env c = (Inr x, c1)" "idle c"
  shows "idle (disconnect (c1\<lparr>cl_reconnectDelay := d, cl_sendCh := ch\<rparr>)) \<and>
    cl_maxReconnectDelay c1 = cl_maxReconnectDelay c"
  using assms by (auto simp: connect_def Let_def close_grpc_def idle_def disconnect_def split: sum.splits if_splits)

lemma disconnect_simps [simp]:
  "cl_reconnectDelay (disconnect c) = cl_reconnectDelay c"
  "cl_maxReconnectDelay (disconnect c) = cl_maxReconnectDelay c"
  by (simp_all add: disconnect_def close_grpc_def Let_def split: option.split)

lemma disconnect_idle: "idle c \<Longrightarrow> idle (disconnect c)"
  by (simp add: disconnect_def idle_def Let_def)

lemma connectionLoop_safe:
  assumes "idle c" "delay_ok c" "\<forall>d\<in>set waits. initialDelay \<le> d \<and> d \<le> maxDelay"
    "connectionLoop evs waits c = (returned, waits', c')"
  shows "idle c' \<and> (\<forall>d\<in>set waits'. initialDelay \<le> d \<and> d \<le> maxDelay) \<and> (returned \<longrightarrow> cl_doneCh c')"
  using assms
proof (induction evs arbitrary: waits c)
  case Nil
  then show ?case by auto
next
  case (Cons ev evs)
  obtain res c1 where con: "connect (le_connect ev) c = (res, c1)" by (cases "connect (le_connect ev) c")
  show ?case
  proof (cases "le_stop_top ev")
    case True
    with Cons.prems disconnect_idle [OF Cons.prems(1)] show ?thesis by (auto simp: idle_def)
  next
    case top: False
    show ?thesis
    proof (cases res)
      case (Inl e)
      note F = connect_failed [OF con [unfolded Inl] Cons.prems(1)]
      with Cons.prems(2) have d1: "delay_ok c1" by (simp add: delay_ok_def)
      show ?thesis
      proof (cases "le_stop_wait ev")
        case True
        with top con Inl F Cons.prems show ?thesis by (auto simp: idle_def)
      next
        case False
        with top con Inl Cons.prems(4)
        have run: "connectionLoop evs (waits @ [cl_reconnectDelay c1]) (increaseReconnectDelay c1) = (returned, waits', c')"
          by simp
        have "idle (increaseReconnectDelay c1)" using F by simp
        moreover have "\<forall>d\<in>set (waits @ [cl_reconnectDelay c1]). initialDelay \<le> d \<and> d \<le> maxDelay"
          using d1 Cons.prems(3) by (simp add: delay_ok_def)
        ultimately show ?thesis by (rule Cons.IH [OF _ increase_ok [OF d1] _ run])
      qed
    next
      case (Inr x)
      let ?c3 = "disconnect (c1\<lparr>cl_reconnectDelay := initialDelay, cl_sendCh := le_sendCh ev\<rparr>)"
      note F = connect_ok [OF con [unfolded Inr] Cons.prems(1), where d = initialDelay and ch = "le_sendCh ev"]
      with Cons.prems(2) have d3: "delay_ok ?c3" by (simp add: delay_ok_def client_delays)
      show ?thesis
      proof (cases "le_stop_after ev")
        case True
        with top con Inr F Cons.prems show ?thesis by (auto simp: idle_def Let_def)
      next
        case False
        with top con Inr Cons.prems(4)
        have run: "connectionLoop evs (waits @ [cl_reconnectDelay ?c3]) (increaseReconnectDelay ?c3) = (returned, waits', c')"
          by (simp add: Let_def)
        have "idle (increaseReconnectDelay ?c3)" using F by simp
        moreover have "\<forall>d\<in>set (waits @ [cl_reconnectDelay ?c3]). initialDelay \<le> d \<and> d \<le> maxDelay"
          using d3 Cons.prems(3) by (simp add: delay_ok_def)
        ultimately show ?thesis by (rule Cons.IH [OF _ increase_ok [OF d3] _ run])
      qed
    qed
  qed
qed

lemma backoff_run:
  assumes "idle c" "delay_ok c"
    and "\<forall>ev\<in>set evs. \<not> le_stop_top ev \<and> \<not> le_stop_wait ev \<and> (\<forall>c'. isl (fst (connect (le_connect ev) c')))"
  shows "\<exists>c'. connectionLoop evs waits c =
    (False, waits @ map (\<lambda>k. min (2 ^ k * cl_reconnectDelay c) maxDelay) [0..<length evs], c')"
  using assms
proof (induction evs arbitrary: waits c)
  case Nil
  then show ?case by simp
next
  case (Cons ev evs)
  have "isl (fst (connect (le_connect ev) c))" using Cons.prems(3) by simp
  then obtain e c1 where con: "connect (le_connect ev) c = (Inl e, c1)"
    by (cases "connect (le_connect ev) c") (auto simp: isl_def)
  note F = connect_failed [OF con Cons.prems(1)]
  with Cons.prems(2) have d1: "delay_ok c1" by (simp add: delay_ok_def)
  let ?c2 = "increaseReconnectDelay c1"
  have "idle ?c2" using F by simp
  from Cons.IH [OF this increase_ok [OF d1], of "waits @ [cl_reconnectDelay c1]"] Cons.prems(3)
  obtain c' where run: "connectionLoop evs (waits @ [cl_reconnectDelay c1]) ?c2 =
      (False, (waits @ [cl_reconnectDelay c1]) @
        map (\<lambda>k. min (2 ^ k * cl_reconnectDelay ?c2) maxDelay) [0..<length evs], c')"
    by auto
  have d: "cl_reconnectDelay ?c2 = min (2 * cl_reconnectDelay c) maxDelay"
    using increase_eq [OF d1] F by simp
  have nxt: "min (2 ^ k * cl_reconnectDelay ?c2) maxDelay = min (2 ^ Suc k * cl_reconnectDelay c) maxDelay" for k
  proof (cases "2 * cl_reconnectDelay c \<le> maxDelay")
    case True
    then show ?thesis by (simp add: d mult.assoc mult.left_commute)
  next
    case False
    have one: "(1 :: int) \<le> 2 ^ k" by simp
    have pos: "0 \<le> maxDelay" by (simp add: client_delays)
    have "1 * maxDelay \<le> 2 ^ k * maxDelay" using one pos by (rule mult_right_mono)
    moreover have "2 ^ k * maxDelay \<le> 2 ^ k * (2 * cl_reconnectDelay c)"
      using False by (intro mult_left_mono) simp_all
    moreover have "2 ^ k * (2 * cl_reconnectDelay c) = 2 ^ Suc k * cl_reconnectDelay c" by simp
    ultimately have "maxDelay \<le> 2 ^ k * maxDelay" "maxDelay \<le> 2 ^ Suc k * cl_reconnectDelay c" by linarith+
    moreover have "cl_reconnectDelay ?c2 = maxDelay" using False by (simp add: d)
    ultimately show ?thesis by (simp only: min_absorb2)
  qed
  have step: "connectionLoop (ev # evs) waits c = connectionLoop evs (waits @ [cl_reconnectDelay c1]) ?c2"
    using Cons.prems(3) con by simp
  have "map (\<lambda>k. min (2 ^ k * cl_reconnectDelay c) maxDelay) [0..<length (ev # evs)]
      = cl_reconnectDelay c1 # map (\<lambda>k. min (2 ^ k * cl_reconnectDelay ?c2) maxDelay) [0..<length evs]"
    using F Cons.prems(2) unfolding nxt
    by (simp add: map_upt_Suc delay_ok_def del: upt_Suc)
  with run step show ?case by simp
qed

section \<open>Properties\<close>

text \<open>
  C22 (bounds): the waiting times between attempts are always between one and thirty seconds; while all
  attempts fail they double from one second on until they reach thirty, and the multiplication never
  overflows.
\<close>

theorem reconnect_backoff:
  assumes "connectionLoop evs [] (NewClient addr a url tc) = (returned, waits, c)"
  shows "(\<forall>d\<in>set waits. 1 * second \<le> d \<and> d \<le> 30 * second) \<and>
    ((\<forall>ev\<in>set evs. \<not> le_stop_top ev \<and> \<not> le_stop_wait ev \<and> (\<forall>c'. isl (fst (connect (le_connect ev) c')))) \<longrightarrow>
       waits = map (\<lambda>k. min (2 ^ k * second) (30 * second)) [0..<length evs])"
proof -
  have idle: "idle (NewClient addr a url tc)" and ok: "delay_ok (NewClient addr a url tc)"
    by (simp_all add: idle_def delay_ok_def NewClient_def client_delays)
  have d: "cl_reconnectDelay (NewClient addr a url tc) = second" by (simp add: NewClient_def initialDelay_def)
  have "waits = map (\<lambda>k. min (2 ^ k * second) (30 * second)) [0..<length evs]"
    if "\<forall>ev\<in>set evs. \<not> le_stop_top ev \<and> \<not> le_stop_wait ev \<and> (\<forall>c'. isl (fst (connect (le_connect ev) c')))"
    using backoff_run [OF idle ok that, of "[]"] assms unfolding d maxDelay_def by auto
  moreover have "\<forall>d\<in>set waits. 1 * second \<le> d \<and> d \<le> 30 * second"
    using connectionLoop_safe [OF idle ok _ assms] by (simp add: initialDelay_def maxDelay_def)
  ultimately show ?thesis by blast
qed

theorem reconnect_backoff_witness:
  "let env = \<lparr>cv_tls = \<lparr>LoadX509KeyPair = \<lambda>c k. None, ReadFile = \<lambda>f. None, AppendCertsFromPEM = \<lambda>p. None\<rparr>,
              cv_dial = False, cv_stream = True, cv_send = True, cv_uid = ''u''\<rparr> :: (nat, nat, string) connect_env;
       ev = \<lparr>le_stop_top = False, le_connect = env, le_stop_wait = False, le_sendCh = make_chan 100, le_stop_after = False\<rparr>
   in \<exists>c. connectionLoop (replicate 6 ev) [] (NewClient ''s:9090'' ''a'' ''http://l'' None) =
        (False, [1 * second, 2 * second, 4 * second, 8 * second, 16 * second, 30 * second], c)"
proof -
  let ?env = "\<lparr>cv_tls = \<lparr>LoadX509KeyPair = \<lambda>c k. None, ReadFile = \<lambda>f. None, AppendCertsFromPEM = \<lambda>p. None\<rparr>,
              cv_dial = False, cv_stream = True, cv_send = True, cv_uid = ''u''\<rparr> :: (nat, nat, string) connect_env"
  let ?ev = "\<lparr>le_stop_top = False, le_connect = ?env, le_stop_wait = False, le_sendCh = make_chan 100, le_stop_after = False\<rparr>"
  have fail: "isl (fst (connect ?env c))" for c by (simp add: connect_def split: sum.split)
  obtain ret waits c where run: "connectionLoop (replicate 6 ?ev) [] (NewClient ''s:9090'' ''a'' ''http://l'' None) = (ret, waits, c)"
    by (cases "connectionLoop (replicate 6 ?ev) [] (NewClient ''s:9090'' ''a'' ''http://l'' None)")
  have ret: "ret = False"
    using run by (simp add: numeral_eq_Suc connect_def connect_creds_def NewClient_def increaseReconnectDelay_def Let_def)
  have "\<forall>ev\<in>set (replicate 6 ?ev). \<not> le_stop_top ev \<and> \<not> le_stop_wait ev \<and> (\<forall>c'. isl (fst (connect (le_connect ev) c')))"
    using fail by simp
  with reconnect_backoff [OF run]
  have "waits = map (\<lambda>k. min (2 ^ k * second) (30 * second)) [0..<length (replicate 6 ?ev)]" by blast
  then have "waits = map (\<lambda>k. min (2 ^ k * second) (30 * second)) [0..<6]" by (simp only: length_replicate)
  then have w: "waits = [1 * second, 2 * second, 4 * second, 8 * second, 16 * second, 30 * second]"
    by (simp add: upt_rec second_def)
  from run [unfolded ret w] show ?thesis unfolding Let_def by (rule exI)
qed

text \<open>
  The connection loop never leaks a gRPC connection.  Between iterations and when it returns,
  at whichever point it was stopped and whatever failed before, no connection is open, and on return it
  has signalled that it is done.
\<close>

theorem connectionLoop_no_leak:
  assumes "connectionLoop evs [] (NewClient addr a url tc) = (returned, waits, c)"
  shows "cl_open_conns c = [] \<and> cl_conn c = None \<and> cl_stream c = None \<and> (returned \<longrightarrow> cl_doneCh c)"
proof -
  have "idle (NewClient addr a url tc)" and "delay_ok (NewClient addr a url tc)"
    by (simp_all add: idle_def delay_ok_def NewClient_def client_delays)
  from connectionLoop_safe [OF this _ assms] show ?thesis by (simp add: idle_def)
qed

theorem connectionLoop_no_leak_witness:
  "let env = \<lparr>cv_tls = \<lparr>LoadX509KeyPair = \<lambda>c k. None, ReadFile = \<lambda>f. None, AppendCertsFromPEM = \<lambda>p. None\<rparr>,
              cv_dial = True, cv_stream = True, cv_send = True, cv_uid = ''u''\<rparr> :: (nat, nat, string) connect_env;
       ev = \<lparr>le_stop_top = False, le_connect = env, le_stop_wait = False, le_sendCh = make_chan 100, le_stop_after = False\<rparr>
   in \<exists>waits c. connectionLoop [ev, ev\<lparr>le_stop_after := True\<rparr>] [] (NewClient ''s:9090'' ''a'' ''http://l'' None) = (True, waits, c) \<and>
        cl_next_conn c = 2 \<and> cl_open_conns c = []"
proof -
  let ?env = "\<lparr>cv_tls = \<lparr>LoadX509KeyPair = \<lambda>c k. None, ReadFile = \<lambda>f. None, AppendCertsFromPEM = \<lambda>p. None\<rparr>,
              cv_dial = True, cv_stream = True, cv_send = True, cv_uid = ''u''\<rparr> :: (nat, nat, string) connect_env"
  let ?ev = "\<lparr>le_stop_top = False, le_connect = ?env, le_stop_wait = False, le_sendCh = make_chan 100, le_stop_after = False\<rparr>"
  have "\<exists>waits c. connectionLoop [?ev, ?ev\<lparr>le_stop_after := True\<rparr>] [] (NewClient ''s:9090'' ''a'' ''http://l'' None) = (True, waits, c) \<and>
      cl_next_conn c = 2"
    by (simp add: connect_def connect_creds_def NewClient_def increaseReconnectDelay_def disconnect_def close_grpc_def Let_def)
  then obtain waits c where
    run: "connectionLoop [?ev, ?ev\<lparr>le_stop_after := True\<rparr>] [] (NewClient ''s:9090'' ''a'' ''http://l'' None) = (True, waits, c)"
    and n: "cl_next_conn c = 2"
    by blast
  from connectionLoop_no_leak [OF run] run n show ?thesis unfolding Let_def by blast
qed

text \<open>
  C23 (functional): the agent answers every request it handles with exactly one message, of type
  \<^verbatim>\<open>RESPONSE\<close> and with the identifier of the request: the local service's response, or status 502 with
  the text of the error.  It never waits: when the send channel is full the answer is dropped.
\<close>

theorem handleRequest_answers:
  assumes "\<not> chan_closed (cl_sendCh c)"
  shows "\<exists>m. handleRequest env msg c =
      Ok (if chan_room (cl_sendCh c) then c\<lparr>cl_sendCh := chan_push m (cl_sendCh c)\<rparr> else c) \<and>
    msg_Id m = msg_Id msg \<and> msg_Type m = RESPONSE \<and>
    (case HandleRequest env (cl_localURL c) msg of
       Inr response \<Rightarrow> m = response
     | Inl err \<Rightarrow> msg_Payload m = err \<and> map_of (msg_Metadata m) ''status_code'' = Some ''502'')"
proof -
  have send: "Send m c = Ok (if chan_room (cl_sendCh c) then (None, c\<lparr>cl_sendCh := chan_push m (cl_sendCh c)\<rparr>)
      else (Some SendChannelFull, c))" for m
    using assms by (simp add: Send_def chan_try_send_def)
  show ?thesis
  proof (cases "HandleRequest env (cl_localURL c) msg")
    case (Inl err)
    then show ?thesis
      by (intro exI [of _ "\<lparr>msg_Id = msg_Id msg, msg_Type = RESPONSE, msg_Payload = err,
            msg_Metadata = [(''status_code'', ''502''), (''error'', err)]\<rparr>"])
         (simp add: handleRequest_def send Let_def)
  next
    case (Inr response)
    have "msg_Id response = msg_Id msg \<and> msg_Type response = RESPONSE"
      using Inr by (auto simp: HandleRequest_def Let_def split: option.splits sum.splits)
    with Inr show ?thesis by (intro exI [of _ response]) (simp add: handleRequest_def send)
  qed
qed

theorem handleRequest_answers_witness:
  "\<exists>c' m. handleRequest \<lparr>NewRequest_error = \<lambda>m u. None, Do = \<lambda>r. Inl ''refused''\<rparr>
       \<lparr>msg_Id = ''7'', msg_Type = REQUEST, msg_Payload = '''', msg_Metadata = []\<rparr> (NewClient ''s:9090'' ''a'' ''http://l'' None) = Ok c' \<and>
     chan_buf (cl_sendCh c') = [m] \<and> msg_Id m = ''7'' \<and> msg_Payload m = ''failed to execute request: refused''"
proof -
  let ?c = "NewClient ''s:9090'' ''a'' ''http://l'' None"
  have "\<not> chan_closed (cl_sendCh ?c)" "chan_room (cl_sendCh ?c)" "chan_buf (cl_sendCh ?c) = []"
    by (simp_all add: NewClient_def chan_room_def client_sendChannelBuffer_def)
  with handleRequest_answers [OF this(1), of "\<lparr>NewRequest_error = \<lambda>m u. None, Do = \<lambda>r. Inl ''refused''\<rparr>"
      "\<lparr>msg_Id = ''7'', msg_Type = REQUEST, msg_Payload = '''', msg_Metadata = []\<rparr>"]
  show ?thesis by (auto simp: HandleRequest_def)
qed

text \<open>
  C35 (safety): with TLS enabled the agent never connects in plain text: a successful connection uses the
  agent's key pair and checks the server against the configured CA file, and the first message it sends
  names the agent.
\<close>

theorem connect_enforces_tls:
  assumes "cl_tlsConfig c = Some tc" "ct_Enabled tc" "connect env c = (Inr (creds, firstMsg), c')"
  shows "\<exists>conf ca. creds = Some conf \<and> ReadFile (cv_tls env) (ct_CAFile tc) = Some ca \<and>
    tls_RootCAs conf = AppendCertsFromPEM (cv_tls env) ca \<and> tls_RootCAs conf \<noteq> None \<and>
    map_option (\<lambda>cert. [cert]) (LoadX509KeyPair (cv_tls env) (ct_CertFile tc) (ct_KeyFile tc)) = Some (tls_Certificates conf) \<and>
    metadata_get firstMsg ''agent_id'' = cl_agentID c \<and> msg_Type firstMsg = PING"
proof -
  obtain conf where load: "LoadClientCredentials (cv_tls env) (ct_CertFile tc) (ct_KeyFile tc) (ct_CAFile tc)
      (ct_ServerNameOverride tc) = Inr conf" and creds: "creds = Some conf"
    using assms by (auto simp: connect_def connect_creds_def Let_def split: sum.splits if_splits)
  have "metadata_get firstMsg ''agent_id'' = cl_agentID c \<and> msg_Type firstMsg = PING"
    using assms(3) by (auto simp: connect_def Let_def metadata_get_def split: sum.splits if_splits)
  with creds LoadClientCredentials_ok [OF load] show ?thesis by auto
qed

theorem connect_enforces_tls_witness:
  "\<exists>creds m c'. connect \<lparr>cv_tls = \<lparr>LoadX509KeyPair = \<lambda>c k. Some 1, ReadFile = \<lambda>f. Some ''pem'', AppendCertsFromPEM = \<lambda>p. Some 2\<rparr>,
         cv_dial = True, cv_stream = True, cv_send = True, cv_uid = ''u''\<rparr>
       (NewClient ''s:9090'' ''a'' ''http://l'' (Some \<lparr>ct_Enabled = True, ct_CertFile = ''c'', ct_KeyFile = ''k'', ct_CAFile = ''ca'',
          ct_ServerNameOverride = ''''\<rparr>)) = (Inr (creds :: (nat, nat) tls_config option, m), c') \<and> creds \<noteq> None"
proof -
  let ?tc = "\<lparr>ct_Enabled = True, ct_CertFile = ''c'', ct_KeyFile = ''k'', ct_CAFile = ''ca'', ct_ServerNameOverride = ''''\<rparr>"
  let ?env = "\<lparr>cv_tls = \<lparr>LoadX509KeyPair = \<lambda>c k. Some 1, ReadFile = \<lambda>f. Some ''pem'', AppendCertsFromPEM = \<lambda>p. Some 2\<rparr>,
      cv_dial = True, cv_stream = True, cv_send = True, cv_uid = ''u''\<rparr> :: (nat, nat, string) connect_env"
  let ?c = "NewClient ''s:9090'' ''a'' ''http://l'' (Some ?tc)"
  obtain creds m c' where run: "connect ?env ?c = (Inr (creds, m), c')"
    by (auto simp: connect_def connect_creds_def LoadClientCredentials_def NewClient_def Let_def)
  have "cl_tlsConfig ?c = Some ?tc" "ct_Enabled ?tc" by (simp_all add: NewClient_def)
  from connect_enforces_tls [OF this run] run show ?thesis by auto
qed

lemma connectionLoop_stops:
  assumes "\<exists>ev\<in>set evs. le_stop_top ev"
  shows "\<exists>waits' c'. connectionLoop evs waits c = (True, waits', c') \<and> cl_doneCh c' \<and>
    length waits' \<le> length waits + length (takeWhile (\<lambda>ev. \<not> le_stop_top ev) evs)"
  using assms
proof (induction evs arbitrary: waits c)
  case (Cons ev evs)
  obtain res c1 where con: "connect (le_connect ev) c = (res, c1)" by (cases "connect (le_connect ev) c")
  show ?case
  proof (cases "le_stop_top ev")
    case False
    with Cons.prems have rest: "\<exists>ev\<in>set evs. le_stop_top ev" by simp
    show ?thesis
    proof (cases res)
      case (Inl e)
      with con False Cons.IH [OF rest, of "waits @ [cl_reconnectDelay c1]" "increaseReconnectDelay c1"] show ?thesis by auto
    next
      case (Inr x)
      let ?c3 = "disconnect (c1\<lparr>cl_reconnectDelay := initialDelay, cl_sendCh := le_sendCh ev\<rparr>)"
      from Inr con False Cons.IH [OF rest, of "waits @ [cl_reconnectDelay ?c3]" "increaseReconnectDelay ?c3"] show ?thesis
        by (auto simp: Let_def)
    qed
  qed auto
qed simp

lemma stopCh_kept [simp]:
  "cl_stopCh (disconnect c) = cl_stopCh c" "cl_stopCh (increaseReconnectDelay c) = cl_stopCh c"
  "cl_stopCh (snd (connect env c)) = cl_stopCh c"
  by (auto simp: disconnect_def close_grpc_def increaseReconnectDelay_def connect_def Let_def split: option.split sum.split)

lemma connectionLoop_stopCh: "cl_stopCh (snd (snd (connectionLoop evs waits c))) = cl_stopCh c"
proof (induction evs arbitrary: waits c)
  case (Cons ev evs)
  obtain res c1 where con: "connect (le_connect ev) c = (res, c1)" by (cases "connect (le_connect ev) c")
  then have "cl_stopCh c1 = cl_stopCh c" by (metis snd_conv stopCh_kept(3))
  with con Cons.IH show ?case by (cases res) (simp_all add: Let_def)
qed simp

text \<open>
  Stopping the client ends.  Once an iteration finds the stop channel closed the connection
  loop returns, after at most one wait for each earlier iteration, and \<^verbatim>\<open>Stop\<close>, which waits for the loop,
  returns the first time it is called; calling it a second time panics.
\<close>

theorem Stop_client_returns:
  assumes "\<exists>ev\<in>set evs. le_stop_top ev" "\<not> cl_stopCh c"
  defines "others \<equiv> \<lambda>c. snd (snd (connectionLoop evs [] c))"
  shows "\<exists>c'. Stop_client others c = Ok c' \<and> cl_doneCh c' \<and>
    fst (connectionLoop evs [] (c\<lparr>cl_stopCh := True, cl_cancelled := True\<rparr>)) \<and>
    length (fst (snd (connectionLoop evs [] (c\<lparr>cl_stopCh := True, cl_cancelled := True\<rparr>)))) \<le> length evs \<and>
    Stop_client others c' = Panic"
proof -
  obtain waits c' where run: "connectionLoop evs [] (c\<lparr>cl_stopCh := True, cl_cancelled := True\<rparr>) = (True, waits, c')" "cl_doneCh c'"
      "length waits \<le> length (takeWhile (\<lambda>ev. \<not> le_stop_top ev) evs)"
    using connectionLoop_stops [OF assms(1), of "[]" "c\<lparr>cl_stopCh := True, cl_cancelled := True\<rparr>"] by auto
  moreover have "length (takeWhile (\<lambda>ev. \<not> le_stop_top ev) evs) \<le> length evs" by (rule length_takeWhile_le)
  moreover have "cl_stopCh c'" using connectionLoop_stopCh [of evs "[]" "c\<lparr>cl_stopCh := True, cl_cancelled := True\<rparr>"] run(1) by simp
  ultimately show ?thesis using assms(2) by (auto simp: Stop_client_def others_def Let_def)
qed

theorem Stop_client_returns_witness:
  "let env = \<lparr>cv_tls = \<lparr>LoadX509KeyPair = \<lambda>c k. None, ReadFile = \<lambda>f. None, AppendCertsFromPEM = \<lambda>p. None\<rparr>,
              cv_dial = False, cv_stream = True, cv_send = True, cv_uid = ''u''\<rparr> :: (nat, nat, string) connect_env;
       ev = \<lparr>le_stop_top = False, le_connect = env, le_stop_wait = False, le_sendCh = make_chan 100, le_stop_after = False\<rparr>
   in \<exists>c'. Stop_client (\<lambda>c. snd (snd (connectionLoop [ev, ev\<lparr>le_stop_top := True\<rparr>] [] c))) (NewClient ''s:9090'' ''a'' ''http://l'' None) = Ok c'"
proof -
  let ?env = "\<lparr>cv_tls = \<lparr>LoadX509KeyPair = \<lambda>c k. None, ReadFile = \<lambda>f. None, AppendCertsFromPEM = \<lambda>p. None\<rparr>,
              cv_dial = False, cv_stream = True, cv_send = True, cv_uid = ''u''\<rparr> :: (nat, nat, string) connect_env"
  let ?ev = "\<lparr>le_stop_top = False, le_connect = ?env, le_stop_wait = False, le_sendCh = make_chan 100, le_stop_after = False\<rparr>"
  have "\<exists>ev\<in>set [?ev, ?ev\<lparr>le_stop_top := True\<rparr>]. le_stop_top ev" by simp
  moreover have "\<not> cl_stopCh (NewClient ''s:9090'' ''a'' ''http://l'' None)" by (simp add: NewClient_def)
  ultimately show ?thesis unfolding Let_def using Stop_client_returns by blast
qed

end
