(* ===== verification/Proxy_System.thy ===== *)
theory Proxy_System
  imports Proxy_Handler Grpc_Client
begin

text \<open>
  The whole proxy: HTTP requests on the ports of any number of agents, the server's tables and channels, the
  streams in both directions, and the agents with their local services, as one step relation over the
  operations of \<^verbatim>\<open>handler/proxy.go\<close>, \<^verbatim>\<open>grpc/server\<close> and \<^verbatim>\<open>grpc/client\<close>.  A step is a critical section, a channel
  operation or the transmission of a message; a stream may reorder the metadata of a message, and whatever is in
  transit can be lost.  Agents run the agent's code; what their local services answer is arbitrary.
\<close>

section \<open>State and steps\<close>

text \<open>An HTTP request: the agent whose port it came to, what the handler reads of it, and its body.\<close>

type_synonym request = "string \<times> ProxyContext \<times> bytes"

text \<open>
  Besides the server with its requests in flight (\<open>req_sys\<close>) and the agents, the state has the requests by identifier
  (a record of the past: entries stay), the requesters on the way to the \<^verbatim>\<open>select\<close> of \<^verbatim>\<open>SendToAgent\<close>, before and after they
  have looked up the connection, and the messages in transit: first messages of new streams, messages
  to an agent, messages to the server.  A stream is named by the number of the agent that opened it.
\<close>

record psys =
  ps_rq :: "AgentServerManager req_sys"
  ps_requests :: "(string, request) gomap"
  ps_queueing :: "string list"
  ps_sending :: "(string \<times> nat) list"
  ps_hello :: "(nat \<times> ProxyMessage) list"
  ps_down :: "(nat \<times> ProxyMessage) list"
  ps_up :: "ProxyMessage list"
  ps_clients :: "Client list"

abbreviation ps_srv :: "psys \<Rightarrow> AgentServerManager Server" where
  "ps_srv q \<equiv> rq_srv (ps_rq q)"

abbreviation ps_cm :: "psys \<Rightarrow> AgentServerManager ConnectionManager" where
  "ps_cm q \<equiv> srv_connManager (rq_srv (ps_rq q))"

definition with_cm :: "AgentServerManager ConnectionManager \<Rightarrow> psys \<Rightarrow> psys" where
  "with_cm cm q = q\<lparr>ps_rq := (ps_rq q)\<lparr>rq_srv := (ps_srv q)\<lparr>srv_connManager := cm\<rparr>\<rparr>\<rparr>"

definition with_client :: "nat \<Rightarrow> Client \<Rightarrow> psys \<Rightarrow> psys" where
  "with_client k c q = q\<lparr>ps_clients := (ps_clients q)[k := c]\<rparr>"

text \<open>The answer of an agent to a request, as \<^verbatim>\<open>handleRequest\<close> sends it.\<close>

definition agent_answer :: "http_env \<Rightarrow> string \<Rightarrow> ProxyMessage \<Rightarrow> ProxyMessage" where
  "agent_answer env localURL msg =
     (case HandleRequest env localURL msg of
        Inl err \<Rightarrow> \<lparr>msg_Id = msg_Id msg, msg_Type = RESPONSE, msg_Payload = err,
                    msg_Metadata = [(''status_code'', ''502''), (''error'', err)]\<rparr>
      | Inr response \<Rightarrow> response)"

inductive psys_step :: "(nat \<Rightarrow> http_env) \<Rightarrow> psys \<Rightarrow> psys \<Rightarrow> bool" for svc where
  arrives: "psys_step svc q (q\<lparr>ps_rq := (ps_rq q)\<lparr>rq_srv := s, rq_waiting := AList.update ref uid (rq_waiting (ps_rq q)),
      rq_made_for := rq_made_for (ps_rq q) @ [uid]\<rparr>,
      ps_requests := AList.update uid (a, c, body) (ps_requests q), ps_queueing := uid # ps_queueing q\<rparr>)"
  if "GetConnection a (ps_cm q) \<noteq> None" "pc_Body c = Inr body" "canonical_header (pc_Header c)"
    "uid \<notin> keys (ps_requests q)" "begin_request uid (ps_srv q) = (ref, s)"
| finds: "psys_step svc q (q\<lparr>ps_queueing := remove1 uid (ps_queueing q), ps_sending := (uid, r) # ps_sending q\<rparr>)"
  if "uid \<in> set (ps_queueing q)" "map_of (ps_requests q) uid = Some (a, c, body)" "map_of (cm_agents (ps_cm q)) a = Some r"
| queues: "psys_step svc q (with_cm cm (q\<lparr>ps_sending := remove1 (uid, r) (ps_sending q)\<rparr>))"
  if "(uid, r) \<in> set (ps_sending q)" "map_of (ps_requests q) uid = Some (a, c, body)"
    "(Ok (None, cm) :: (asm_error cm_error option \<times> AgentServerManager ConnectionManager) outcome)
       \<in> set (send_to_conn expired a (build_request uid c (pc_Path c) body) r (ps_cm q))"
| pong: "psys_step svc q (with_cm cm q)"
  if "r < length (cm_heap (ps_cm q))" "msg_Type msg \<noteq> REQUEST"
    "(Ok (err, cm) :: (asm_error cm_error option \<times> AgentServerManager ConnectionManager) outcome)
       \<in> set (send_to_conn expired a msg r (ps_cm q))"
| transmits: "psys_step svc q (with_cm ((ps_cm q)\<lparr>cm_heap := (cm_heap (ps_cm q))[r := conn\<lparr>ac_SendCh := ch\<rparr>]\<rparr>)
      (q\<lparr>ps_down := (ac_Stream conn, m') # ps_down q\<rparr>))"
  if "r < length (cm_heap (ps_cm q))" "conn = cm_heap (ps_cm q) ! r" "chan_try_recv (ac_SendCh conn) = Some (Some m, ch)"
    "same_message m m'"
| loses: "psys_step svc q (q\<lparr>ps_hello := remove1 h (ps_hello q), ps_down := remove1 d (ps_down q), ps_up := remove1 u (ps_up q)\<rparr>)"
| handles: "psys_step svc q (with_client k c (q\<lparr>ps_down := remove1 (k, m) (ps_down q)\<rparr>))"
  if "(k, m) \<in> set (ps_down q)" "msg_Type m = REQUEST" "handleRequest (svc k) m (ps_clients q ! k) = Ok c"
| answers: "psys_step svc q (with_client k ((ps_clients q ! k)\<lparr>cl_sendCh := ch\<rparr>) (q\<lparr>ps_up := m' # ps_up q\<rparr>))"
  if "k < length (ps_clients q)" "chan_try_recv (cl_sendCh (ps_clients q ! k)) = Some (Some m, ch)" "same_message m m'"
| pings: "psys_step svc q (with_client k c q)"
  if "k < length (ps_clients q)" "msg_Type m = PING" "Send m (ps_clients q ! k) = Ok (err, c)"
| dials: "psys_step svc q (with_client k c (q\<lparr>ps_hello := (case res of Inl e \<Rightarrow> ps_hello q | Inr (creds, m) \<Rightarrow> (k, m) # ps_hello q)\<rparr>))"
  if "k < length (ps_clients q)"
    "connect (env :: (string, string, string) connect_env) (ps_clients q ! k) = (res, c)"
| hangs_up: "psys_step svc q (with_client k (disconnect (ps_clients q ! k)) q)" if "k < length (ps_clients q)"
| registers: "psys_step svc q (with_cm cm (q\<lparr>ps_hello := remove1 (k, m) (ps_hello q)\<rparr>))"
  if "(k, m) \<in> set (ps_hello q)" "metadata_get m ''agent_id'' \<noteq> []"
    "Register (asm_iface os t timed_out) now k (metadata_get m ''agent_id'') (ps_cm q) = Ok (res, cm)"
| deregisters: "psys_step svc q (with_cm cm q)" if "Deregister (asm_iface os t timed_out) a (ps_cm q) = Ok cm"
| seen: "psys_step svc q (with_cm (UpdateLastSeen now a (ps_cm q)) q)"
| stale: "psys_step svc q (with_cm cm q)" if "removeStaleConnections (asm_iface os t timed_out) now (ps_cm q) = Ok cm"
| stops: "psys_step svc q (with_cm cm q)" if "Stop_cm (asm_iface os t timed_out) (ps_cm q) = Ok cm"
| looks_up: "psys_step svc q (q\<lparr>ps_up := remove1 m (ps_up q),
      ps_rq := (ps_rq q)\<lparr>rq_delivering := (m, ref) # rq_delivering (ps_rq q)\<rparr>\<rparr>)"
  if "m \<in> set (ps_up q)" "msg_Type m = RESPONSE" "map_of (srv_pendingRequests (ps_srv q)) (msg_Id m) = Some ref"
| delivers: "psys_step svc q (q\<lparr>ps_rq := (ps_rq q)\<lparr>rq_srv := s, rq_delivering := remove1 (m, ref) (rq_delivering (ps_rq q))\<rparr>\<rparr>)"
  if "(m, ref) \<in> set (rq_delivering (ps_rq q))" "deliver_response ref m (ps_srv q) = Ok s"
| returns: "psys_step svc q (q\<lparr>ps_rq := (ps_rq q)\<lparr>rq_srv := end_request uid s, rq_waiting := AList.delete ref (rq_waiting (ps_rq q)),
      rq_returned := (uid, m) # rq_returned (ps_rq q)\<rparr>\<rparr>)"
  if "map_of (rq_waiting (ps_rq q)) ref = Some uid" "uid \<notin> set (ps_queueing q)" "uid \<notin> fst ` set (ps_sending q)"
    "(Ok (Inr m, s) :: ((unit request_error + ProxyMessage) \<times> AgentServerManager Server) outcome)
      \<in> set (await_response expired ctx_done ref (ps_srv q))"
| fails: "psys_step svc q (q\<lparr>ps_rq := (ps_rq q)\<lparr>rq_srv := end_request uid (ps_srv q), rq_waiting := AList.delete ref (rq_waiting (ps_rq q))\<rparr>,
      ps_queueing := removeAll uid (ps_queueing q), ps_sending := filter (\<lambda>e. fst e \<noteq> uid) (ps_sending q)\<rparr>)"
  if "map_of (rq_waiting (ps_rq q)) ref = Some uid"

text \<open>The agents, by identifier and address of the local service; nothing is connected yet.\<close>

definition psys_init :: "(string \<times> string \<times> ClientTLSConfig option) list \<Rightarrow> int \<Rightarrow> TLSConfig option \<Rightarrow> PortManager \<Rightarrow> psys" where
  "psys_init agents port tc pm =
     \<lparr>ps_rq = \<lparr>rq_srv = SetAgentServerManager_srv (NewAgentServerManager pm) (NewServer port tc), rq_waiting = [],
               rq_delivering = [], rq_made_for = [], rq_returned = []\<rparr>,
      ps_requests = [], ps_queueing = [], ps_sending = [], ps_hello = [], ps_down = [], ps_up = [],
      ps_clients = map (\<lambda>(a, url, tls). NewClient ''server'' a url tls) agents\<rparr>"

section \<open>What the connections hold\<close>

text \<open>What the operations on the table keep of every connection: agent, stream and queued messages.\<close>

definition conn_view :: "'m ConnectionManager \<Rightarrow> (string \<times> nat \<times> ProxyMessage list) list" where
  "conn_view cm = map (\<lambda>c. (ac_ID c, ac_Stream c, chan_buf (ac_SendCh c))) (cm_heap cm)"

lemma close_conn_view: "close_conn r cm = Ok cm' \<Longrightarrow> conn_view cm' = conn_view cm"
  by (auto simp: close_conn_def chan_close_def conn_view_def Let_def intro!: map_list_update_same split: if_splits)

lemma stop_server_view: "stop_server I a p cm = Ok cm' \<Longrightarrow> conn_view cm' = conn_view cm"
  by (auto simp: stop_server_def conn_view_def split: option.splits if_splits)

lemma drop_conn_view: "drop_conn I a r cm = Ok cm' \<Longrightarrow> conn_view cm' = conn_view cm"
  by (auto simp: drop_conn_def dest!: close_conn_view stop_server_view)

lemma delete_agent_view [simp]: "conn_view (delete_agent a cm) = conn_view cm"
  by (simp add: delete_agent_def conn_view_def)

lemma Deregister_view: "Deregister I a cm = Ok cm' \<Longrightarrow> conn_view cm' = conn_view cm"
  by (auto simp: Deregister_def dest!: drop_conn_view split: option.splits)

lemma remove_stale_view: "remove_stale I now es cm = Ok cm' \<Longrightarrow> conn_view cm' = conn_view cm"
  by (induction I now es cm rule: remove_stale.induct) (auto dest!: drop_conn_view split: if_splits)

lemma drop_all_view: "drop_all I es cm = Ok cm' \<Longrightarrow> conn_view cm' = conn_view cm"
  by (induction I es cm rule: drop_all.induct) (auto dest!: drop_conn_view)

lemma Stop_view: "Stop_cm I cm = Ok cm' \<Longrightarrow> conn_view cm' = conn_view cm"
  by (auto simp: Stop_cm_def Let_def conn_view_def dest!: drop_all_view split: if_splits option.splits)

lemma seen_view: "conn_view (UpdateLastSeen now a cm) = conn_view cm"
  by (auto simp: UpdateLastSeen_def conn_view_def intro!: map_list_update_same split: option.splits)

lemma Register_view:
  assumes "Register I now st a cm = Ok (res, cm')"
  shows "conn_view cm' = conn_view cm \<or> conn_view cm' = conn_view cm @ [(a, st, [])]"
proof -
  from assms obtain cm1 where d: "Deregister I a cm = Ok cm1"
    and r: "(case cm_asm cm1 of
            Some asm \<Rightarrow>
              obind (iface_start I a asm) (\<lambda>(res, asm').
                let cm2 = cm1\<lparr>cm_asm := Some asm'\<rparr> in
                case res of
                  Inl e \<Rightarrow> Ok (Inl (FailedToStartServer e), cm2)
                | Inr port \<Rightarrow> Ok (Inr (length (cm_heap cm2)), add_conn now st a port cm2))
          | None \<Rightarrow> Ok (Inr (length (cm_heap cm1)), add_conn now st a 0 cm1)) = Ok (res, cm')"
    unfolding Register_def Deregister_def by (auto simp only: obind_Ok_iff)
  have "conn_view cm' = conn_view cm1 \<or> conn_view cm' = conn_view cm1 @ [(a, st, [])]"
  proof (cases "cm_asm cm1")
    case None
    with r show ?thesis by (auto simp: add_conn_def conn_view_def)
  next
    case (Some asm)
    with r obtain x asm' where "iface_start I a asm = Ok (x, asm')" by auto
    with Some r show ?thesis by (cases x) (auto simp: add_conn_def conn_view_def)
  qed
  with Deregister_view [OF d] show ?thesis by metis
qed

lemma stale_view: "removeStaleConnections I now cm = Ok cm' \<Longrightarrow> conn_view cm' = conn_view cm"
  by (simp add: removeStaleConnections_def remove_stale_view)

lemmas view_keeps = Deregister_view stale_view Stop_view seen_view

section \<open>Where messages come from\<close>

text \<open>\<open>m\<close> is the message of a request to agent \<open>a\<close>, as it leaves the handler or after a stream has carried it.\<close>

definition asked :: "(string, request) gomap \<Rightarrow> string \<Rightarrow> ProxyMessage \<Rightarrow> bool" where
  "asked reqs a m \<longleftrightarrow> (\<exists>c body. map_of reqs (msg_Id m) = Some (a, c, body) \<and> canonical_header (pc_Header c) \<and>
     same_message (build_request (msg_Id m) c (pc_Path c) body) m)"

text \<open>\<open>m\<close> is the answer of an agent to a request that was made to it; \<open>ids\<close> lists the agents with their services.\<close>

definition answered :: "(nat \<Rightarrow> http_env) \<Rightarrow> (string \<times> string) list \<Rightarrow> (string, request) gomap \<Rightarrow> ProxyMessage \<Rightarrow> bool" where
  "answered svc ids reqs m \<longleftrightarrow> (\<exists>k msg. k < length ids \<and> asked reqs (fst (ids ! k)) msg \<and>
     same_message (agent_answer (svc k) (snd (ids ! k)) msg) m)"

definition client_ident :: "Client \<Rightarrow> string \<times> string" where
  "client_ident c = (cl_agentID c, cl_localURL c)"

definition response_messages :: "'m req_sys \<Rightarrow> ProxyMessage set" where
  "response_messages rq = fst ` set (rq_delivering rq) \<union> (\<Union>c\<in>set (srv_chans (rq_srv rq)). set (chan_buf c)) \<union> snd ` set (rq_returned rq)"

definition messages_ok :: "(nat \<Rightarrow> http_env) \<Rightarrow> (string \<times> string) list \<Rightarrow> psys \<Rightarrow> bool" where
  "messages_ok svc ids q \<longleftrightarrow>
     (\<forall>(a, k, buf)\<in>set (conn_view (ps_cm q)). k < length ids \<and> fst (ids ! k) = a \<and>
        (\<forall>m\<in>set buf. msg_Type m = REQUEST \<longrightarrow> asked (ps_requests q) a m)) \<and>
     (\<forall>(uid, r)\<in>set (ps_sending q). r < length (conn_view (ps_cm q)) \<and>
        (\<exists>c body. map_of (ps_requests q) uid = Some (fst (conn_view (ps_cm q) ! r), c, body))) \<and>
     (\<forall>(k, m)\<in>set (ps_hello q). k < length ids \<and> metadata_get m ''agent_id'' = fst (ids ! k)) \<and>
     (\<forall>(k, m)\<in>set (ps_down q). k < length ids \<and> (msg_Type m = REQUEST \<longrightarrow> asked (ps_requests q) (fst (ids ! k)) m)) \<and>
     map client_ident (ps_clients q) = ids \<and>
     (\<forall>c\<in>set (ps_clients q). \<forall>m\<in>set (chan_buf (cl_sendCh c)). msg_Type m = RESPONSE \<longrightarrow> answered svc ids (ps_requests q) m) \<and>
     (\<forall>m\<in>set (ps_up q). msg_Type m = RESPONSE \<longrightarrow> answered svc ids (ps_requests q) m) \<and>
     (\<forall>m\<in>response_messages (ps_rq q). answered svc ids (ps_requests q) m)"

text \<open>The life of a request: what waits or was answered was asked, and nothing is answered twice.\<close>

definition requests_ok :: "psys \<Rightarrow> bool" where
  "requests_ok q \<longleftrightarrow>
     (\<forall>uid a c body. map_of (ps_requests q) uid = Some (a, c, body) \<longrightarrow> canonical_header (pc_Header c)) \<and>
     snd ` set (rq_waiting (ps_rq q)) \<subseteq> keys (ps_requests q) \<and> fst ` set (rq_returned (ps_rq q)) \<subseteq> keys (ps_requests q) \<and>
     (\<forall>r uid. map_of (rq_waiting (ps_rq q)) r = Some uid \<longrightarrow> uid \<notin> fst ` set (rq_returned (ps_rq q))) \<and> distinct (map fst (rq_returned (ps_rq q)))"

definition psys_inv :: "(nat \<Rightarrow> http_env) \<Rightarrow> (string \<times> string) list \<Rightarrow> psys \<Rightarrow> bool" where
  "psys_inv svc ids q \<longleftrightarrow> conn_inv (ps_cm q) \<and> req_inv (ps_rq q) \<and> messages_ok svc ids q \<and> requests_ok q"

section \<open>Lemmas\<close>

lemma same_message_trans: "same_message m m' \<Longrightarrow> same_message m' m'' \<Longrightarrow> same_message m m''"
  by (simp add: same_message_def)

lemma prefixed_ok: "gomap_ok md \<Longrightarrow> gomap_ok (fold (\<lambda>(key, v) md. AList.update (''header_'' @ key) v md) hs md)"
  by (induction hs arbitrary: md) auto

lemma build_request_Id [simp]: "msg_Id (build_request uid c p body) = uid" "msg_Type (build_request uid c p body) = REQUEST"
  by (simp_all add: build_request_def Let_def)

lemma build_request_same: "same_message (build_request uid c p body) (build_request uid c p body)"
proof -
  have "gomap_ok (msg_Metadata (build_request uid c p body))"
    unfolding build_request_def Let_def ProxyMessage.simps by (rule prefixed_ok) (simp add: gomap_ok_def)
  then show ?thesis by (simp add: same_message_def)
qed

lemma asked_build:
  "map_of reqs uid = Some (a, c, body) \<Longrightarrow> canonical_header (pc_Header c) \<Longrightarrow> asked reqs a (build_request uid c (pc_Path c) body)"
  using build_request_same [of uid c "pc_Path c" body] by (auto simp: asked_def)

lemma asked_same: "asked reqs a m \<Longrightarrow> same_message m m' \<Longrightarrow> asked reqs a m'"
  unfolding asked_def using same_message_trans by (fastforce simp: same_message_def)

lemma answered_same: "answered svc ids reqs m \<Longrightarrow> same_message m m' \<Longrightarrow> answered svc ids reqs m'"
  unfolding answered_def using same_message_trans by blast

lemma asked_new: "asked reqs a m \<Longrightarrow> uid \<notin> keys reqs \<Longrightarrow> asked (AList.update uid v reqs) a m"
  by (auto simp: asked_def keys_map_of go_map)

lemma answered_new: "answered svc ids reqs m \<Longrightarrow> uid \<notin> keys reqs \<Longrightarrow> answered svc ids (AList.update uid v reqs) m"
  unfolding answered_def using asked_new by blast

lemma agent_answer_ids: "msg_Id (agent_answer env url msg) = msg_Id msg" "msg_Type (agent_answer env url msg) = RESPONSE"
  by (auto simp: agent_answer_def HandleRequest_def Let_def split: sum.splits option.splits)

lemma response_metadata_ok: "gomap_ok (response_metadata resp)"
proof -
  have "gomap_ok md \<Longrightarrow> gomap_ok (fold (\<lambda>(key, vals) md. case vals of v # _ \<Rightarrow> AList.update (''header_'' @ key) v md | [] \<Rightarrow> md) hs md)"
    for hs :: http_header and md by (induction hs arbitrary: md) (auto split: list.split)
  moreover have "gomap_ok [(''status_code'', Itoa (lp_StatusCode resp))]" by (simp add: gomap_ok_def)
  ultimately show ?thesis unfolding response_metadata_def by blast
qed

lemma agent_answer_same: "same_message (agent_answer env url msg) (agent_answer env url msg)"
proof -
  have "gomap_ok [(''status_code'', ''502''), (''error'', err)]" for err :: string by (simp add: gomap_ok_def)
  with response_metadata_ok show ?thesis
    by (auto simp: same_message_def agent_answer_def HandleRequest_def Let_def split: sum.splits option.splits)
qed

lemma handleRequest_eq: "handleRequest env msg c = obind (Send (agent_answer env (cl_localURL c) msg) c) (\<lambda>(err, c'). Ok c')"
  by (simp add: handleRequest_def agent_answer_def split: sum.split)

text \<open>What the agent's operations leave of a client: its identity, and its queue up to one new message.\<close>

lemma Send_keeps:
  assumes "Send m c = Ok (err, c')"
  shows "client_ident c' = client_ident c" "set (chan_buf (cl_sendCh c')) \<subseteq> insert m (set (chan_buf (cl_sendCh c)))"
  using assms by (auto simp: Send_def chan_try_send_def client_ident_def split: if_splits)

lemma handleRequest_keeps:
  assumes "handleRequest env msg c = Ok c'"
  shows "client_ident c' = client_ident c"
    "set (chan_buf (cl_sendCh c')) \<subseteq> insert (agent_answer env (cl_localURL c) msg) (set (chan_buf (cl_sendCh c)))"
  using assms Send_keeps unfolding handleRequest_eq by fastforce+

lemma connect_keeps:
  assumes "connect env c = (res, c')"
  shows "client_ident c' = client_ident c" "chan_buf (cl_sendCh c') = chan_buf (cl_sendCh c)"
    "\<And>creds m. res = Inr (creds, m) \<Longrightarrow> metadata_get m ''agent_id'' = cl_agentID c"
  using assms by (auto simp: connect_def Let_def client_ident_def close_grpc_def metadata_get_def split: if_splits sum.splits)

lemma disconnect_keeps: "client_ident (disconnect c) = client_ident c" "cl_sendCh (disconnect c) = cl_sendCh c"
  by (auto simp: disconnect_def Let_def client_ident_def close_grpc_def split: option.splits)

lemma send_to_conn_view:
  assumes "Ok (err, cm') \<in> set (send_to_conn expired a msg r cm)" "r < length (cm_heap cm)"
  shows "conn_view cm' = conn_view cm \<or>
    (\<exists>k buf. conn_view cm ! r = (ac_ID (cm_heap cm ! r), k, buf) \<and>
       conn_view cm' = (conn_view cm)[r := (ac_ID (cm_heap cm ! r), k, buf @ [msg])])"
  using assms by (auto simp: send_to_conn_def send_select_def Let_def conn_view_def map_update split: if_splits)

lemma chan_try_recv_set: "chan_try_recv ch = Some (Some m, ch') \<Longrightarrow> chan_buf ch = m # chan_buf ch'"
  by (auto simp: chan_try_recv_def split: list.splits if_splits)

section \<open>Preservation\<close>

lemma with_cm_simps [simp]:
  "ps_cm (with_cm cm q) = cm" "ps_requests (with_cm cm q) = ps_requests q" "ps_queueing (with_cm cm q) = ps_queueing q"
  "ps_sending (with_cm cm q) = ps_sending q" "ps_hello (with_cm cm q) = ps_hello q" "ps_down (with_cm cm q) = ps_down q"
  "ps_up (with_cm cm q) = ps_up q" "ps_clients (with_cm cm q) = ps_clients q"
  "response_messages (ps_rq (with_cm cm q)) = response_messages (ps_rq q)"
  "rq_waiting (ps_rq (with_cm cm q)) = rq_waiting (ps_rq q)" "rq_returned (ps_rq (with_cm cm q)) = rq_returned (ps_rq q)"
  by (simp_all add: with_cm_def response_messages_def)

lemma with_client_simps [simp]:
  "ps_rq (with_client k c q) = ps_rq q" "ps_requests (with_client k c q) = ps_requests q" "ps_queueing (with_client k c q) = ps_queueing q"
  "ps_sending (with_client k c q) = ps_sending q" "ps_hello (with_client k c q) = ps_hello q" "ps_down (with_client k c q) = ps_down q"
  "ps_up (with_client k c q) = ps_up q" "ps_clients (with_client k c q) = (ps_clients q)[k := c]"
  by (simp_all add: with_client_def)

lemma messages_okD:
  assumes "messages_ok svc ids q"
  shows "(a, k, buf) \<in> set (conn_view (ps_cm q)) \<Longrightarrow> k < length ids \<and> fst (ids ! k) = a"
    "(a, k, buf) \<in> set (conn_view (ps_cm q)) \<Longrightarrow> m \<in> set buf \<Longrightarrow> msg_Type m = REQUEST \<Longrightarrow> asked (ps_requests q) a m"
    "(uid, r) \<in> set (ps_sending q) \<Longrightarrow> r < length (conn_view (ps_cm q)) \<and>
       (\<exists>c body. map_of (ps_requests q) uid = Some (fst (conn_view (ps_cm q) ! r), c, body))"
    "(k, m) \<in> set (ps_hello q) \<Longrightarrow> k < length ids \<and> metadata_get m ''agent_id'' = fst (ids ! k)"
    "(k, m) \<in> set (ps_down q) \<Longrightarrow> k < length ids \<and> (msg_Type m = REQUEST \<longrightarrow> asked (ps_requests q) (fst (ids ! k)) m)"
    "map client_ident (ps_clients q) = ids"
    "c \<in> set (ps_clients q) \<Longrightarrow> m \<in> set (chan_buf (cl_sendCh c)) \<Longrightarrow> msg_Type m = RESPONSE \<Longrightarrow> answered svc ids (ps_requests q) m"
    "m \<in> set (ps_up q) \<Longrightarrow> msg_Type m = RESPONSE \<Longrightarrow> answered svc ids (ps_requests q) m"
    "m \<in> response_messages (ps_rq q) \<Longrightarrow> answered svc ids (ps_requests q) m"
  using assms unfolding messages_ok_def
  by - (elim conjE, drule (1) bspec, simp | elim conjE, (drule (1) bspec)+, erule mp, assumption | elim conjE, assumption)+

lemma messages_okI:
  assumes "\<And>a k buf. (a, k, buf) \<in> set (conn_view (ps_cm q)) \<Longrightarrow> k < length ids \<and> fst (ids ! k) = a"
    "\<And>a k buf m. (a, k, buf) \<in> set (conn_view (ps_cm q)) \<Longrightarrow> m \<in> set buf \<Longrightarrow> msg_Type m = REQUEST \<Longrightarrow> asked (ps_requests q) a m"
    "\<And>uid r. (uid, r) \<in> set (ps_sending q) \<Longrightarrow> r < length (conn_view (ps_cm q)) \<and>
       (\<exists>c body. map_of (ps_requests q) uid = Some (fst (conn_view (ps_cm q) ! r), c, body))"
    "\<And>k m. (k, m) \<in> set (ps_hello q) \<Longrightarrow> k < length ids \<and> metadata_get m ''agent_id'' = fst (ids ! k)"
    "\<And>k m. (k, m) \<in> set (ps_down q) \<Longrightarrow> k < length ids \<and> (msg_Type m = REQUEST \<longrightarrow> asked (ps_requests q) (fst (ids ! k)) m)"
    "map client_ident (ps_clients q) = ids"
    "\<And>c m. c \<in> set (ps_clients q) \<Longrightarrow> m \<in> set (chan_buf (cl_sendCh c)) \<Longrightarrow> msg_Type m = RESPONSE \<Longrightarrow> answered svc ids (ps_requests q) m"
    "\<And>m. m \<in> set (ps_up q) \<Longrightarrow> msg_Type m = RESPONSE \<Longrightarrow> answered svc ids (ps_requests q) m"
    "\<And>m. m \<in> response_messages (ps_rq q) \<Longrightarrow> answered svc ids (ps_requests q) m"
  shows "messages_ok svc ids q"
  unfolding messages_ok_def using assms by (intro conjI) blast+

text \<open>Replacing one agent's state, and changing the table without touching queues.\<close>

lemma messages_ok_client:
  assumes "messages_ok svc ids q" "client_ident c = client_ident (ps_clients q ! k)"
    and "\<And>m. m \<in> set (chan_buf (cl_sendCh c)) \<Longrightarrow> msg_Type m = RESPONSE \<Longrightarrow>
      k < length (ps_clients q) \<Longrightarrow> m \<notin> set (chan_buf (cl_sendCh (ps_clients q ! k))) \<Longrightarrow> answered svc ids (ps_requests q) m"
  shows "messages_ok svc ids (with_client k c q)"
proof -
  note D = messages_okD [OF assms(1)]
  show ?thesis
  proof (rule messages_okI)
    show "map client_ident (ps_clients (with_client k c q)) = ids"
      using map_list_update_same [of client_ident, OF assms(2)] D(6) by simp
    fix d m assume d: "d \<in> set (ps_clients (with_client k c q))" and m: "m \<in> set (chan_buf (cl_sendCh d))" "msg_Type m = RESPONSE"
    show "answered svc ids (ps_requests (with_client k c q)) m"
    proof (cases "d \<in> set (ps_clients q)")
      case True
      with D(7) m show ?thesis by simp
    next
      case False
      then have k: "k < length (ps_clients q)" using d by (metis list_update_beyond not_less with_client_simps(8))
      moreover have "d = c" using False d set_update_subset_insert [of "ps_clients q" k c] by auto
      ultimately show ?thesis using m D(7) [OF nth_mem [OF k], of m] assms(3) [of m] by auto
    qed
  qed (unfold with_client_simps, (rule D; assumption)+)
qed

lemma messages_ok_view:
  assumes "messages_ok svc ids q" "conn_view cm = conn_view (ps_cm q)"
  shows "messages_ok svc ids (with_cm cm q)"
  unfolding messages_ok_def with_cm_simps assms(2) by (rule assms(1) [unfolded messages_ok_def])

lemma server_parts:
  "begin_request uid s = (ref, s') \<Longrightarrow> srv_connManager s' = srv_connManager s"
  "deliver_response ref m s = Ok s' \<Longrightarrow> srv_connManager s' = srv_connManager s"
  "srv_connManager (end_request uid s) = srv_connManager s" "srv_chans (end_request uid s) = srv_chans s"
  by (auto simp: begin_request_def deliver_response_def end_request_def split: option.splits)

text \<open>Every step leaves the table alone or is a step of the table.\<close>

lemma psys_step_table:
  assumes "psys_step svc q q'" "messages_ok svc ids q"
  shows "ps_cm q' = ps_cm q \<or> table_step (ps_cm q) (ps_cm q')"
  using assms(1)
proof cases
  case (queues uid r a c body cm expired)
  then have "r < length (cm_heap (ps_cm q))" using messages_okD(3) [OF assms(2)] by (simp add: conn_view_def)
  with queues show ?thesis by (auto intro: table_step.send)
next
  case (returns ref uid m s expired ctx_done)
  from returns(5) obtain rest where "s = (ps_srv q)\<lparr>srv_chans := (srv_chans (ps_srv q))[ref := (srv_chans (ps_srv q) ! ref)\<lparr>chan_buf := rest\<rparr>]\<rparr>"
    by (rule await_received)
  with returns(1) show ?thesis by (simp add: server_parts)
qed (auto simp: server_parts intro: table_step.intros)

text \<open>Every step leaves the requests in flight alone or is a step of theirs.\<close>

lemma psys_step_req:
  assumes "psys_step svc q q'" "requests_ok q"
  shows "ps_rq q' = ps_rq q \<or> req_step (ps_rq q) (ps_rq q')"
  using assms(1)
proof cases
  case (arrives a c body uid ref s)
  then have "uid \<notin> snd ` set (rq_waiting (ps_rq q))" using assms(2) by (auto simp: requests_ok_def)
  with arrives show ?thesis by (auto intro: req_step.begin_req)
next
  case (returns ref uid m s expired ctx_done)
  then show ?thesis by (auto intro: req_step.receive)
next
  case (fails ref uid)
  then show ?thesis by (auto intro: req_step.give_up)
next
  case (looks_up m ref)
  then show ?thesis by (auto intro: req_step.look_up)
next
  case (delivers m ref s)
  then show ?thesis by (auto intro: req_step.deliver)
qed (auto simp: with_cm_def with_client_def intro: req_step.table)

lemma delete_waiting: "snd ` set m \<subseteq> K \<Longrightarrow> snd ` set (AList.delete k m) \<subseteq> K"
  by (auto simp: set_delete)

lemma psys_step_requests:
  assumes "psys_step svc q q'" "requests_ok q" "req_inv (ps_rq q)"
  shows "requests_ok q'"
  using assms(1)
proof cases
  case (arrives a c body uid ref s)
  let ?w = "rq_waiting (ps_rq q)" and ?reqs = "ps_requests q"
  have q': "ps_requests q' = AList.update uid (a, c, body) ?reqs" "rq_waiting (ps_rq q') = AList.update ref uid ?w"
      "rq_returned (ps_rq q') = rq_returned (ps_rq q)"
    using arrives(1) by simp_all
  note R = assms(2) [unfolded requests_ok_def]
  show ?thesis unfolding requests_ok_def q'
  proof (intro conjI)
    show "\<forall>u b d e. map_of (AList.update uid (a, c, body) ?reqs) u = Some (b, d, e) \<longrightarrow> canonical_header (pc_Header d)"
      using R arrives(4) by (simp add: go_map)
    have "snd ` insert (ref, uid) (set ?w) \<subseteq> insert uid (keys ?reqs)" using R by auto
    then show "snd ` set (AList.update ref uid ?w) \<subseteq> keys (AList.update uid (a, c, body) ?reqs)"
      unfolding keys_update using set_update_subset [of ref uid ?w] by (meson image_mono order_trans)
    show "fst ` set (rq_returned (ps_rq q)) \<subseteq> keys (AList.update uid (a, c, body) ?reqs)"
      unfolding keys_update using R by blast
    have "uid \<notin> fst ` set (rq_returned (ps_rq q))" using R arrives(5) by blast
    with R show "\<forall>r u. map_of (AList.update ref uid ?w) r = Some u \<longrightarrow> u \<notin> fst ` set (rq_returned (ps_rq q))"
      by (simp add: go_map)
    show "distinct (map fst (rq_returned (ps_rq q)))" using R by blast
  qed
next
  case (returns ref uid m s expired ctx_done)
  have "r = ref" if "map_of (rq_waiting (ps_rq q)) r = Some uid" for r
    using that returns(2) req_invD(3) [OF assms(3), of uid] by (metis option.inject)
  then have "\<forall>r u. map_of (AList.delete ref (rq_waiting (ps_rq q))) r = Some u \<longrightarrow> u \<notin> insert uid (fst ` set (rq_returned (ps_rq q)))"
    using assms(2) unfolding requests_ok_def by (metis insert_iff map_of_delete_other)
  moreover have "uid \<in> keys (ps_requests q)" "uid \<notin> fst ` set (rq_returned (ps_rq q))"
    using returns(2) map_of_SomeD [OF returns(2), THEN imageI, of snd] assms(2) unfolding requests_ok_def by (simp_all add: subset_iff)
  ultimately show ?thesis
    using returns(1) assms(2) unfolding requests_ok_def by (simp add: delete_waiting)
next
  case (fails ref uid)
  have "\<forall>r u. map_of (AList.delete ref (rq_waiting (ps_rq q))) r = Some u \<longrightarrow> u \<notin> fst ` set (rq_returned (ps_rq q))"
    using assms(2) map_of_delete_other unfolding requests_ok_def by fast
  with fails(1) assms(2) show ?thesis unfolding requests_ok_def by (simp add: delete_waiting)
qed (use assms(2) in \<open>simp_all add: requests_ok_def with_client_def\<close>)

text \<open>Changing what is in transit, one queue, or what is on its way to a requester.\<close>

lemma messages_ok_transit:
  assumes "messages_ok svc ids q"
    and "\<And>k m. (k, m) \<in> set h \<Longrightarrow> k < length ids \<and> metadata_get m ''agent_id'' = fst (ids ! k)"
    and "\<And>k m. (k, m) \<in> set d \<Longrightarrow> k < length ids \<and> (msg_Type m = REQUEST \<longrightarrow> asked (ps_requests q) (fst (ids ! k)) m)"
    and "\<And>m. m \<in> set u \<Longrightarrow> msg_Type m = RESPONSE \<Longrightarrow> answered svc ids (ps_requests q) m"
  shows "messages_ok svc ids (q\<lparr>ps_hello := h, ps_down := d, ps_up := u\<rparr>)"
proof -
  note D = messages_okD [OF assms(1)]
  let ?q = "q\<lparr>ps_hello := h, ps_down := d, ps_up := u\<rparr>"
  have eqs: "ps_rq ?q = ps_rq q" "ps_requests ?q = ps_requests q" "ps_sending ?q = ps_sending q" "ps_clients ?q = ps_clients q"
    "ps_hello ?q = h" "ps_down ?q = d" "ps_up ?q = u" by simp_all
  show ?thesis by (rule messages_okI, unfold eqs) (rule D(1-3,6,7,9) assms(2-); assumption)+
qed

lemma messages_ok_queue:
  assumes "messages_ok svc ids q" "conn_view (ps_cm q) ! r = (a, k, buf)" "r < length (conn_view (ps_cm q))"
    and "conn_view cm = (conn_view (ps_cm q))[r := (a, k, buf')]"
    and "\<And>m. m \<in> set buf' \<Longrightarrow> msg_Type m = REQUEST \<Longrightarrow> asked (ps_requests q) a m"
  shows "messages_ok svc ids (with_cm cm q)"
proof -
  note D = messages_okD [OF assms(1)]
  have old: "(a, k, buf) \<in> set (conn_view (ps_cm q))" using nth_mem [OF assms(3)] assms(2) by simp
  have new: "e = (a, k, buf') \<or> e \<in> set (conn_view (ps_cm q))" if "e \<in> set (conn_view cm)" for e
    using that set_update_subset_insert unfolding assms(4) by fast
  have len: "length (conn_view cm) = length (conn_view (ps_cm q))" "fst (conn_view cm ! i) = fst (conn_view (ps_cm q) ! i)" for i
    using assms(2,3) unfolding assms(4) by (auto simp: nth_list_update)
  show ?thesis
  proof (rule messages_okI, unfold with_cm_simps)
    fix b l bf assume "(b, l, bf) \<in> set (conn_view cm)"
    with new D(1) old show "l < length ids \<and> fst (ids ! l) = b" by blast
  next
    fix b l bf m assume "(b, l, bf) \<in> set (conn_view cm)" "m \<in> set bf" "msg_Type m = REQUEST"
    with new D(2) assms(5) show "asked (ps_requests q) b m" by blast
  qed (unfold len, (rule D; assumption)+)
qed

lemma messages_ok_responses:
  assumes "messages_ok svc ids q" "srv_connManager (rq_srv rq) = ps_cm q"
    and "\<And>m. m \<in> response_messages rq \<Longrightarrow> answered svc ids (ps_requests q) m"
  shows "messages_ok svc ids (q\<lparr>ps_rq := rq\<rparr>)"
proof -
  note D = messages_okD [OF assms(1)]
  let ?q = "q\<lparr>ps_rq := rq\<rparr>"
  have eqs: "ps_rq ?q = rq" "ps_requests ?q = ps_requests q" "ps_sending ?q = ps_sending q"
    "ps_clients ?q = ps_clients q" "ps_hello ?q = ps_hello q" "ps_down ?q = ps_down q" "ps_up ?q = ps_up q"
    by simp_all
  show ?thesis by (rule messages_okI, unfold eqs assms(2)) (rule D(1-8) assms(3); assumption)+
qed

text \<open>A requester's progress towards the queue; entries of the list of senders.\<close>

lemma messages_ok_senders:
  assumes "messages_ok svc ids q"
    and "\<And>uid r. (uid, r) \<in> set sn \<Longrightarrow> r < length (conn_view (ps_cm q)) \<and>
       (\<exists>c body. map_of (ps_requests q) uid = Some (fst (conn_view (ps_cm q) ! r), c, body))"
  shows "messages_ok svc ids (q\<lparr>ps_queueing := qu, ps_sending := sn\<rparr>)"
proof -
  note D = messages_okD [OF assms(1)]
  let ?q = "q\<lparr>ps_queueing := qu, ps_sending := sn\<rparr>"
  have eqs: "ps_rq ?q = ps_rq q" "ps_requests ?q = ps_requests q" "ps_sending ?q = sn"
    "ps_clients ?q = ps_clients q" "ps_hello ?q = ps_hello q" "ps_down ?q = ps_down q" "ps_up ?q = ps_up q"
    by simp_all
  show ?thesis by (rule messages_okI, unfold eqs) (rule D(1,2,4-9) assms(2); assumption)+
qed

lemma messages_ok_arrives:
  assumes "messages_ok svc ids q" "uid \<notin> keys (ps_requests q)" "srv_connManager (rq_srv rq) = ps_cm q"
    and "response_messages rq = response_messages (ps_rq q)"
  shows "messages_ok svc ids (q\<lparr>ps_rq := rq, ps_requests := AList.update uid v (ps_requests q), ps_queueing := qu\<rparr>)"
proof -
  note D = messages_okD [OF assms(1)]
  let ?reqs = "AList.update uid v (ps_requests q)"
  let ?q = "q\<lparr>ps_rq := rq, ps_requests := ?reqs, ps_queueing := qu\<rparr>"
  have eqs: "ps_rq ?q = rq" "ps_requests ?q = ?reqs" "ps_sending ?q = ps_sending q"
    "ps_clients ?q = ps_clients q" "ps_hello ?q = ps_hello q" "ps_down ?q = ps_down q" "ps_up ?q = ps_up q"
    by simp_all
  have old: "map_of ?reqs u = map_of (ps_requests q) u" if "map_of (ps_requests q) u = Some w" for u w
  proof -
    have "u \<noteq> uid" using that assms(2) unfolding keys_map_of by (metis option.distinct(1))
    then show ?thesis by (simp add: go_map)
  qed
  note mono = asked_new [OF _ assms(2)] answered_new [OF _ assms(2)]
  show ?thesis
  proof (rule messages_okI, unfold eqs assms(3,4))
    fix u r assume "(u, r) \<in> set (ps_sending q)"
    from D(3) [OF this] old show "r < length (conn_view (ps_cm q)) \<and>
        (\<exists>c body. map_of ?reqs u = Some (fst (conn_view (ps_cm q) ! r), c, body))" by metis
  qed ((rule D mono(1) [OF D(2)] mono(2) [OF D(7)] mono(2) [OF D(8)] mono(2) [OF D(9)]; assumption) | (use D(5) mono(1) in blast))+
qed

text \<open>The steps, one by one, where they move a message.\<close>

lemma messages_ok_send:
  assumes M: "messages_ok svc ids q" and r: "r < length (cm_heap (ps_cm q))"
    and out: "Ok (err, cm) \<in> set (send_to_conn expired b msg r (ps_cm q))"
    and msg: "msg_Type msg = REQUEST \<Longrightarrow> asked (ps_requests q) (ac_ID (cm_heap (ps_cm q) ! r)) msg"
  shows "messages_ok svc ids (with_cm cm q)"
  using send_to_conn_view [OF out r]
proof (elim disjE exE conjE)
  assume "conn_view cm = conn_view (ps_cm q)"
  then show ?thesis by (rule messages_ok_view [OF M])
next
  fix k buf
  let ?a = "ac_ID (cm_heap (ps_cm q) ! r)"
  assume v: "conn_view (ps_cm q) ! r = (?a, k, buf)" "conn_view cm = (conn_view (ps_cm q))[r := (?a, k, buf @ [msg])]"
  have len: "r < length (conn_view (ps_cm q))" using r by (simp add: conn_view_def)
  then have "(?a, k, buf) \<in> set (conn_view (ps_cm q))" using v(1) nth_mem by fastforce
  with messages_okD(2) [OF M] msg show ?thesis by (intro messages_ok_queue [OF M v(1) len v(2)]) auto
qed

lemma messages_ok_take:
  assumes M: "messages_ok svc ids q" and r: "r < length (cm_heap (ps_cm q))" and conn: "conn = cm_heap (ps_cm q) ! r"
    and ch: "chan_try_recv (ac_SendCh conn) = Some (Some m, ch)" "same_message m m'"
  shows "messages_ok svc ids (with_cm ((ps_cm q)\<lparr>cm_heap := (cm_heap (ps_cm q))[r := conn\<lparr>ac_SendCh := ch\<rparr>]\<rparr>)
    (q\<lparr>ps_down := (ac_Stream conn, m') # ps_down q\<rparr>))"
proof -
  note D = messages_okD [OF M]
  let ?q = "q\<lparr>ps_down := (ac_Stream conn, m') # ps_down q\<rparr>"
  have buf: "chan_buf (ac_SendCh conn) = m # chan_buf ch" by (rule chan_try_recv_set [OF ch(1)])
  have len: "r < length (conn_view (ps_cm ?q))" using r by (simp add: conn_view_def)
  have at: "conn_view (ps_cm ?q) ! r = (ac_ID conn, ac_Stream conn, m # chan_buf ch)" using r buf by (simp add: conn_view_def conn)
  have v: "conn_view ((ps_cm q)\<lparr>cm_heap := (cm_heap (ps_cm q))[r := conn\<lparr>ac_SendCh := ch\<rparr>]\<rparr>) =
      (conn_view (ps_cm ?q))[r := (ac_ID conn, ac_Stream conn, chan_buf ch)]"
    by (simp add: conn_view_def map_update)
  have mem: "(ac_ID conn, ac_Stream conn, m # chan_buf ch) \<in> set (conn_view (ps_cm q))" using nth_mem [OF len] at by simp
  have "msg_Type m' = REQUEST \<Longrightarrow> asked (ps_requests q) (ac_ID conn) m'"
    using D(2) [OF mem, of m] asked_same [OF _ ch(2)] ch(2) by (simp add: same_message_def)
  then have "messages_ok svc ids (q\<lparr>ps_hello := ps_hello q, ps_down := (ac_Stream conn, m') # ps_down q, ps_up := ps_up q\<rparr>)"
    using D(1) [OF mem] D(4,5,8) by (intro messages_ok_transit [OF M]) auto
  then have "messages_ok svc ids ?q" by simp
  from messages_ok_queue [OF this at len v] D(2) [OF mem] show ?thesis by simp
qed

lemma messages_ok_handle:
  assumes M: "messages_ok svc ids q" and m: "(k, m) \<in> set (ps_down q)" "msg_Type m = REQUEST"
    and h: "handleRequest (svc k) m (ps_clients q ! k) = Ok c"
  shows "messages_ok svc ids (with_client k c (q\<lparr>ps_down := remove1 (k, m) (ps_down q)\<rparr>))"
proof -
  note D = messages_okD [OF M] and K = handleRequest_keeps [OF h]
  let ?q = "q\<lparr>ps_down := remove1 (k, m) (ps_down q)\<rparr>"
  have "messages_ok svc ids (q\<lparr>ps_hello := ps_hello q, ps_down := remove1 (k, m) (ps_down q), ps_up := ps_up q\<rparr>)"
    by (rule messages_ok_transit [OF M]) (use D(4,5,8) notin_set_remove1 in metis)+
  then have q: "messages_ok svc ids ?q" by simp
  have k: "k < length ids" "asked (ps_requests q) (fst (ids ! k)) m" using D(5) [OF m(1)] m(2) by blast+
  moreover have "cl_localURL (ps_clients q ! k) = snd (ids ! k)"
    using D(6) k(1) by (auto simp: client_ident_def)
  ultimately have "answered svc ids (ps_requests q) (agent_answer (svc k) (cl_localURL (ps_clients q ! k)) m)"
    using agent_answer_same unfolding answered_def by metis
  with K show ?thesis by (intro messages_ok_client [OF q]) auto
qed

lemma messages_ok_answer:
  assumes M: "messages_ok svc ids q" and k: "k < length (ps_clients q)"
    and ch: "chan_try_recv (cl_sendCh (ps_clients q ! k)) = Some (Some m, ch)" "same_message m m'"
  shows "messages_ok svc ids (with_client k ((ps_clients q ! k)\<lparr>cl_sendCh := ch\<rparr>) (q\<lparr>ps_up := m' # ps_up q\<rparr>))"
proof -
  note D = messages_okD [OF M]
  have buf: "chan_buf (cl_sendCh (ps_clients q ! k)) = m # chan_buf ch" by (rule chan_try_recv_set [OF ch(1)])
  have "answered svc ids (ps_requests q) m'" if "msg_Type m' = RESPONSE"
    using D(7) [OF nth_mem [OF k], of m] that buf ch(2) answered_same [OF _ ch(2)] by (simp add: same_message_def)
  then have "messages_ok svc ids (q\<lparr>ps_hello := ps_hello q, ps_down := ps_down q, ps_up := m' # ps_up q\<rparr>)"
    using D(4,5,8) by (intro messages_ok_transit [OF M]) auto
  then have "messages_ok svc ids (q\<lparr>ps_up := m' # ps_up q\<rparr>)" by simp
  then show ?thesis by (rule messages_ok_client) (simp_all add: buf client_ident_def)
qed

lemma messages_ok_dial:
  assumes M: "messages_ok svc ids q" and k: "k < length (ps_clients q)" and c: "connect env (ps_clients q ! k) = (res, c)"
  shows "messages_ok svc ids (with_client k c (q\<lparr>ps_hello := (case res of Inl e \<Rightarrow> ps_hello q | Inr (creds, m) \<Rightarrow> (k, m) # ps_hello q)\<rparr>))"
proof -
  note D = messages_okD [OF M] and K = connect_keeps [OF c]
  have id: "cl_agentID (ps_clients q ! k) = fst (ids ! k)" "k < length ids" using D(6) k by (auto simp: client_ident_def)
  have "messages_ok svc ids (q\<lparr>ps_hello := (case res of Inl e \<Rightarrow> ps_hello q | Inr (creds, m) \<Rightarrow> (k, m) # ps_hello q),
      ps_down := ps_down q, ps_up := ps_up q\<rparr>)"
    using D(4,5,8) K(3) id by (intro messages_ok_transit [OF M]) (auto split: sum.splits)
  then have "messages_ok svc ids (q\<lparr>ps_hello := (case res of Inl e \<Rightarrow> ps_hello q | Inr (creds, m) \<Rightarrow> (k, m) # ps_hello q)\<rparr>)" by simp
  then show ?thesis by (rule messages_ok_client) (simp_all add: K)
qed

lemma messages_ok_register:
  assumes M: "messages_ok svc ids q" and m: "(k, m) \<in> set (ps_hello q)"
    and reg: "Register I now k (metadata_get m ''agent_id'') (ps_cm q) = Ok (res, cm)"
  shows "messages_ok svc ids (with_cm cm (q\<lparr>ps_hello := remove1 (k, m) (ps_hello q)\<rparr>))"
proof -
  note D = messages_okD [OF M]
  let ?q = "q\<lparr>ps_hello := remove1 (k, m) (ps_hello q)\<rparr>"
  have "messages_ok svc ids (q\<lparr>ps_hello := remove1 (k, m) (ps_hello q), ps_down := ps_down q, ps_up := ps_up q\<rparr>)"
    by (rule messages_ok_transit [OF M]) (use D(4,5,8) notin_set_remove1 in metis)+
  then have q: "messages_ok svc ids ?q" by simp
  note E = messages_okD [OF q]
  have k: "k < length ids" "metadata_get m ''agent_id'' = fst (ids ! k)" using D(4) [OF m] by blast+
  from Register_view [OF reg] show ?thesis
  proof
    assume v: "conn_view cm = conn_view (ps_cm q) @ [(metadata_get m ''agent_id'', k, [])]"
    show ?thesis
    proof (rule messages_okI, unfold with_cm_simps)
      fix u r assume "(u, r) \<in> set (ps_sending ?q)"
      from E(3) [OF this] show "r < length (conn_view cm) \<and>
          (\<exists>c body. map_of (ps_requests ?q) u = Some (fst (conn_view cm ! r), c, body))"
        by (auto simp: v nth_append)
    next
      fix b l bf assume "(b, l, bf) \<in> set (conn_view cm)"
      with v k D(1) show "l < length ids \<and> fst (ids ! l) = b" by auto
    next
      fix b l bf n assume "(b, l, bf) \<in> set (conn_view cm)" "n \<in> set bf" "msg_Type n = REQUEST"
      with v D(2) show "asked (ps_requests ?q) b n" by auto
    qed (rule E; assumption)+
  qed (intro messages_ok_view [OF q], simp)
qed

text \<open>What reaches a requester was on its way before.\<close>

lemma deliver_messages:
  assumes "deliver_response ref m (rq_srv rq) = Ok s" "(m, ref) \<in> set (rq_delivering rq)"
  shows "response_messages (rq\<lparr>rq_srv := s, rq_delivering := remove1 (m, ref) (rq_delivering rq)\<rparr>) \<subseteq> response_messages rq"
proof -
  let ?c = "srv_chans (rq_srv rq) ! ref"
  have "(\<Union>c\<in>set (srv_chans s). set (chan_buf c)) \<subseteq> insert m (\<Union>c\<in>set (srv_chans (rq_srv rq)). set (chan_buf c))"
  proof (cases "chan_room ?c \<and> ref < length (srv_chans (rq_srv rq))")
    case True
    then have "srv_chans s = (srv_chans (rq_srv rq))[ref := chan_push m ?c]" "?c \<in> set (srv_chans (rq_srv rq))"
      using assms(1) by (auto simp: deliver_response_def chan_try_send_def split: if_splits)
    with set_update_subset_insert [of "srv_chans (rq_srv rq)" ref "chan_push m ?c"] show ?thesis by fastforce
  next
    case False
    then have "srv_chans s = srv_chans (rq_srv rq)"
      using assms(1) by (auto simp: deliver_response_def chan_try_send_def list_update_beyond not_less split: if_splits)
    then show ?thesis by auto
  qed
  moreover have "fst ` set (remove1 (m, ref) (rq_delivering rq)) \<subseteq> fst ` set (rq_delivering rq)"
    using set_remove1_subset by (rule image_mono)
  moreover have "m \<in> fst ` set (rq_delivering rq)" using assms(2) by force
  ultimately show ?thesis unfolding response_messages_def by simp blast
qed

lemma receive_messages:
  assumes "Ok (Inr m, s) \<in> set (await_response expired ctx_done ref (rq_srv rq))" "ref < length (srv_chans (rq_srv rq))"
  shows "response_messages (rq\<lparr>rq_srv := end_request uid s, rq_waiting := w, rq_returned := (uid, m) # rq_returned rq\<rparr>)
    \<subseteq> response_messages rq"
proof -
  from assms(1) obtain rest where buf: "chan_buf (srv_chans (rq_srv rq) ! ref) = m # rest"
      and s: "s = (rq_srv rq)\<lparr>srv_chans := (srv_chans (rq_srv rq))[ref := (srv_chans (rq_srv rq) ! ref)\<lparr>chan_buf := rest\<rparr>]\<rparr>"
    by (rule await_received)
  let ?chans = "srv_chans (rq_srv rq)"
  have mem: "?chans ! ref \<in> set ?chans" using assms(2) by simp
  have "set (srv_chans s) \<subseteq> insert ((?chans ! ref)\<lparr>chan_buf := rest\<rparr>) (set ?chans)"
    unfolding s using set_update_subset_insert by simp
  then have "(\<Union>c\<in>set (srv_chans s). set (chan_buf c)) \<subseteq> set rest \<union> (\<Union>c\<in>set ?chans. set (chan_buf c))" by fastforce
  moreover have "insert m (set rest) \<subseteq> (\<Union>c\<in>set ?chans. set (chan_buf c))" using mem buf by (auto intro: bexI [of _ "?chans ! ref"])
  ultimately show ?thesis unfolding response_messages_def by (simp add: server_parts) blast
qed

lemma psys_step_messages:
  assumes step: "psys_step svc q q'" and M: "messages_ok svc ids q" and R: "requests_ok q"
    and C: "conn_inv (ps_cm q)" and Q: "req_inv (ps_rq q)"
  shows "messages_ok svc ids q'"
proof -
  note D = messages_okD [OF M]
  have wf: "cm_wf (ps_cm q)" using C by (simp add: cm_inv_def)
  have same: "q\<lparr>ps_hello := ps_hello q, ps_down := ps_down q, ps_up := u\<rparr> = q\<lparr>ps_up := u\<rparr>" for u by simp
  from step show ?thesis
  proof cases
    case (arrives a c body uid ref s)
    have "response_messages ((ps_rq q)\<lparr>rq_srv := s, rq_waiting := w, rq_made_for := f\<rparr>) = response_messages (ps_rq q)" for w f
      using arrives(6) by (auto simp: begin_request_def response_messages_def)
    with arrives(1) messages_ok_arrives [OF M arrives(5)] server_parts(1) [OF arrives(6)] show ?thesis by simp
  next
    case (finds uid a c body r)
    note E = cm_wf_entry [OF wf finds(4)]
    with D(3) finds(3) have "messages_ok svc ids (q\<lparr>ps_queueing := remove1 uid (ps_queueing q), ps_sending := (uid, r) # ps_sending q\<rparr>)"
      by (intro messages_ok_senders [OF M]) (auto simp: conn_view_def)
    with finds(1) show ?thesis by simp
  next
    case (queues uid r a c body cm expired)
    have r: "r < length (cm_heap (ps_cm q))" "ac_ID (cm_heap (ps_cm q) ! r) = a"
      using D(3) [OF queues(2)] queues(3) by (auto simp: conn_view_def)
    let ?q = "q\<lparr>ps_queueing := ps_queueing q, ps_sending := remove1 (uid, r) (ps_sending q)\<rparr>"
    have "messages_ok svc ids ?q" by (rule messages_ok_senders [OF M]) (use D(3) notin_set_remove1 in metis)
    moreover have "asked (ps_requests ?q) (ac_ID (cm_heap (ps_cm ?q) ! r)) (build_request uid c (pc_Path c) body)"
      using asked_build [OF queues(3)] R queues(3) unfolding requests_ok_def by (auto simp: r(2))
    ultimately have "messages_ok svc ids (with_cm cm ?q)" using r(1) queues(4) by (intro messages_ok_send [of svc ids ?q]) simp_all
    with queues(1) show ?thesis by simp
  next
    case (loses u d h)
    have "messages_ok svc ids (q\<lparr>ps_hello := remove1 h (ps_hello q), ps_down := remove1 d (ps_down q), ps_up := remove1 u (ps_up q)\<rparr>)"
      by (rule messages_ok_transit [OF M]) (use D(4,5,8) notin_set_remove1 in metis)+
    with loses show ?thesis by simp
  next
    case (pings k m err c)
    then show ?thesis using Send_keeps [OF pings(4)] by (auto intro!: messages_ok_client [OF M])
  next
    case (hangs_up k)
    with disconnect_keeps show ?thesis by (auto intro!: messages_ok_client [OF M])
  next
    case (looks_up m ref)
    have "messages_ok svc ids (q\<lparr>ps_hello := ps_hello q, ps_down := ps_down q, ps_up := remove1 m (ps_up q)\<rparr>)"
      by (rule messages_ok_transit [OF M]) (use D(4,5,8) notin_set_remove1 in metis)+
    then have q: "messages_ok svc ids (q\<lparr>ps_up := remove1 m (ps_up q)\<rparr>)" unfolding same .
    have "messages_ok svc ids ((q\<lparr>ps_up := remove1 m (ps_up q)\<rparr>)\<lparr>ps_rq := (ps_rq q)\<lparr>rq_delivering := (m, ref) # rq_delivering (ps_rq q)\<rparr>\<rparr>)"
      using D(8) [OF looks_up(2,3)] D(9) by (intro messages_ok_responses [OF q]) (auto simp: response_messages_def)
    with looks_up(1) show ?thesis by simp
  next
    case (delivers m ref s)
    with deliver_messages [OF delivers(3,2)] D(9) server_parts(2) [OF delivers(3)] show ?thesis
      by (auto intro!: messages_ok_responses [OF M])
  next
    case (returns ref uid m s expired ctx_done)
    have "ref < length (srv_chans (ps_srv q))" using req_invD(4) [OF Q returns(2)] by simp
    note sub = receive_messages [OF returns(5) this]
    have "srv_connManager s = ps_cm q" using returns(5) by (auto elim!: await_received)
    with returns(1) sub D(9) show ?thesis by (auto simp: server_parts intro!: messages_ok_responses [OF M])
  next
    case (fails ref uid)
    let ?rq = "(ps_rq q)\<lparr>rq_srv := end_request uid (ps_srv q), rq_waiting := AList.delete ref (rq_waiting (ps_rq q))\<rparr>"
    have q: "messages_ok svc ids (q\<lparr>ps_rq := ?rq\<rparr>)"
      using D(9) by (intro messages_ok_responses [OF M]) (auto simp: response_messages_def server_parts)
    have "messages_ok svc ids ((q\<lparr>ps_rq := ?rq\<rparr>)\<lparr>ps_queueing := removeAll uid (ps_queueing q), ps_sending := filter (\<lambda>e. fst e \<noteq> uid) (ps_sending q)\<rparr>)"
      using messages_okD(3) [OF q] by (intro messages_ok_senders [OF q]) auto
    with fails(1) show ?thesis by simp
  next
    case (pong r msg err cm expired a)
    from messages_ok_send [OF M pong(2,4)] pong(1,3) show ?thesis by blast
  next
    case (transmits r conn m ch m')
    from messages_ok_take [OF M transmits(2-5)] transmits(1) show ?thesis by simp
  next
    case (handles k m c)
    from messages_ok_handle [OF M handles(2-4)] handles(1) show ?thesis by simp
  next
    case (answers k m ch m')
    from messages_ok_answer [OF M answers(2-4)] answers(1) show ?thesis by simp
  next
    case (dials k env res c)
    from messages_ok_dial [OF M dials(2,3)] dials(1) show ?thesis by simp
  next
    case (registers k m os t timed_out now res cm)
    from messages_ok_register [OF M registers(2,4)] registers(1) show ?thesis by simp
  qed (simp_all add: messages_ok_view [OF M] view_keeps)
qed

lemma psys_step_inv: "psys_step svc q q' \<Longrightarrow> psys_inv svc ids q \<Longrightarrow> psys_inv svc ids q'"
  unfolding psys_inv_def
  using psys_step_table [of svc q q' ids] psys_step_req [of svc q q'] psys_step_messages [of svc q q' ids]
    psys_step_requests [of svc q q'] table_step_inv [of "ps_cm q" "ps_cm q'"] req_step_inv [of "ps_rq q" "ps_rq q'"]
  by auto

lemma psys_init_inv:
  assumes "pm_inv pm" "allocatedPorts pm = []"
  shows "psys_inv svc (map (\<lambda>(a, url, tls). (a, url)) agents) (psys_init agents port tc pm)"
proof -
  let ?q = "psys_init agents port tc pm" and ?ids = "map (\<lambda>(a, url, tls). (a, url)) agents"
  have cm: "ps_cm ?q = NewConnectionManager (Some (NewAgentServerManager pm))"
    by (simp add: psys_init_def SetAgentServerManager_srv_def SetAgentServerManager_def NewServer_def NewConnectionManager_def)
  have "messages_ok svc ?ids ?q"
    unfolding messages_ok_def cm
    by (simp add: psys_init_def conn_view_def NewConnectionManager_def response_messages_def SetAgentServerManager_srv_def
        NewServer_def NewClient_def client_ident_def comp_def split_beta)
  moreover have "req_inv (ps_rq ?q)"
    by (simp add: psys_init_def req_inv_def SetAgentServerManager_srv_def NewServer_def)
  moreover have "requests_ok ?q" by (simp add: psys_init_def requests_ok_def)
  ultimately show ?thesis using conn_inv_new [OF assms] by (simp add: psys_inv_def cm)
qed

lemma psys_reach_inv:
  assumes "(psys_step svc)\<^sup>*\<^sup>* (psys_init agents port tc pm) q" "pm_inv pm" "allocatedPorts pm = []"
  shows "psys_inv svc (map (\<lambda>(a, url, tls). (a, url)) agents) q"
  using assms(1) by induction (auto intro: psys_init_inv [OF assms(2,3)] psys_step_inv)

text \<open>
  What an answer says about the local service.  \<open>service_failure\<close> lists the ways in which the agent cannot call it:
  the request cannot be made, the call fails, or the body of the response cannot be read.
\<close>

definition service_failure :: "http_env \<Rightarrow> string \<Rightarrow> LocalRequest \<Rightarrow> string \<Rightarrow> bool" where
  "service_failure env method req text \<longleftrightarrow>
     (\<exists>err. NewRequest_error env method (lr_URL req) = Some err \<and> text = ''failed to create request: '' @ err) \<or>
     (\<exists>err. Do env req = Inl err \<and> text = ''failed to execute request: '' @ err) \<or>
     (\<exists>resp err. Do env req = Inr resp \<and> lp_Body resp = Inl err \<and> text = ''failed to read response body: '' @ err)"

lemma agent_answer_cases:
  assumes "same_message (agent_answer env url msg) m"
  obtains (service) resp body where "Do env (local_request url msg) = Inr resp" "lp_Body resp = Inr body" "msg_Payload m = body"
      "gomap_ok (msg_Metadata m)" "map_of (msg_Metadata m) = map_of (response_metadata resp)"
  | (failure) "response_status m = 502" "service_failure env (metadata_get msg ''method'') (local_request url msg) (msg_Payload m)"
proof (cases "HandleRequest env url msg")
  case (Inl err)
  with assms have "map_of (msg_Metadata m) ''status_code'' = Some ''502''" by (simp add: agent_answer_def same_message_def)
  moreover have "Atoi ''502'' = Some 502" by code_simp
  moreover have "msg_Payload m = err" using assms Inl by (simp add: agent_answer_def same_message_def)
  moreover have "service_failure env (metadata_get msg ''method'') (local_request url msg) err"
    using Inl by (auto simp: HandleRequest_def Let_def service_failure_def split: option.splits sum.splits)
  ultimately show thesis by (intro failure) (simp_all add: response_status_def)
next
  case (Inr r)
  then obtain resp body where "Do env (local_request url msg) = Inr resp" "lp_Body resp = Inr body"
      "r = \<lparr>msg_Id = msg_Id msg, msg_Type = RESPONSE, msg_Payload = body, msg_Metadata = response_metadata resp\<rparr>"
    by (auto simp: HandleRequest_def Let_def split: option.splits sum.splits)
  with assms Inr show thesis by (intro service) (auto simp: agent_answer_def same_message_def)
qed

section \<open>Properties\<close>

text \<open>
  C2 (invariant): with any number of agents, requests and responses in flight, connections coming and going and messages
  lost or delayed, every HTTP request is answered at most once, and if it gets a response, then that is the response
  of the local service of an agent with the identifier whose port it came to, to exactly this request: method, path,
  query and body are those of the client, and body and status are those of the service, or the status is 502 and
  the body says how this agent's call of its service for this request failed.  Nothing an agent is asked was meant for another one.
\<close>

theorem responses_from_own_service:
  assumes reach: "(psys_step svc)\<^sup>*\<^sup>* (psys_init agents port tc pm) q" "pm_inv pm" "allocatedPorts pm = []"
  shows "distinct (map fst (rq_returned (ps_rq q))) \<and>
    (\<forall>uid m. (uid, m) \<in> set (rq_returned (ps_rq q)) \<longrightarrow> (\<exists>a c body k url tls req.
       map_of (ps_requests q) uid = Some (a, c, body) \<and> k < length agents \<and> agents ! k = (a, url, tls) \<and>
       lr_Method req = (if pc_Method c = [] then ''GET'' else pc_Method c) \<and>
       lr_URL req = url @ pc_Path c @ (if pc_RawQuery c = [] then [] else ''?'' @ pc_RawQuery c) \<and> lr_Body req = body \<and>
       (response_status m = 502 \<and> service_failure (svc k) (pc_Method c) req (msg_Payload m) \<or>
        (\<exists>resp. Do (svc k) req = Inr resp \<and> lp_Body resp = Inr (msg_Payload m) \<and>
           (canonical_header (lp_Header resp) \<and> - (2 ^ 63) \<le> lp_StatusCode resp \<and> lp_StatusCode resp < 2 ^ 63 \<longrightarrow>
            response_status m = lp_StatusCode resp))))) \<and>
    (\<forall>k msg. (k, msg) \<in> set (ps_down q) \<longrightarrow> k < length agents \<and>
       (msg_Type msg = REQUEST \<longrightarrow> (\<exists>c body. map_of (ps_requests q) (msg_Id msg) = Some (fst (agents ! k), c, body))))"
proof -
  let ?ids = "map (\<lambda>(a, url, tls). (a, url)) agents"
  have inv: "psys_inv svc ?ids q" by (rule psys_reach_inv [OF reach])
  then have M: "messages_ok svc ?ids q" and R: "requests_ok q" and Q: "req_inv (ps_rq q)" by (simp_all add: psys_inv_def)
  note D = messages_okD [OF M]
  have A: "\<exists>a c body k url tls req. map_of (ps_requests q) uid = Some (a, c, body) \<and> k < length agents \<and> agents ! k = (a, url, tls) \<and>
       lr_Method req = (if pc_Method c = [] then ''GET'' else pc_Method c) \<and>
       lr_URL req = url @ pc_Path c @ (if pc_RawQuery c = [] then [] else ''?'' @ pc_RawQuery c) \<and> lr_Body req = body \<and>
       (response_status m = 502 \<and> service_failure (svc k) (pc_Method c) req (msg_Payload m) \<or>
        (\<exists>resp. Do (svc k) req = Inr resp \<and> lp_Body resp = Inr (msg_Payload m) \<and>
           (canonical_header (lp_Header resp) \<and> - (2 ^ 63) \<le> lp_StatusCode resp \<and> lp_StatusCode resp < 2 ^ 63 \<longrightarrow>
            response_status m = lp_StatusCode resp)))" if ret: "(uid, m) \<in> set (rq_returned (ps_rq q))" for uid m
  proof -
    have "m \<in> response_messages (ps_rq q)" using ret by (force simp: response_messages_def)
    from D(9) [OF this] obtain k msg where k: "k < length agents" and ask: "asked (ps_requests q) (fst (?ids ! k)) msg"
        and ans: "same_message (agent_answer (svc k) (snd (?ids ! k)) msg) m"
      unfolding answered_def length_map by blast
    obtain a url tls where ag: "agents ! k = (a, url, tls)" by (cases "agents ! k")
    have id: "msg_Id msg = uid"
      using req_invD(6) [OF Q ret] ans by (simp add: same_message_def agent_answer_ids)
    from ask ag k id obtain c body where c: "map_of (ps_requests q) uid = Some (a, c, body)"
        "canonical_header (pc_Header c)" "same_message (build_request uid c (pc_Path c) body) msg"
      by (auto simp: asked_def)
    note T = request_translation(1-3) [OF c(2,3), of url]
    from ans have ans': "same_message (agent_answer (svc k) url msg) m" using ag k by simp
    then show ?thesis
    proof (cases rule: agent_answer_cases)
      case (service resp rbody)
      with response_translation(1) [of resp m] T c(1) k ag show ?thesis by blast
    next
      case failure
      have "gomap_ok (pc_Header c)" using c(2) by (simp add: canonical_header_def)
      from build_request_lookup(2) [OF this, of uid "pc_Path c" body] c(3) have "metadata_get msg ''method'' = pc_Method c"
        by (simp add: metadata_get_def same_message_def)
      with failure T c(1) k ag show ?thesis by metis
    qed
  qed
  have B: "k < length agents \<and> (msg_Type msg = REQUEST \<longrightarrow>
      (\<exists>c body. map_of (ps_requests q) (msg_Id msg) = Some (fst (agents ! k), c, body)))" if "(k, msg) \<in> set (ps_down q)" for k msg
    using D(5) [OF that] by (auto simp: asked_def split_beta)
  have "distinct (map fst (rq_returned (ps_rq q)))" using R by (simp add: requests_ok_def)
  then show ?thesis by (intro conjI allI impI A) (use B in blast)+
qed

text \<open>One request, from the registration of the agent to the response.\<close>

fun ok_value :: "'a outcome \<Rightarrow> 'a" where
  "ok_value (Ok x) = x"
| "ok_value _ = undefined"

definition run_env :: "(string, string, string) connect_env" where
  "run_env = \<lparr>cv_tls = \<lparr>LoadX509KeyPair = \<lambda>c k. None, ReadFile = \<lambda>f. None, AppendCertsFromPEM = \<lambda>p. None\<rparr>,
     cv_dial = True, cv_stream = True, cv_send = True, cv_uid = ''h''\<rparr>"

definition run_svc :: "nat \<Rightarrow> http_env" where
  "run_svc k = \<lparr>NewRequest_error = \<lambda>m u. None,
     Do = \<lambda>r. Inr \<lparr>lp_StatusCode = 404, lp_Header = [], lp_Body = Inr (''no '' @ lr_URL r)\<rparr>\<rparr>"

definition run_ctx :: ProxyContext where
  "run_ctx = \<lparr>pc_Method = ''GET'', pc_Path = ''/v'', pc_RawQuery = '''', pc_ContentType = '''', pc_Header = [], pc_Body = Inr ''''\<rparr>"

definition run_request :: ProxyMessage where
  "run_request = build_request ''u'' run_ctx ''/v'' ''''"

definition run_answer :: ProxyMessage where
  "run_answer = agent_answer (run_svc 0) ''http://l'' run_request"

definition run0 :: psys where
  "run0 = psys_init [(''a'', ''http://l'', None)] 9090 None example_pool"

definition run1 :: psys where
  "run1 = (let (res, c) = connect run_env (ps_clients run0 ! 0) in
     with_client 0 c (run0\<lparr>ps_hello := (case res of Inl e \<Rightarrow> ps_hello run0 | Inr (creds, m) \<Rightarrow> (0, m) # ps_hello run0)\<rparr>))"

definition run2 :: psys where
  "run2 = (let m = snd (hd (ps_hello run1)) in
     with_cm (snd (ok_value (Register (asm_iface (\<lambda>k p. True) 7 (\<lambda>a. False)) 7 0 (metadata_get m ''agent_id'') (ps_cm run1))))
       (run1\<lparr>ps_hello := remove1 (0, m) (ps_hello run1)\<rparr>))"

definition run3 :: psys where
  "run3 = (let (ref, s) = begin_request ''u'' (ps_srv run2) in
     run2\<lparr>ps_rq := (ps_rq run2)\<lparr>rq_srv := s, rq_waiting := AList.update ref ''u'' (rq_waiting (ps_rq run2)),
        rq_made_for := rq_made_for (ps_rq run2) @ [''u'']\<rparr>,
        ps_requests := AList.update ''u'' (''a'', run_ctx, '''') (ps_requests run2), ps_queueing := ''u'' # ps_queueing run2\<rparr>)"

text \<open>The states while the request is in flight: where its messages are.\<close>

definition asking :: "string list \<Rightarrow> (string \<times> nat) list \<Rightarrow> ProxyMessage list \<Rightarrow> (nat \<times> ProxyMessage) list \<Rightarrow> ProxyMessage list \<Rightarrow>
    ProxyMessage list \<Rightarrow> (ProxyMessage \<times> nat) list \<Rightarrow> ProxyMessage list \<Rightarrow> psys" where
  "asking queueing sending queue down answers up delivering response =
     (let cm = ps_cm run2; conn = cm_heap cm ! 0; c = ps_clients run2 ! 0 in
      \<lparr>ps_rq = \<lparr>rq_srv = \<lparr>srv_grpcServer = False, srv_listener = False,
          srv_connManager = cm\<lparr>cm_heap := [conn\<lparr>ac_SendCh := (make_chan 100)\<lparr>chan_buf := queue\<rparr>\<rparr>]\<rparr>, srv_port = 9090, srv_tlsConfig = None,
          srv_pendingRequests = [(''u'', 0)], srv_chans = [(make_chan 1)\<lparr>chan_buf := response\<rparr>]\<rparr>,
          rq_waiting = [(0, ''u'')], rq_delivering = delivering, rq_made_for = [''u''], rq_returned = []\<rparr>,
       ps_requests = [(''u'', ''a'', run_ctx, '''')], ps_queueing = queueing, ps_sending = sending, ps_hello = [], ps_down = down,
       ps_up = up, ps_clients = [c\<lparr>cl_sendCh := (make_chan 100)\<lparr>chan_buf := answers\<rparr>\<rparr>]\<rparr>)"

lemma ok_value_eq: "r \<noteq> Block \<Longrightarrow> r \<noteq> Panic \<Longrightarrow> r = Ok (ok_value r)"
  by (cases r) auto

lemma run_messages:
  "same_message run_request run_request" "same_message run_answer run_answer" "run_request = build_request ''u'' run_ctx (pc_Path run_ctx) ''''"
  "msg_Id run_answer = ''u''" "msg_Type run_answer = RESPONSE" "msg_Type run_request = REQUEST" "pc_Path run_ctx = ''/v''"
  by (simp_all add: run_request_def run_answer_def build_request_same agent_answer_same run_ctx_def agent_answer_ids)

lemma run2_parts: "ac_Stream (cm_heap (ps_cm run2) ! 0) = 0" "ac_cancelled (cm_heap (ps_cm run2) ! 0) = False"
  "cm_agents (ps_cm run2) = [(''a'', 0)]" "cl_localURL (ps_clients run2 ! 0) = ''http://l''"
  by code_simp+

lemma run_connects: "psys_step run_svc run0 run1" "psys_step run_svc run1 run2"
proof -
  have "0 < length (ps_clients run0)" by code_simp
  from psys_step.dials [OF this prod.collapse [symmetric]] show "psys_step run_svc run0 run1"
    unfolding run1_def split_beta Let_def by blast
  let ?m = "snd (hd (ps_hello run1))"
  let ?r = "Register (asm_iface (\<lambda>k p. True) 7 (\<lambda>a. False)) 7 0 (metadata_get ?m ''agent_id'') (ps_cm run1)"
  have h: "(0, ?m) \<in> set (ps_hello run1)" "metadata_get ?m ''agent_id'' \<noteq> []" "?r \<noteq> Block" "?r \<noteq> Panic" by code_simp+
  have "?r = Ok (fst (ok_value ?r), snd (ok_value ?r))" using ok_value_eq [OF h(3,4)] by simp
  from psys_step.registers [OF h(1,2) this] show "psys_step run_svc run1 run2" unfolding run2_def Let_def .
qed

lemma run_asks: "psys_step run_svc run2 (asking [''u''] [] [] [] [] [] [] [])"
proof -
  have ask: "GetConnection ''a'' (ps_cm run2) \<noteq> None" "pc_Body run_ctx = Inr ''''" "''u'' \<notin> keys (ps_requests run2)" by code_simp+
  have can: "canonical_header (pc_Header run_ctx)" by (simp add: run_ctx_def canonical_header_def)
  have "run3 = asking [''u''] [] [] [] [] [] [] []" by code_simp
  with psys_step.arrives [OF ask(1,2) can ask(3) prod.collapse [symmetric], of run_svc] show ?thesis
    unfolding run3_def split_beta Let_def by metis
qed

lemma run_asked:
  "psys_step run_svc (asking [''u''] [] [] [] [] [] [] []) (asking [] [(''u'', 0)] [] [] [] [] [] [])"
  "psys_step run_svc (asking [] [(''u'', 0)] [] [] [] [] [] []) (asking [] [] [run_request] [] [] [] [] [])"
  "psys_step run_svc (asking [] [] [run_request] [] [] [] [] []) (asking [] [] [] [(0, run_request)] [] [] [] [])"
proof -
  show "psys_step run_svc (asking [''u''] [] [] [] [] [] [] []) (asking [] [(''u'', 0)] [] [] [] [] [] [])"
    using psys_step.finds [of "''u''" "asking [''u''] [] [] [] [] [] [] []" "''a''" run_ctx "''''" 0 run_svc]
    by (simp add: asking_def Let_def run2_parts)
  let ?q = "asking [] [(''u'', 0)] [] [] [] [] [] []"
  let ?cm = "ps_cm (asking [] [] [run_request] [] [] [] [] [])"
  have "Ok (None, ?cm) \<in> set (send_to_conn False ''a'' run_request 0 (ps_cm ?q)
      :: (asm_error cm_error option \<times> AgentServerManager ConnectionManager) outcome list)"
    by (simp add: asking_def Let_def send_to_conn_def send_select_def chan_room_def chan_push_def make_chan_def)
  then show "psys_step run_svc ?q (asking [] [] [run_request] [] [] [] [] [])"
    using psys_step.queues [of "''u''" 0 ?q "''a''" run_ctx "''''" ?cm False run_svc] run_messages(3)
    by (simp add: asking_def Let_def with_cm_def)
  let ?q = "asking [] [] [run_request] [] [] [] [] []"
  show "psys_step run_svc ?q (asking [] [] [] [(0, run_request)] [] [] [] [])"
    using psys_step.transmits [of 0 ?q "cm_heap (ps_cm ?q) ! 0" run_request "make_chan 100" run_request run_svc] run_messages(1)
    by (simp add: asking_def Let_def with_cm_def chan_try_recv_def run2_parts make_chan_def)
qed

lemma run_answered:
  "psys_step run_svc (asking [] [] [] [(0, run_request)] [] [] [] []) (asking [] [] [] [] [run_answer] [] [] [])"
  "psys_step run_svc (asking [] [] [] [] [run_answer] [] [] []) (asking [] [] [] [] [] [run_answer] [] [])"
  "psys_step run_svc (asking [] [] [] [] [] [run_answer] [] []) (asking [] [] [] [] [] [] [(run_answer, 0)] [])"
  "psys_step run_svc (asking [] [] [] [] [] [] [(run_answer, 0)] []) (asking [] [] [] [] [] [] [] [run_answer])"
proof -
  let ?q = "asking [] [] [] [(0, run_request)] [] [] [] []" and ?c = "ps_clients (asking [] [] [] [] [run_answer] [] [] []) ! 0"
  have "handleRequest (run_svc 0) run_request (ps_clients ?q ! 0) = Ok ?c"
    by (simp add: asking_def Let_def handleRequest_eq Send_def chan_try_send_def chan_room_def chan_push_def make_chan_def run2_parts run_answer_def)
  then show "psys_step run_svc ?q (asking [] [] [] [] [run_answer] [] [] [])"
    using psys_step.handles [of 0 run_request ?q run_svc ?c] run_messages(6) by (simp add: asking_def Let_def with_client_def)
  let ?q = "asking [] [] [] [] [run_answer] [] [] []"
  show "psys_step run_svc ?q (asking [] [] [] [] [] [run_answer] [] [])"
    using psys_step.answers [of 0 ?q run_answer "make_chan 100" run_answer run_svc] run_messages(2)
    by (simp add: asking_def Let_def with_client_def chan_try_recv_def make_chan_def)
  let ?q = "asking [] [] [] [] [] [run_answer] [] []"
  show "psys_step run_svc ?q (asking [] [] [] [] [] [] [(run_answer, 0)] [])"
    using psys_step.looks_up [of run_answer ?q 0 run_svc] run_messages(4,5) by (simp add: asking_def Let_def)
  let ?q = "asking [] [] [] [] [] [] [(run_answer, 0)] []"
  show "psys_step run_svc ?q (asking [] [] [] [] [] [] [] [run_answer])"
    using psys_step.delivers [of run_answer 0 ?q "ps_srv (asking [] [] [] [] [] [] [] [run_answer])" run_svc]
    by (simp add: asking_def Let_def deliver_response_def chan_try_send_def chan_room_def chan_push_def make_chan_def)
qed

definition run_end :: psys where
  "run_end = (let q = asking [] [] [] [] [] [] [] [] in
     q\<lparr>ps_rq := (ps_rq q)\<lparr>rq_srv := end_request ''u'' (ps_srv q), rq_waiting := [], rq_returned := [(''u'', run_answer)]\<rparr>\<rparr>)"

lemma run_returns: "psys_step run_svc (asking [] [] [] [] [] [] [] [run_answer]) run_end"
proof -
  let ?q = "asking [] [] [] [] [] [] [] [run_answer]" and ?s = "ps_srv (asking [] [] [] [] [] [] [] [])"
  have "Ok (Inr run_answer, ?s) \<in> set (await_response False False 0 (ps_srv ?q)
      :: ((unit request_error + ProxyMessage) \<times> AgentServerManager Server) outcome list)"
    by (simp add: asking_def Let_def await_response_def make_chan_def)
  then show ?thesis
    using psys_step.returns [of ?q 0 "''u''" run_answer ?s False False run_svc] by (simp add: asking_def Let_def run_end_def)
qed

lemma run_reaches: "(psys_step run_svc)\<^sup>*\<^sup>* run0 run_end"
  by (rule converse_rtranclp_into_rtranclp, rule run_connects(1), rule converse_rtranclp_into_rtranclp, rule run_connects(2),
      rule converse_rtranclp_into_rtranclp, rule run_asks, rule converse_rtranclp_into_rtranclp, rule run_asked(1),
      rule converse_rtranclp_into_rtranclp, rule run_asked(2), rule converse_rtranclp_into_rtranclp, rule run_asked(3),
      rule converse_rtranclp_into_rtranclp, rule run_answered(1), rule converse_rtranclp_into_rtranclp, rule run_answered(2),
      rule converse_rtranclp_into_rtranclp, rule run_answered(3), rule converse_rtranclp_into_rtranclp, rule run_answered(4),
      rule r_into_rtranclp, rule run_returns)

theorem responses_from_own_service_witness:
  "rq_returned (ps_rq run_end) = [(''u'', run_answer)] \<and> (\<exists>req resp. lr_URL req = ''http://l/v'' \<and> Do (run_svc 0) req = Inr resp \<and>
     lp_Body resp = Inr (msg_Payload run_answer))"
proof -
  have "response_status run_answer \<noteq> 502" by code_simp
  moreover have "rq_returned (ps_rq run_end) = [(''u'', run_answer)]" "map_of (ps_requests run_end) ''u'' = Some (''a'', run_ctx, '''')"
    by (simp_all add: run_end_def asking_def Let_def)
  ultimately show ?thesis
    using responses_from_own_service [OF run_reaches [unfolded run0_def] example_pool_inv] by (auto simp: run_ctx_def)
qed

text \<open>
  A response is matched by its identifier alone: the server hands it to the requester whichever agent's stream it arrived
  on.  That responses come from the agent that was asked rests on the agents, and on identifiers that others do
  not learn.
\<close>

theorem any_agent_can_answer:
  assumes "msg_Type m = RESPONSE" "map_of (srv_pendingRequests s) (msg_Id m) = Some ref" "ref < length (srv_chans s)"
    and "\<not> chan_closed (srv_chans s ! ref)" "chan_room (srv_chans s ! ref)"
  shows "\<exists>s'. (\<forall>b. (processMessage expired uid b m s :: ('e cm_error option \<times> 'm Server) outcome list) = [Ok (None, s')]) \<and>
    m \<in> set (chan_buf (srv_chans s' ! ref))"
  using assms by (simp add: processMessage_def HandleResponse_def deliver_response_open)

end
