(* ===== verification/Key_Store.thy ===== *)
theory Key_Store
  imports Silo_Prelude
begin

text \<open>
  \<^verbatim>\<open>internal/provision/key_store.go\<close>: one-time keys with which an agent obtains its certificate.  Every
  operation holds the mutex while it touches the map, so a history of the store is a sequence of
  operations (\<open>ks_step\<close>).  Random bytes and the clock are arguments.
\<close>

section \<open>State and operations\<close>

record ProvisionKey =
  pk_Key :: string
  pk_AgentID :: string
  pk_CreatedAt :: gotime
  pk_ExpiresAt :: gotime
  pk_Used :: bool

record KeyStore =
  ks_keys :: "(string, ProvisionKey) gomap"
  ks_ttl :: duration

datatype ks_error = ErrKeyNotFound | ErrKeyExpired | ErrKeyAlreadyUsed | ErrRandom

definition NewKeyStore :: "duration \<Rightarrow> KeyStore" where
  "NewKeyStore ttl = \<lparr>ks_keys = [], ks_ttl = ttl\<rparr>"

text \<open>\<^verbatim>\<open>hex.EncodeToString\<close>: two lower-case digits for each byte.\<close>

definition hex_digit :: "nat \<Rightarrow> char" where
  "hex_digit d = (if d < 10 then char_of (48 + d) else char_of (87 + d))"

definition hex_byte :: "char \<Rightarrow> string" where
  "hex_byte c = [hex_digit (of_char c div 16), hex_digit (of_char c mod 16)]"

definition EncodeToString :: "string \<Rightarrow> string" where
  "EncodeToString b = concat (map hex_byte b)"

text \<open>\<open>rnd\<close> are the 32 bytes that \<^verbatim>\<open>rand.Read\<close> delivers, \<open>None\<close> if it fails.\<close>

definition Create :: "string option \<Rightarrow> gotime \<Rightarrow> string \<Rightarrow> KeyStore \<Rightarrow> (ks_error + ProvisionKey) \<times> KeyStore" where
  "Create rnd now agentID ks =
     (case rnd of
        None \<Rightarrow> (Inl ErrRandom, ks)
      | Some b \<Rightarrow>
          let key = ''sk_'' @ EncodeToString b;
              pk = \<lparr>pk_Key = key, pk_AgentID = agentID, pk_CreatedAt = now,
                    pk_ExpiresAt = time_add now (ks_ttl ks), pk_Used = False\<rparr>
          in (Inr pk, ks\<lparr>ks_keys := AList.update key pk (ks_keys ks)\<rparr>))"

definition Validate :: "gotime \<Rightarrow> string \<Rightarrow> KeyStore \<Rightarrow> ks_error + ProvisionKey" where
  "Validate now key ks =
     (case map_of (ks_keys ks) key of
        None \<Rightarrow> Inl ErrKeyNotFound
      | Some pk \<Rightarrow>
          if pk_Used pk then Inl ErrKeyAlreadyUsed
          else if time_after now (pk_ExpiresAt pk) then Inl ErrKeyExpired
          else Inr pk)"

definition MarkUsed :: "string \<Rightarrow> KeyStore \<Rightarrow> KeyStore" where
  "MarkUsed key ks =
     (case map_of (ks_keys ks) key of
        Some pk \<Rightarrow> ks\<lparr>ks_keys := AList.update key (pk\<lparr>pk_Used := True\<rparr>) (ks_keys ks)\<rparr>
      | None \<Rightarrow> ks)"

text \<open>The loops of \<^verbatim>\<open>Revoke\<close> and \<^verbatim>\<open>cleanup\<close> delete the entry they visit.\<close>

definition Revoke :: "string \<Rightarrow> KeyStore \<Rightarrow> bool \<times> KeyStore" where
  "Revoke agentID ks =
     (let (removed, m) =
        fold (\<lambda>(key, pk) (removed, m).
                if pk_AgentID pk = agentID then (True, AList.delete key m) else (removed, m))
          (ks_keys ks) (False, ks_keys ks)
      in (removed, ks\<lparr>ks_keys := m\<rparr>))"

text \<open>\<^verbatim>\<open>List\<close> reads the clock for every key; \<open>now k\<close> is its value for the key \<open>k\<close>.\<close>

definition List_keys :: "(string \<Rightarrow> gotime) \<Rightarrow> KeyStore \<Rightarrow> ProvisionKey list" where
  "List_keys now ks =
     map (\<lambda>(key, pk). \<lparr>pk_Key = [], pk_AgentID = pk_AgentID pk, pk_CreatedAt = pk_CreatedAt pk,
                       pk_ExpiresAt = pk_ExpiresAt pk, pk_Used = False\<rparr>)
       (filter (\<lambda>(key, pk). \<not> (pk_Used pk \<or> time_after (now key) (pk_ExpiresAt pk))) (ks_keys ks))"

definition cleanup :: "gotime \<Rightarrow> KeyStore \<Rightarrow> KeyStore" where
  "cleanup now ks =
     ks\<lparr>ks_keys :=
       fold (\<lambda>(key, pk) m. if pk_Used pk \<or> time_after now (pk_ExpiresAt pk) then AList.delete key m else m)
         (ks_keys ks) (ks_keys ks)\<rparr>"

text \<open>
  The goroutine \<^verbatim>\<open>StartCleanup\<close>: \<open>Some now\<close> is a tick, \<open>None\<close> the end of its context.  A ticker needs a
  positive interval.
\<close>

fun cleanup_loop :: "gotime option list \<Rightarrow> KeyStore \<Rightarrow> KeyStore" where
  "cleanup_loop [] ks = ks"
| "cleanup_loop (Some now # evs) ks = cleanup_loop evs (cleanup now ks)"
| "cleanup_loop (None # evs) ks = ks"

definition StartCleanup :: "duration \<Rightarrow> gotime option list \<Rightarrow> KeyStore \<Rightarrow> KeyStore outcome" where
  "StartCleanup interval evs ks = (if interval \<le> 0 then Panic else Ok (cleanup_loop evs ks))"

section \<open>Histories\<close>

datatype ks_op =
    CreateOp "string option" gotime string
  | MarkUsedOp string
  | RevokeOp string
  | CleanupOp gotime

fun ks_step :: "ks_op \<Rightarrow> KeyStore \<Rightarrow> KeyStore" where
  "ks_step (CreateOp rnd now a) ks = snd (Create rnd now a ks)"
| "ks_step (MarkUsedOp k) ks = MarkUsed k ks"
| "ks_step (RevokeOp a) ks = snd (Revoke a ks)"
| "ks_step (CleanupOp now) ks = cleanup now ks"

definition ks_run :: "ks_op list \<Rightarrow> KeyStore \<Rightarrow> KeyStore" where
  "ks_run ops ks = fold ks_step ops ks"

section \<open>Lemmas\<close>

lemma of_hex_digit: "d < 16 \<Longrightarrow> (of_char (hex_digit d) :: nat) = (if d < 10 then 48 + d else 87 + d)"
  by (simp add: hex_digit_def)

lemma hex_digit_inj: "d < 16 \<Longrightarrow> e < 16 \<Longrightarrow> hex_digit d = hex_digit e \<Longrightarrow> d = e"
proof -
  assume d: "d < 16" and e: "e < 16" and eq: "hex_digit d = hex_digit e"
  have "(if d < 10 then 48 + d else 87 + d) = (if e < 10 then 48 + e else 87 + e)"
    unfolding of_hex_digit [OF d, symmetric] of_hex_digit [OF e, symmetric] eq ..
  then show "d = e" using d e by (simp split: if_splits)
qed

lemma hex_byte_inj: "hex_byte c = hex_byte d \<Longrightarrow> c = d"
proof -
  assume eq: "hex_byte c = hex_byte d"
  have lt: "(of_char x :: nat) div 16 < 16" "(of_char x :: nat) mod 16 < 16" for x :: char
  proof -
    have "(of_char x :: nat) < 256" by (metis of_char_mod_256 mod_less_divisor zero_less_numeral)
    then show "(of_char x :: nat) div 16 < 16" "(of_char x :: nat) mod 16 < 16"
      by (simp_all add: div_less_iff_less_mult)
  qed
  have "(of_char c :: nat) div 16 = of_char d div 16" "(of_char c :: nat) mod 16 = of_char d mod 16"
    using eq hex_digit_inj [OF lt(1) lt(1)] hex_digit_inj [OF lt(2) lt(2)] by (auto simp: hex_byte_def)
  then have "(of_char c :: nat) = of_char d" by (metis div_mult_mod_eq)
  then show "c = d" by simp
qed

lemma EncodeToString_inj: "EncodeToString a = EncodeToString b \<Longrightarrow> a = b"
proof (induction a arbitrary: b)
  case Nil
  then show ?case by (cases b) (auto simp: EncodeToString_def hex_byte_def)
next
  case (Cons c a)
  then obtain d b' where b: "b = d # b'" by (cases b) (auto simp: EncodeToString_def hex_byte_def)
  with Cons.prems have "hex_byte c = hex_byte d" "EncodeToString a = EncodeToString b'"
    by (auto simp: EncodeToString_def hex_byte_def)
  with Cons.IH b show ?case by (auto dest: hex_byte_inj)
qed

lemma Revoke_eq:
  assumes "gomap_ok (ks_keys ks)"
  shows "Revoke a ks = ((\<exists>k pk. map_of (ks_keys ks) k = Some pk \<and> pk_AgentID pk = a),
    ks\<lparr>ks_keys := filter (\<lambda>(k, pk). pk_AgentID pk \<noteq> a) (ks_keys ks)\<rparr>)"
proof -
  have split: "fold (\<lambda>(key, pk) (removed, m). if pk_AgentID pk = a then (True, AList.delete key m) else (removed, m)) xs (r, m)
    = (r \<or> (\<exists>(k, pk)\<in>set xs. pk_AgentID pk = a), fold (\<lambda>(key, pk) m. if pk_AgentID pk = a then AList.delete key m else m) xs m)"
    for xs r m
    by (induction xs arbitrary: r m) auto
  show ?thesis
    unfolding Revoke_def split fold_delete_filter [OF assms]
    using gomap_in_iff [OF assms] by (auto simp: Let_def)
qed

lemma cleanup_eq:
  "gomap_ok (ks_keys ks) \<Longrightarrow> cleanup now ks =
     ks\<lparr>ks_keys := filter (\<lambda>(k, pk). \<not> (pk_Used pk \<or> time_after now (pk_ExpiresAt pk))) (ks_keys ks)\<rparr>"
  by (simp add: cleanup_def fold_delete_filter)

section \<open>What a store promises\<close>

text \<open>The keys that are accepted at the time \<open>t\<close>, each with its agent, and what the operations do to them.\<close>

definition live_keys :: "gotime \<Rightarrow> KeyStore \<Rightarrow> string \<Rightarrow> string option" where
  "live_keys t ks k = (case Validate t k ks of Inr pk \<Rightarrow> Some (pk_AgentID pk) | Inl e \<Rightarrow> None)"

fun spec_step :: "gotime \<Rightarrow> duration \<Rightarrow> ks_op \<Rightarrow> (string \<Rightarrow> string option) \<Rightarrow> string \<Rightarrow> string option" where
  "spec_step t ttl (CreateOp None now a) m = m"
| "spec_step t ttl (CreateOp (Some b) now a) m = m(''sk_'' @ EncodeToString b := if t \<le> now + ttl then Some a else None)"
| "spec_step t ttl (MarkUsedOp k) m = m(k := None)"
| "spec_step t ttl (RevokeOp a) m = (\<lambda>k. if m k = Some a then None else m k)"
| "spec_step t ttl (CleanupOp now) m = m"

text \<open>
  The contract between the store and the handlers that use it.  A key is live at some times; a use ends it, a revocation ends
  the keys of an agent, and a cleanup ends only keys that are dead from then on.
\<close>

locale key_table =
  fixes create :: "string option \<Rightarrow> gotime \<Rightarrow> string \<Rightarrow> 's \<Rightarrow> 's"
    and mark_used :: "string \<Rightarrow> 's \<Rightarrow> 's"
    and revoke :: "string \<Rightarrow> 's \<Rightarrow> 's"
    and clean :: "gotime \<Rightarrow> 's \<Rightarrow> 's"
    and ok :: "'s \<Rightarrow> bool"
    and ttl :: "'s \<Rightarrow> duration"
    and agent_of :: "gotime \<Rightarrow> 's \<Rightarrow> string \<Rightarrow> string option"
  assumes ok_create: "ok s \<Longrightarrow> ok (create rnd now a s)" and ok_used: "ok s \<Longrightarrow> ok (mark_used k s)"
    and ok_revoke: "ok s \<Longrightarrow> ok (revoke a s)" and ok_clean: "ok s \<Longrightarrow> ok (clean now s)"
    and ttl_same: "ttl (create rnd now a s) = ttl s" "ttl (mark_used k s) = ttl s" "ttl (revoke a s) = ttl s" "ttl (clean now s) = ttl s"
    and create_none: "create None now a s = s"
    and create_some: "agent_of t (create (Some b) now a s) =
      (agent_of t s)(''sk_'' @ EncodeToString b := if t \<le> now + ttl s then Some a else None)"
    and used: "agent_of t (mark_used k s) = (agent_of t s)(k := None)"
    and revoked: "ok s \<Longrightarrow> agent_of t (revoke a s) = (\<lambda>k. if agent_of t s k = Some a then None else agent_of t s k)"
    and cleaned: "ok s \<Longrightarrow> now \<le> t \<Longrightarrow> agent_of t (clean now s) = agent_of t s"
    and clean_ends: "ok s \<Longrightarrow> agent_of t (clean now s) k = Some a \<Longrightarrow> agent_of t s k = Some a"
begin

fun step :: "ks_op \<Rightarrow> 's \<Rightarrow> 's" where
  "step (CreateOp rnd now a) s = create rnd now a s"
| "step (MarkUsedOp k) s = mark_used k s"
| "step (RevokeOp a) s = revoke a s"
| "step (CleanupOp now) s = clean now s"

lemma step_ok: "ok s \<Longrightarrow> ok (step op s)"
  by (cases op) (simp_all add: ok_create ok_used ok_revoke ok_clean)

lemma step_ttl: "ttl (step op s) = ttl s"
  by (cases op) (simp_all add: ttl_same)

lemma step_refines:
  assumes "ok s" "\<And>now. op = CleanupOp now \<Longrightarrow> now \<le> t"
  shows "agent_of t (step op s) = spec_step t (ttl s) op (agent_of t s)"
proof (cases op)
  case (CreateOp rnd now a)
  then show ?thesis by (cases rnd) (simp_all add: create_none create_some)
qed (use assms in \<open>simp_all add: used revoked cleaned\<close>)

lemma run_refines:
  assumes "ok s" "\<And>now. CleanupOp now \<in> set ops \<Longrightarrow> now \<le> t"
  shows "agent_of t (fold step ops s) = fold (spec_step t (ttl s)) ops (agent_of t s)"
  using assms
proof (induction ops arbitrary: s)
  case (Cons op ops)
  then show ?case using step_ok [of s op] step_refines [of s op t] by (simp add: step_ttl)
qed simp

text \<open>A live key was live before, for the same agent, or has just been created for it.\<close>

lemma step_live:
  assumes "ok s" "agent_of t (step op s) k = Some a"
  obtains (old) "agent_of t s k = Some a" | (new) b now where "op = CreateOp (Some b) now a" "k = ''sk_'' @ EncodeToString b"
proof (cases op)
  case (CreateOp rnd now a')
  show thesis
  proof (cases rnd)
    case None
    with CreateOp assms(2) old show ?thesis by (simp add: create_none)
  next
    case (Some b)
    with CreateOp assms(2) old new show ?thesis by (auto simp: create_some split: if_splits)
  qed
qed (use assms old in \<open>auto simp: used revoked dest: clean_ends split: if_splits\<close>)

lemma agents_kept:
  assumes "ok s" "\<And>t k a. agent_of t s k = Some a \<Longrightarrow> P a" "\<And>b now a. op = CreateOp (Some b) now a \<Longrightarrow> P a"
    and "agent_of t (step op s) k = Some a"
  shows "P a"
  by (rule step_live [OF assms(1,4)]) (use assms(2,3) in blast)+

lemma dead_forever:
  assumes "ok s" "\<And>t. agent_of t s k = None" "\<And>b now a. CreateOp (Some b) now a \<in> set ops \<Longrightarrow> ''sk_'' @ EncodeToString b \<noteq> k"
  shows "agent_of t (fold step ops s) k = None"
  using assms
proof (induction ops arbitrary: s)
  case (Cons op ops)
  have "agent_of t (step op s) k = None" for t
  proof (rule ccontr)
    assume "agent_of t (step op s) k \<noteq> None"
    then obtain a where "agent_of t (step op s) k = Some a" by blast
    then show False by (rule step_live [OF Cons.prems(1)]) (use Cons.prems in auto)
  qed
  then have "agent_of t (fold step ops (step op s)) k = None"
    by (rule Cons.IH [OF step_ok [OF Cons.prems(1)]]) (rule Cons.prems(3), rule list.set_intros(2))
  then show ?case by simp
qed simp

end

lemma live_keys_eq:
  "live_keys t ks k = (case map_of (ks_keys ks) k of
     Some pk \<Rightarrow> if \<not> pk_Used pk \<and> t \<le> pk_ExpiresAt pk then Some (pk_AgentID pk) else None | None \<Rightarrow> None)"
  by (auto simp: live_keys_def Validate_def time_after_def split: option.split)

lemma Validate_live: "Validate t k ks = Inr pk \<Longrightarrow> live_keys t ks k = Some (pk_AgentID pk)"
  by (simp add: live_keys_def)

interpretation ks: key_table "\<lambda>rnd now a s. snd (Create rnd now a s)" MarkUsed "\<lambda>a s. snd (Revoke a s)" cleanup
  "\<lambda>s. gomap_ok (ks_keys s)" ks_ttl live_keys
proof (unfold_locales, goal_cases)
  case (1 s rnd now a)
  then show ?case by (simp add: Create_def Let_def split: option.split)
next
  case (2 s k)
  then show ?case by (simp add: MarkUsed_def split: option.split)
next
  case (3 s a)
  then show ?case by (simp add: Revoke_eq)
next
  case (4 s now)
  then show ?case by (simp add: cleanup_eq)
next
  case (10 t b now a s)
  then show ?case by (auto simp: fun_eq_iff live_keys_eq Create_def Let_def go_map time_add_def)
next
  case (11 t k s)
  then show ?case by (auto simp: fun_eq_iff live_keys_eq MarkUsed_def go_map split: option.split)
next
  case (12 s t a)
  then show ?case by (auto simp: fun_eq_iff live_keys_eq Revoke_eq map_of_filter_ok split: option.split)
next
  case (13 s now t)
  then show ?case by (auto simp: fun_eq_iff live_keys_eq cleanup_eq map_of_filter_ok time_after_def split: option.split)
next
  case (14 s t now k a)
  then show ?case by (auto simp: live_keys_eq cleanup_eq map_of_filter_ok split: option.splits if_splits)
qed (auto simp: Create_def MarkUsed_def Revoke_def cleanup_def Let_def split: option.split prod.split)

lemma ks_step_eq: "ks_step op ks = ks.step op ks"
  by (cases op) simp_all

lemma ks_run_eq: "ks_run ops ks = fold ks.step ops ks"
  by (simp add: ks_run_def ks_step_eq [abs_def])

section \<open>Properties\<close>

text \<open>
  C9 (refinement): the key store implements a table of live keys.  After any history of creations, uses,
  revocations and cleanups, exactly those keys are accepted, for those agents, that the same history leaves
  in a plain table from which a use and a revocation remove and in which a cleanup does nothing.
\<close>

theorem key_store_refines_table:
  assumes "gomap_ok (ks_keys ks)" "\<And>now. CleanupOp now \<in> set ops \<Longrightarrow> now \<le> t"
  shows "live_keys t (ks_run ops ks) = fold (spec_step t (ks_ttl ks)) ops (live_keys t ks)"
  unfolding ks_run_eq by (rule ks.run_refines [OF assms])

theorem key_store_refines_table_witness:
  "live_keys 5 (ks_run [CreateOp (Some ''x'') 0 ''a'', CreateOp (Some ''y'') 1 ''b'', CleanupOp 4, RevokeOp ''a''] (NewKeyStore 10))
     = [''sk_79'' \<mapsto> ''b'']"
proof -
  let ?ops = "[CreateOp (Some ''x'') 0 ''a'', CreateOp (Some ''y'') 1 ''b'', CleanupOp 4, RevokeOp ''a'']"
  have ok: "gomap_ok (ks_keys (NewKeyStore 10))" by (simp add: NewKeyStore_def)
  have hex: "EncodeToString ''x'' = ''78''" "EncodeToString ''y'' = ''79''" by code_simp+
  have empty: "live_keys 5 (NewKeyStore 10) = Map.empty" by (simp add: fun_eq_iff live_keys_eq NewKeyStore_def)
  have "live_keys 5 (ks_run ?ops (NewKeyStore 10)) = fold (spec_step 5 (ks_ttl (NewKeyStore 10))) ?ops (live_keys 5 (NewKeyStore 10))"
    by (rule key_store_refines_table [OF ok]) auto
  moreover have "ks_ttl (NewKeyStore 10) = 10" by (simp add: NewKeyStore_def)
  ultimately show ?thesis unfolding empty by (simp add: hex fun_eq_iff)
qed

text \<open>
  A key is good for one use.  After it was marked used, revoked, or removed by a cleanup,
  no later history of the store makes it valid again, unless the generator draws the same 32 bytes
  again; different bytes always give different keys.
\<close>

theorem used_key_stays_invalid:
  assumes "gomap_ok (ks_keys ks)"
    and "ks1 = MarkUsed k ks \<or>
         (\<exists>a pk. ks1 = snd (Revoke a ks) \<and> map_of (ks_keys ks) k = Some pk \<and> pk_AgentID pk = a) \<or>
         (\<exists>t pk. ks1 = cleanup t ks \<and> map_of (ks_keys ks) k = Some pk \<and> pk_ExpiresAt pk < t)"
    and "k = ''sk_'' @ EncodeToString b" "\<And>rnd now a. CreateOp (Some rnd) now a \<in> set ops \<Longrightarrow> rnd \<noteq> b"
  shows "isl (Validate now k (ks_run ops ks1))"
proof -
  have ok: "gomap_ok (ks_keys ks1)"
    using assms(2) ks.ok_used [OF assms(1)] ks.ok_revoke [OF assms(1)] ks.ok_clean [OF assms(1)] by auto
  have dead: "live_keys t ks1 k = None" for t
    using assms(1,2)
    by (auto simp: live_keys_eq MarkUsed_def Revoke_eq cleanup_eq go_map map_of_filter_ok go_simps split: option.splits if_splits)
  have "''sk_'' @ EncodeToString rnd \<noteq> k" if "CreateOp (Some rnd) now a \<in> set ops" for rnd now a
    using assms(3,4) that by (auto dest: EncodeToString_inj)
  from ks.dead_forever [OF ok dead this] have "live_keys now (ks_run ops ks1) k = None" by (simp add: ks_run_eq)
  then show ?thesis by (auto simp: live_keys_def split: sum.splits)
qed

theorem used_key_stays_invalid_witness:
  "let ks = snd (Create (Some ''xy'') 0 ''a'' (NewKeyStore (24 * hour)))
   in Validate 5 ''sk_7879'' ks \<noteq> Inl ErrKeyNotFound \<and>
      isl (Validate 5 ''sk_7879'' (ks_run [CreateOp (Some ''zz'') 1 ''a'', CleanupOp 2] (MarkUsed ''sk_7879'' ks)))"
proof -
  let ?ks = "snd (Create (Some ''xy'') 0 ''a'' (NewKeyStore (24 * hour)))"
  have key: "''sk_7879'' = ''sk_'' @ EncodeToString ''xy''" by code_simp
  have ok: "gomap_ok (ks_keys ?ks)" by (simp add: Create_def NewKeyStore_def Let_def gomap_ok_def)
  have "isl (Validate 5 ''sk_7879'' (ks_run [CreateOp (Some ''zz'') 1 ''a'', CleanupOp 2] (MarkUsed ''sk_7879'' ?ks)))"
    by (rule used_key_stays_invalid [OF ok _ key]) simp_all
  moreover have "Validate 5 ''sk_7879'' ?ks \<noteq> Inl ErrKeyNotFound"
    unfolding key by (simp add: Create_def NewKeyStore_def Let_def Validate_def)
  ultimately show ?thesis by (simp add: Let_def)
qed

text \<open>
  A key that was just created is accepted, for its agent, exactly until its lifetime is
  over, and reported as expired afterwards; creating it changes the answer for no other key.
\<close>

theorem created_key_validates:
  assumes "Create (Some b) now a ks = (Inr pk, ks')"
  shows "pk_Key pk = ''sk_'' @ EncodeToString b \<and> pk_AgentID pk = a \<and>
    Validate t (pk_Key pk) ks' = (if t \<le> now + ks_ttl ks then Inr pk else Inl ErrKeyExpired) \<and>
    (k \<noteq> pk_Key pk \<longrightarrow> Validate t k ks' = Validate t k ks)"
proof -
  have pk: "pk = \<lparr>pk_Key = ''sk_'' @ EncodeToString b, pk_AgentID = a, pk_CreatedAt = now,
        pk_ExpiresAt = now + ks_ttl ks, pk_Used = False\<rparr>"
    and ks': "map_of (ks_keys ks') = (map_of (ks_keys ks))(pk_Key pk \<mapsto> pk)"
    using assms by (auto simp: Create_def Let_def go_map time_add_def)
  show ?thesis by (simp add: Validate_def ks') (simp add: pk time_after_def)
qed

theorem created_key_validates_witness:
  "\<exists>pk ks'. Create (Some ''xy'') 0 ''a'' (NewKeyStore 10) = (Inr pk, ks') \<and>
     Validate 10 (pk_Key pk) ks' = Inr pk \<and> Validate 11 (pk_Key pk) ks' = Inl ErrKeyExpired"
proof -
  obtain pk ks' where c: "Create (Some ''xy'') 0 ''a'' (NewKeyStore 10) = (Inr pk, ks')"
    by (simp add: Create_def Let_def)
  have "Validate 10 (pk_Key pk) ks' = (if 10 \<le> 0 + ks_ttl (NewKeyStore 10) then Inr pk else Inl ErrKeyExpired)"
    "Validate 11 (pk_Key pk) ks' = (if 11 \<le> 0 + ks_ttl (NewKeyStore 10) then Inr pk else Inl ErrKeyExpired)"
    by (intro created_key_validates [OF c, THEN conjunct2, THEN conjunct2, THEN conjunct1])+
  then have "Validate 10 (pk_Key pk) ks' = Inr pk" "Validate 11 (pk_Key pk) ks' = Inl ErrKeyExpired"
    by (simp_all add: NewKeyStore_def)
  with c show ?thesis by blast
qed

text \<open>
  C39 (equivalence): Cleaning up is invisible to whoever validates keys: from the time of the cleanup on,
  exactly the same keys are accepted, for the same agents, with and without it; the listing of live
  keys is the same too.
\<close>

theorem cleanup_invisible:
  assumes "gomap_ok (ks_keys ks)" "t \<le> t'" "\<And>k. t \<le> now k"
  shows "(Validate t' k (cleanup t ks) = Inr pk \<longleftrightarrow> Validate t' k ks = Inr pk) \<and>
    List_keys now (cleanup t ks) = List_keys now ks"
proof
  show "Validate t' k (cleanup t ks) = Inr pk \<longleftrightarrow> Validate t' k ks = Inr pk"
    using assms(1,2)
    by (auto simp: Validate_def cleanup_eq map_of_filter_ok go_simps split: option.splits if_splits)
  have "time_after (now key) (pk_ExpiresAt p)" if "time_after t (pk_ExpiresAt p)" for key and p :: ProvisionKey
    using assms(3) [of key] that by (simp add: time_after_def)
  then show "List_keys now (cleanup t ks) = List_keys now ks"
    using assms(1) by (auto simp: List_keys_def cleanup_eq intro!: arg_cong [where f = "map _"] filter_cong)
qed

theorem cleanup_invisible_witness:
  "let ks = snd (Create (Some ''x'') 5 ''b'' (snd (Create (Some ''y'') 0 ''a'' (NewKeyStore 10))))
   in List_keys (\<lambda>k. 12) (cleanup 11 ks) = List_keys (\<lambda>k. 12) ks"
proof -
  let ?ks = "snd (Create (Some ''x'') 5 ''b'' (snd (Create (Some ''y'') 0 ''a'' (NewKeyStore 10))))"
  have "gomap_ok (ks_keys ?ks)" by (simp add: Create_def NewKeyStore_def Let_def del: AList.update.simps)
  from cleanup_invisible [OF this, of 11 11 "\<lambda>k. 12"] show ?thesis by (simp add: Let_def)
qed

end
