(* ===== verification/Go_Paths.thy ===== *)
theory Go_Paths
  imports Silo_Prelude "HOL-Library.Sublist"
begin

text \<open>
  What the program uses of Go's \<^verbatim>\<open>strings\<close> and \<^verbatim>\<open>path/filepath\<close> on Unix: \<^verbatim>\<open>Split\<close> at a one-byte separator,
  \<^verbatim>\<open>TrimSpace\<close>, and \<^verbatim>\<open>Clean\<close>, \<^verbatim>\<open>Join\<close> and \<^verbatim>\<open>Dir\<close>.  A path is cleaned component by component, so the lexical
  meaning of a path is whether it is rooted and its list of components; the lemmas show that cleaning
  keeps that meaning and that appending a plain name descends exactly one directory.
\<close>

section \<open>Splitting and joining\<close>

fun split_on :: "char \<Rightarrow> string \<Rightarrow> string list" where
  "split_on c [] = [[]]"
| "split_on c (x # xs) =
     (if x = c then [] # split_on c xs
      else case split_on c xs of w # ws \<Rightarrow> (x # w) # ws | [] \<Rightarrow> [[x]])"

fun join_with :: "char \<Rightarrow> string list \<Rightarrow> string" where
  "join_with c [] = []"
| "join_with c [w] = w"
| "join_with c (w # ws) = w @ c # join_with c ws"

lemma split_on_not_Nil [simp]: "split_on c s \<noteq> []"
  by (induction s) (auto split: list.split)

lemma split_on_Cons: obtains w ws where "split_on c s = w # ws"
  using split_on_not_Nil by (meson neq_Nil_conv)

lemma split_on_append_sep: "split_on c (s @ c # t) = split_on c s @ split_on c t"
proof (induction s)
  case Nil
  then show ?case by simp
next
  case (Cons x s)
  obtain w ws where "split_on c s = w # ws" by (rule split_on_Cons)
  with Cons show ?case by simp
qed

lemma split_on_single: "c \<notin> set s \<Longrightarrow> split_on c s = [s]"
  by (induction s) auto

lemma split_on_join:
  "ws \<noteq> [] \<Longrightarrow> \<forall>w\<in>set ws. c \<notin> set w \<Longrightarrow> split_on c (join_with c ws) = ws"
proof (induction c ws rule: join_with.induct)
  case (3 c w v ws)
  then show ?case by (simp add: split_on_append_sep split_on_single)
qed (simp_all add: split_on_single)

lemma split_on_no_sep: "w \<in> set (split_on c s) \<Longrightarrow> c \<notin> set w"
proof (induction s arbitrary: w)
  case (Cons x s)
  obtain v vs where "split_on c s = v # vs" by (rule split_on_Cons)
  with Cons show ?case by (auto split: if_splits)
qed simp

lemma join_split_on: "join_with c (split_on c s) = s"
proof (induction s)
  case (Cons x s)
  obtain v vs where v: "split_on c s = v # vs" by (rule split_on_Cons)
  with Cons show ?case by (cases vs) auto
qed simp

lemma join_with_snoc: "ws \<noteq> [] \<Longrightarrow> join_with c (ws @ [w]) = join_with c ws @ c # w"
  by (induction c ws rule: join_with.induct) auto

section \<open>White space\<close>

text \<open>The encodings of the code points that \<^verbatim>\<open>unicode.IsSpace\<close> accepts.\<close>

definition space_runes :: "string list" where
  "space_runes =
     [[CHR 0x09], [CHR 0x0A], [CHR 0x0B], [CHR 0x0C], [CHR 0x0D], [CHR 0x20],
      [CHR 0xC2, CHR 0x85], [CHR 0xC2, CHR 0xA0], [CHR 0xE1, CHR 0x9A, CHR 0x80]] @
     map (\<lambda>b. [CHR 0xE2, CHR 0x80, b])
       [CHR 0x80, CHR 0x81, CHR 0x82, CHR 0x83, CHR 0x84, CHR 0x85, CHR 0x86, CHR 0x87, CHR 0x88, CHR 0x89,
        CHR 0x8A, CHR 0xA8, CHR 0xA9, CHR 0xAF] @
     [[CHR 0xE2, CHR 0x81, CHR 0x9F], [CHR 0xE3, CHR 0x80, CHR 0x80]]"

text \<open>One pass strips at most one rune; a string has no more runes than bytes.\<close>

fun trim_front :: "nat \<Rightarrow> string list \<Rightarrow> string \<Rightarrow> string" where
  "trim_front 0 runes s = s"
| "trim_front (Suc n) runes s =
     (case find (\<lambda>r. prefix r s) runes of
        Some r \<Rightarrow> trim_front n runes (drop (length r) s)
      | None \<Rightarrow> s)"

definition TrimSpace :: "string \<Rightarrow> string" where
  "TrimSpace s =
     (let s1 = trim_front (length s) space_runes s
      in rev (trim_front (length s1) (map rev space_runes) (rev s1)))"

lemma trim_front_stops:
  assumes "length s \<le> n" "[] \<notin> set runes"
  shows "find (\<lambda>r. prefix r (trim_front n runes s)) runes = None"
  using assms(1)
proof (induction n arbitrary: s)
  case 0
  then show ?case using assms(2) by (auto simp: find_None_iff)
next
  case (Suc n)
  show ?case
  proof (cases "find (\<lambda>r. prefix r s) runes")
    case None
    then show ?thesis by simp
  next
    case (Some r)
    then have r: "r \<in> set runes" "prefix r s" by (auto simp: find_Some_iff)
    then have "r \<noteq> []" using assms(2) by auto
    then have "length (drop (length r) s) \<le> n" using Suc.prems by (cases r) auto
    with Suc.IH Some show ?thesis by simp
  qed
qed

lemma space_runes_not_Nil: "[] \<notin> set space_runes" "[] \<notin> set (map rev space_runes)"
  by (auto simp: space_runes_def)

lemma trim_front_id: "find (\<lambda>r. prefix r s) runes = None \<Longrightarrow> trim_front n runes s = s"
  by (cases n) auto

lemma trim_front_sublist: "suffix (trim_front n runes s) s"
proof (induction n arbitrary: s)
  case (Suc n)
  then show ?case
    by (auto split: option.split intro: suffix_order.trans suffix_drop)
qed simp

section \<open>Paths\<close>

text \<open>Elements of a path are pushed on a stack; an element \<^verbatim>\<open>..\<close> takes back the one before it.\<close>

fun clean_step :: "bool \<Rightarrow> string list \<Rightarrow> string list \<Rightarrow> string list" where
  "clean_step r st [] = st"
| "clean_step r st (c # cs) =
     (if c = '''' \<or> c = ''.'' then clean_step r st cs
      else if c = ''..'' then
        (case st of
           t # ts \<Rightarrow> if t \<noteq> ''..'' then clean_step r ts cs else clean_step r (c # st) cs
         | [] \<Rightarrow> if r then clean_step r [] cs else clean_step r [c] cs)
      else clean_step r (c # st) cs)"

definition rooted :: "string \<Rightarrow> bool" where
  "rooted p \<longleftrightarrow> p \<noteq> [] \<and> hd p = CHR ''/''"

type_synonym location = "bool \<times> string list"

text \<open>Where a path leads, lexically: from the root or the working directory through these components.\<close>

definition path_parts :: "string \<Rightarrow> location" where
  "path_parts p = (rooted p, rev (clean_step (rooted p) [] (split_on (CHR ''/'') p)))"

definition render :: "location \<Rightarrow> string" where
  "render loc =
     (let body = join_with (CHR ''/'') (snd loc)
      in if fst loc then CHR ''/'' # body else if body = [] then ''.'' else body)"

definition Clean :: "string \<Rightarrow> string" where
  "Clean p = render (path_parts p)"

definition Join :: "string list \<Rightarrow> string" where
  "Join elems =
     (case dropWhile (\<lambda>e. e = []) elems of [] \<Rightarrow> [] | es \<Rightarrow> Clean (join_with (CHR ''/'') es))"

definition Dir :: "string \<Rightarrow> string" where
  "Dir p = Clean (rev (dropWhile (\<lambda>c. c \<noteq> CHR ''/'') (rev p)))"

text \<open>A plain component is the name of a directory entry.\<close>

definition plain :: "string \<Rightarrow> bool" where
  "plain c \<longleftrightarrow> c \<noteq> '''' \<and> c \<noteq> ''.'' \<and> c \<noteq> ''..'' \<and> CHR ''/'' \<notin> set c"

text \<open>The stack of a cleaned path: names and \<^verbatim>\<open>..\<close>, the latter only at the bottom and never below the root.\<close>

definition norm_stack :: "bool \<Rightarrow> string list \<Rightarrow> bool" where
  "norm_stack r st \<longleftrightarrow> (\<forall>c\<in>set st. plain c \<or> c = ''..'') \<and> (r \<longrightarrow> ''..'' \<notin> set st) \<and>
     (\<forall>c\<in>set (dropWhile plain st). c = ''..'')"

lemma norm_stack_Nil [simp]: "norm_stack r []"
  by (simp add: norm_stack_def)

lemma norm_stack_Cons:
  "norm_stack r (c # st) \<longleftrightarrow>
     (if plain c then norm_stack r st else c = ''..'' \<and> \<not> r \<and> (\<forall>d\<in>set st. d = ''..''))"
proof -
  have up: "\<not> plain ''..''" by (simp add: plain_def)
  have "\<forall>d\<in>set (dropWhile plain st). d = ''..''" if "\<forall>d\<in>set st. d = ''..''" for st
    using that by (induction st) auto
  then show ?thesis using up by (auto simp: norm_stack_def)
qed

lemma norm_stack_ups: "\<not> r \<Longrightarrow> \<forall>d\<in>set st. d = ''..'' \<Longrightarrow> norm_stack r st"
  by (induction st) (simp_all add: norm_stack_Cons plain_def)

lemma norm_stack_append: "norm_stack r (xs @ ys) \<Longrightarrow> norm_stack r ys"
proof (induction xs)
  case (Cons x xs)
  show ?case
  proof (cases "plain x")
    case True
    with Cons show ?thesis by (simp add: norm_stack_Cons)
  next
    case False
    with Cons.prems show ?thesis by (intro norm_stack_ups) (simp_all add: norm_stack_Cons)
  qed
qed simp

lemma clean_step_append: "clean_step r st (xs @ ys) = clean_step r (clean_step r st xs) ys"
  by (induction r st xs rule: clean_step.induct) (auto split: list.split)

lemma clean_step_norm:
  "norm_stack r st \<Longrightarrow> \<forall>c\<in>set cs. CHR ''/'' \<notin> set c \<Longrightarrow> norm_stack r (clean_step r st cs)"
proof (induction r st cs rule: clean_step.induct)
  case (2 r st c cs)
  have up: "\<not> plain ''..''" by (simp add: plain_def)
  have c: "plain c" if "c \<noteq> ''''" "c \<noteq> ''.''" "c \<noteq> ''..''" using "2.prems"(2) that by (simp add: plain_def)
  show ?case
  proof (cases "c = '''' \<or> c = ''.'' \<or> c \<noteq> ''..''")
    case True
    then show ?thesis using "2.IH" "2.prems" c up by (auto simp: norm_stack_Cons)
  next
    case False
    show ?thesis
    proof (cases st)
      case Nil
      with False "2.IH" "2.prems" up show ?thesis by (auto simp: norm_stack_Cons)
    next
      case (Cons t ts)
      have c: "c = ''..''" using False by simp
      have ts: "norm_stack r ts" using "2.prems"(1) norm_stack_append [of r "[t]" ts] Cons by simp
      have "norm_stack r (c # st)" if "t = ''..''"
        using "2.prems"(1) that up c by (simp add: Cons norm_stack_Cons)
      then show ?thesis
        using c Cons "2.IH"(4,5) [OF _ _ Cons] "2.prems"(2) ts by (cases "t = ''..''") simp_all
    qed
  qed
qed simp

lemma clean_step_id:
  "norm_stack r (rev cs @ st) \<Longrightarrow> clean_step r st cs = rev cs @ st"
proof (induction cs arbitrary: st)
  case (Cons c cs)
  have "norm_stack r (c # st)" using Cons.prems norm_stack_append [of r "rev cs" "c # st"] by simp
  moreover have "clean_step r (c # st) cs = rev cs @ c # st" using Cons by simp
  ultimately show ?case
  proof (cases "plain c")
    case True
    then have "c \<noteq> ''''" "c \<noteq> ''.''" "c \<noteq> ''..''" by (simp_all add: plain_def)
    with \<open>clean_step r (c # st) cs = rev cs @ c # st\<close> show ?thesis by simp
  next
    case False
    with \<open>norm_stack r (c # st)\<close> have "c = ''..''" "\<not> r" "\<forall>d\<in>set st. d = ''..''"
      by (simp_all add: norm_stack_Cons)
    with \<open>clean_step r (c # st) cs = rev cs @ c # st\<close> show ?thesis by (cases st) simp_all
  qed
qed simp

definition norm_loc :: "location \<Rightarrow> bool" where
  "norm_loc loc \<longleftrightarrow> norm_stack (fst loc) (rev (snd loc))"

lemma norm_path_parts [simp]: "norm_loc (path_parts p)"
  using clean_step_norm [OF norm_stack_Nil] split_on_no_sep by (simp add: norm_loc_def path_parts_def)

lemma join_nonempty: "cs \<noteq> [] \<Longrightarrow> hd cs \<noteq> [] \<Longrightarrow> join_with c cs \<noteq> [] \<and> hd (join_with c cs) = hd (hd cs)"
  by (induction c cs rule: join_with.induct) auto

lemma norm_loc_components: "norm_loc (r, cs) \<Longrightarrow> d \<in> set cs \<Longrightarrow> d \<noteq> [] \<and> CHR ''/'' \<notin> set d"
proof -
  assume "norm_loc (r, cs)" "d \<in> set cs"
  then have "plain d \<or> d = ''..''" by (simp add: norm_loc_def norm_stack_def)
  then show "d \<noteq> [] \<and> CHR ''/'' \<notin> set d" by (auto simp: plain_def)
qed

lemma path_parts_render:
  assumes "norm_loc loc"
  shows "path_parts (render loc) = loc"
proof -
  obtain r cs where loc: "loc = (r, cs)" by (cases loc)
  have id: "clean_step r [] cs = rev cs" using assms clean_step_id [of r cs "[]"] by (simp add: loc norm_loc_def)
  have sep: "\<forall>d\<in>set cs. CHR ''/'' \<notin> set d" using assms norm_loc_components loc by blast
  show ?thesis
  proof (cases "cs = []")
    case True
    then show ?thesis by (simp add: loc render_def path_parts_def rooted_def)
  next
    case False
    then have split: "split_on (CHR ''/'') (join_with (CHR ''/'') cs) = cs" using sep by (rule split_on_join)
    have hd: "hd cs \<in> set cs" using False by simp
    then have "hd cs \<noteq> []" "hd (hd cs) \<noteq> CHR ''/''"
      using assms norm_loc_components [of r cs "hd cs"] loc by (auto dest: hd_in_set)
    with join_nonempty [OF False] have "join_with (CHR ''/'') cs \<noteq> []" "hd (join_with (CHR ''/'') cs) \<noteq> CHR ''/''"
      by auto
    then show ?thesis using split id by (cases r) (simp_all add: loc render_def Let_def path_parts_def rooted_def)
  qed
qed

lemma path_parts_Clean [simp]: "path_parts (Clean p) = path_parts p"
  by (simp add: Clean_def path_parts_render)

lemma Clean_eq_iff: "Clean p = Clean q \<longleftrightarrow> path_parts p = path_parts q"
proof
  assume "Clean p = Clean q"
  then have "path_parts (Clean p) = path_parts (Clean q)" by simp
  then show "path_parts p = path_parts q" by simp
qed (simp add: Clean_def)

lemma plain_parts: "plain c \<Longrightarrow> path_parts c = (False, [c])"
proof -
  assume c: "plain c"
  then have "split_on (CHR ''/'') c = [c]" by (intro split_on_single) (simp add: plain_def)
  moreover have "\<not> rooted c" using c by (cases c) (auto simp: rooted_def plain_def)
  ultimately show ?thesis using c by (simp add: path_parts_def plain_def)
qed

lemma path_parts_Nil [simp]: "path_parts [] = (False, [])"
  by (simp add: path_parts_def rooted_def)

lemma path_parts_slash:
  assumes "d \<noteq> []" "plain c"
  shows "path_parts (d @ CHR ''/'' # c) = (fst (path_parts d), snd (path_parts d) @ [c])"
proof -
  have "split_on (CHR ''/'') c = [c]" using assms(2) by (intro split_on_single) (simp add: plain_def)
  moreover have "rooted (d @ CHR ''/'' # c) = rooted d" using assms(1) by (simp add: rooted_def)
  ultimately show ?thesis
    using assms(2) by (simp add: path_parts_def split_on_append_sep clean_step_append plain_def)
qed

text \<open>Joining a directory and a plain name descends one step, whatever the directory.\<close>

lemma path_parts_Join:
  assumes "plain c"
  shows "path_parts (Join [d, c]) = (fst (path_parts d), snd (path_parts d) @ [c])"
proof (cases "d = []")
  case True
  with assms show ?thesis by (simp add: Join_def plain_parts) (simp add: plain_def)
next
  case False
  with assms show ?thesis by (simp add: Join_def path_parts_slash)
qed

lemma drop_last_component:
  "CHR ''/'' \<notin> set c \<Longrightarrow> rev (dropWhile (\<lambda>x. x \<noteq> CHR ''/'') (rev (s @ CHR ''/'' # c))) = s @ ''/''"
proof -
  assume c: "CHR ''/'' \<notin> set c"
  have "dropWhile (\<lambda>x. x \<noteq> CHR ''/'') (rev c @ CHR ''/'' # rev s) = CHR ''/'' # rev s"
    using c by (subst dropWhile_append2) auto
  then show ?thesis by simp
qed

lemma path_parts_trailing: "d \<noteq> [] \<Longrightarrow> path_parts (d @ ''/'') = path_parts d"
proof -
  assume "d \<noteq> []"
  then have "rooted (d @ ''/'') = rooted d" by (simp add: rooted_def)
  then show ?thesis by (simp add: path_parts_def split_on_append_sep clean_step_append)
qed

lemma path_parts_Dir_Join:
  assumes "plain c"
  shows "path_parts (Dir (Join [d, c])) = path_parts d"
proof -
  obtain r cs where d: "path_parts d = (r, cs)" by (cases "path_parts d")
  have c: "CHR ''/'' \<notin> set c" "c \<noteq> []" using assms by (simp_all add: plain_def)
  have join: "Join [d, c] = render (r, cs @ [c])"
    using path_parts_Join [OF assms, of d] d c
    by (cases "d = []") (simp_all add: Join_def Clean_def plain_parts assms path_parts_slash)
  show ?thesis
  proof (cases "cs = []")
    case True
    have root: "path_parts ''/'' = (True, [])" by (simp add: path_parts_def rooted_def)
    have none: "dropWhile (\<lambda>x. x \<noteq> CHR ''/'') (rev c) = []" using c by auto
    show ?thesis
    proof (cases r)
      case True
      then have "Join [d, c] = [] @ CHR ''/'' # c" using join \<open>cs = []\<close> by (simp add: render_def)
      then show ?thesis using drop_last_component [OF c(1), of "[]"] root d True \<open>cs = []\<close> by (simp add: Dir_def)
    next
      case False
      then have "Join [d, c] = c" using join \<open>cs = []\<close> c by (simp add: render_def)
      then have "Dir (Join [d, c]) = Clean []" unfolding Dir_def by (simp only: none rev.simps(1))
      then show ?thesis using d False \<open>cs = []\<close> by simp
    qed
  next
    case False
    let ?s = "(if r then ''/'' else []) @ join_with (CHR ''/'') cs"
    have norm: "norm_loc (r, cs)" using norm_path_parts [of d] d by simp
    then have "hd cs \<noteq> []" using False norm_loc_components [of r cs "hd cs"] by simp
    then have ne: "join_with (CHR ''/'') cs \<noteq> []" using join_nonempty [OF False] by simp
    have s: "?s = render (r, cs)" "?s \<noteq> []" using ne by (simp_all add: render_def Let_def)
    have "render (r, cs @ [c]) = ?s @ CHR ''/'' # c"
      unfolding render_def Let_def snd_conv fst_conv join_with_snoc [OF False] using ne by (cases r) simp_all
    then have "Dir (Join [d, c]) = Clean (render (r, cs) @ ''/'')"
      unfolding join Dir_def s(1) by (simp only: drop_last_component [OF c(1)])
    then show ?thesis
      using path_parts_trailing [of "render (r, cs)"] s path_parts_render [OF norm] d by simp
  qed
qed

text \<open>The directory of a path that ends in a plain name is the location one component up.\<close>

lemma path_parts_Dir_slash:
  assumes "plain c"
  shows "path_parts (s @ CHR ''/'' # c) =
      (fst (path_parts (Dir (s @ CHR ''/'' # c))), snd (path_parts (Dir (s @ CHR ''/'' # c))) @ [c])"
proof -
  have c: "CHR ''/'' \<notin> set c" using assms by (simp add: plain_def)
  have dir: "Dir (s @ CHR ''/'' # c) = Clean (s @ ''/'')"
    unfolding Dir_def by (simp only: drop_last_component [OF c])
  show ?thesis
  proof (cases "s = []")
    case True
    have root: "path_parts ''/'' = (True, [])" by (simp add: path_parts_def rooted_def)
    have "split_on (CHR ''/'') (CHR ''/'' # c) = [[], c]" using split_on_single [OF c] by simp
    then have "path_parts (CHR ''/'' # c) = (True, [c])"
      using assms by (simp add: path_parts_def rooted_def plain_def)
    then show ?thesis using dir root True by simp
  next
    case False
    then show ?thesis
      unfolding dir path_parts_Clean path_parts_trailing [OF False] by (rule path_parts_slash [OF _ assms])
  qed
qed

lemma path_parts_Dir_plain: "plain c \<Longrightarrow> path_parts c = (fst (path_parts (Dir c)), snd (path_parts (Dir c)) @ [c])"
proof -
  assume c: "plain c"
  have "dropWhile (\<lambda>x. x \<noteq> CHR ''/'') (rev c) = []" using c by (auto simp: plain_def)
  then have "Dir c = Clean []" by (simp only: Dir_def rev.simps(1))
  then show ?thesis using plain_parts [OF c] by simp
qed

lemma path_parts_Dir:
  assumes "plain (last (split_on (CHR ''/'') p))"
  obtains c where "plain c" "path_parts p = (fst (path_parts (Dir p)), snd (path_parts (Dir p)) @ [c])"
proof (cases "CHR ''/'' \<in> set p")
  case False
  with assms have "plain p" by (simp add: split_on_single)
  from that [OF this path_parts_Dir_plain [OF this]] show thesis .
next
  case True
  then obtain s t where p: "p = s @ CHR ''/'' # t" "CHR ''/'' \<notin> set t" by (metis split_list_last)
  then have "plain t" using assms by (simp add: split_on_append_sep split_on_single)
  from that [OF this] path_parts_Dir_slash [OF this, of s] p(1) show thesis by simp
qed

end
