(* ===== verification/Go_Files.thy ===== *)
theory Go_Files
  imports Go_Paths "HOL-Library.Char_ord" "HOL-Library.List_Lexorder"
begin

text \<open>
  What the program uses of Go's \<^verbatim>\<open>os\<close>, \<^verbatim>\<open>crypto/rsa\<close>, \<^verbatim>\<open>crypto/x509\<close> and \<^verbatim>\<open>encoding/pem\<close>.

  The file system maps the lexical location of a path to the contents of a file and has a list of
  directories; there are no symbolic links.  What may go wrong outside the program (permissions, a full
  disk) is decided by \<open>os_env\<close>.  A failing \<^verbatim>\<open>WriteFile\<close> may leave a broken file, a failing \<^verbatim>\<open>MkdirAll\<close> the
  first of the directories that it was to make, and a failing \<^verbatim>\<open>RemoveAll\<close> any part of what it was to remove.

  Cryptography is symbolic.  A private RSA key is a number and stands for its public key too; a
  certificate records the key that signed it; and the contents of a file are what \<^verbatim>\<open>pem.Decode\<close> and the
  parsers make of it.
\<close>

section \<open>Certificates\<close>

record Name =
  n_Organization :: "string list"
  n_CommonName :: string

datatype KeyUsage = KeyUsageDigitalSignature | KeyUsageKeyEncipherment | KeyUsageCertSign

datatype ExtKeyUsage = ExtKeyUsageServerAuth | ExtKeyUsageClientAuth

type_synonym rsa_key = nat

record Certificate =
  x_SerialNumber :: nat
  x_Subject :: Name
  x_NotBefore :: gotime
  x_NotAfter :: gotime
  x_KeyUsage :: "KeyUsage list"
  x_ExtKeyUsage :: "ExtKeyUsage list"
  x_BasicConstraintsValid :: bool
  x_IsCA :: bool
  x_MaxPathLenZero :: bool
  x_DNSNames :: "string list"
  x_IPAddresses :: "string list"
  x_Issuer :: Name
  x_PublicKey :: "rsa_key option"
  x_Signer :: "rsa_key option"

datatype private_key = RSAKey rsa_key | OtherKey nat

datatype der = CertDER Certificate | PKCS8DER private_key | OtherDER string

datatype file_data = PEM string der | Raw string

fun pem_Decode :: "file_data \<Rightarrow> (string \<times> der) option" where
  "pem_Decode (PEM typ d) = Some (typ, d)"
| "pem_Decode (Raw s) = None"

fun ParseCertificate :: "der \<Rightarrow> Certificate option" where
  "ParseCertificate (CertDER c) = Some c"
| "ParseCertificate _ = None"

fun ParsePKCS8PrivateKey :: "der \<Rightarrow> private_key option" where
  "ParsePKCS8PrivateKey (PKCS8DER k) = Some k"
| "ParsePKCS8PrivateKey _ = None"

text \<open>
  \<^verbatim>\<open>x509.CreateCertificate\<close> refuses a signing key that does not belong to the parent certificate, when the
  parent has a public key at all; \<open>ok\<close> says whether the rest of it succeeds.
\<close>

definition CreateCertificate :: "bool \<Rightarrow> Certificate \<Rightarrow> Certificate \<Rightarrow> rsa_key \<Rightarrow> rsa_key \<Rightarrow> der option" where
  "CreateCertificate ok template parent pub priv =
     (if \<not> ok then None
      else if x_PublicKey parent \<noteq> None \<and> x_PublicKey parent \<noteq> Some priv then None
      else Some (CertDER (template\<lparr>x_Issuer := x_Subject parent, x_PublicKey := Some pub, x_Signer := Some priv\<rparr>)))"

text \<open>
  What a TLS peer checks of a certificate against a trusted one: the issuer's name and key, that the
  issuer may sign, the dates and the purpose.
\<close>

definition verifies :: "gotime \<Rightarrow> ExtKeyUsage \<Rightarrow> Certificate \<Rightarrow> Certificate \<Rightarrow> bool" where
  "verifies now usage ca c \<longleftrightarrow>
     x_Issuer c = x_Subject ca \<and> x_PublicKey ca \<noteq> None \<and> x_Signer c = x_PublicKey ca \<and>
     x_IsCA ca \<and> x_BasicConstraintsValid ca \<and> KeyUsageCertSign \<in> set (x_KeyUsage ca) \<and>
     x_NotBefore ca \<le> now \<and> now \<le> x_NotAfter ca \<and> x_NotBefore c \<le> now \<and> now \<le> x_NotAfter c \<and>
     usage \<in> set (x_ExtKeyUsage c) \<and> usage \<in> set (x_ExtKeyUsage ca)"

section \<open>Files\<close>

record file_system =
  fs_files :: "(location, file_data) gomap"
  fs_dirs :: "location list"

datatype write_result = WriteDone | OpenFailed | WriteBroken file_data

record os_env =
  os_stat_err :: "string \<Rightarrow> bool"
  os_read_err :: "string \<Rightarrow> bool"
  os_mkdir_stop :: "string \<Rightarrow> nat option"
  os_remove_stop :: "string \<Rightarrow> (location \<Rightarrow> bool) option"
  os_readdir_err :: "string \<Rightarrow> bool"
  os_write :: "string \<Rightarrow> write_result"

text \<open>The root, the working directory and the directories above it always exist.\<close>

definition is_dir :: "file_system \<Rightarrow> location \<Rightarrow> bool" where
  "is_dir fs loc \<longleftrightarrow> (\<forall>c\<in>set (snd loc). c = ''..'') \<or> loc \<in> set (fs_dirs fs)"

definition parent_loc :: "location \<Rightarrow> location" where
  "parent_loc loc = (fst loc, butlast (snd loc))"

definition os_Stat :: "os_env \<Rightarrow> string \<Rightarrow> file_system \<Rightarrow> bool" where
  "os_Stat env path fs \<longleftrightarrow> path \<noteq> '''' \<and> \<not> os_stat_err env path \<and>
     (is_dir fs (path_parts path) \<or> map_of (fs_files fs) (path_parts path) \<noteq> None)"

definition os_ReadFile :: "os_env \<Rightarrow> string \<Rightarrow> file_system \<Rightarrow> file_data option" where
  "os_ReadFile env path fs = (if os_read_err env path then None else map_of (fs_files fs) (path_parts path))"

definition os_WriteFile :: "os_env \<Rightarrow> string \<Rightarrow> file_data \<Rightarrow> file_system \<Rightarrow> bool \<times> file_system" where
  "os_WriteFile env path d fs =
     (let loc = path_parts path in
      if is_dir fs loc \<or> \<not> is_dir fs (parent_loc loc) then (False, fs)
      else
        case os_write env path of
          WriteDone \<Rightarrow> (True, fs\<lparr>fs_files := AList.update loc d (fs_files fs)\<rparr>)
        | OpenFailed \<Rightarrow> (False, fs)
        | WriteBroken d' \<Rightarrow> (False, fs\<lparr>fs_files := AList.update loc d' (fs_files fs)\<rparr>))"

definition loc_prefixes :: "location \<Rightarrow> location list" where
  "loc_prefixes loc = map (\<lambda>n. (fst loc, take n (snd loc))) [1..<Suc (length (snd loc))]"

text \<open>
  \<^verbatim>\<open>MkdirAll\<close> makes the missing directories from the top; \<open>os_mkdir_stop\<close> is \<open>Some n\<close> when it fails after \<open>n\<close> of
  them.  A file on the way is met before anything below it is made.
\<close>

definition os_MkdirAll :: "os_env \<Rightarrow> string \<Rightarrow> file_system \<Rightarrow> bool \<times> file_system" where
  "os_MkdirAll env dir fs =
     (let locs = loc_prefixes (path_parts dir); missing = filter (\<lambda>l. \<not> is_dir fs l) locs in
      if dir = '''' \<or> (\<exists>l\<in>set locs. map_of (fs_files fs) l \<noteq> None) then (False, fs)
      else
        case os_mkdir_stop env dir of
          None \<Rightarrow> (True, fs\<lparr>fs_dirs := fs_dirs fs @ missing\<rparr>)
        | Some n \<Rightarrow> (False, fs\<lparr>fs_dirs := fs_dirs fs @ take n missing\<rparr>))"

definition loc_under :: "location \<Rightarrow> location \<Rightarrow> bool" where
  "loc_under d l \<longleftrightarrow> fst l = fst d \<and> prefix (snd d) (snd l)"

text \<open>
  \<^verbatim>\<open>RemoveAll\<close> removes what is below a directory before the directory itself.  When it fails, the entries
  that \<open>left\<close> selects are still there, with the directories that lead to them.
\<close>

definition remove_under :: "location \<Rightarrow> (location \<Rightarrow> bool) \<Rightarrow> file_system \<Rightarrow> file_system" where
  "remove_under d left fs =
     (let entries = map fst (fs_files fs) @ fs_dirs fs;
          keep = (\<lambda>l. \<not> loc_under d l \<or> (\<exists>l'\<in>set entries. loc_under l l' \<and> left l'))
      in fs\<lparr>fs_files := filter (\<lambda>(l, d). keep l) (fs_files fs), fs_dirs := filter keep (fs_dirs fs)\<rparr>)"

definition os_RemoveAll :: "os_env \<Rightarrow> string \<Rightarrow> file_system \<Rightarrow> bool \<times> file_system" where
  "os_RemoveAll env dir fs =
     (if dir = '''' then (True, fs)
      else if last (split_on (CHR ''/'') dir) = ''.'' then (False, fs)
      else
        case os_remove_stop env dir of
          None \<Rightarrow> (True, remove_under (path_parts dir) (\<lambda>_. False) fs)
        | Some left \<Rightarrow> (False, remove_under (path_parts dir) left fs))"

text \<open>\<^verbatim>\<open>ReadDir\<close>: the entries of a directory by name, each with whether it is a directory.\<close>

definition child_of :: "location \<Rightarrow> location \<Rightarrow> bool" where
  "child_of d l \<longleftrightarrow> snd l \<noteq> [] \<and> parent_loc l = d"

definition os_ReadDir :: "os_env \<Rightarrow> string \<Rightarrow> file_system \<Rightarrow> (string \<times> bool) list option" where
  "os_ReadDir env dir fs =
     (let d = path_parts dir in
      if os_readdir_err env dir \<or> \<not> is_dir fs d then None
      else Some (sort_key fst
        (map (\<lambda>l. (last (snd l), True)) (filter (child_of d) (fs_dirs fs)) @
         map (\<lambda>(l, _). (last (snd l), False)) (filter (\<lambda>(l, _). child_of d l) (fs_files fs)))))"

abbreviation os_fine :: "os_env" where
  "os_fine \<equiv> \<lparr>os_stat_err = \<lambda>_. False, os_read_err = \<lambda>_. False, os_mkdir_stop = \<lambda>_. None,
     os_remove_stop = \<lambda>_. None, os_readdir_err = \<lambda>_. False, os_write = \<lambda>_. WriteDone\<rparr>"

section \<open>Lemmas\<close>

lemma is_dir_files [simp]: "is_dir (fs\<lparr>fs_files := m\<rparr>) l = is_dir fs l"
  by (simp add: is_dir_def)

lemma is_dir_Nil [simp]: "is_dir fs (r, [])"
  by (simp add: is_dir_def)

lemma loc_prefixes_self: "snd loc \<noteq> [] \<Longrightarrow> loc \<in> set (loc_prefixes loc)"
  by (cases loc) (auto simp: loc_prefixes_def image_iff Suc_le_eq intro!: bexI [of _ "length (snd loc)"])

lemma fst_WriteFile: "fst (os_WriteFile env path d fs) \<Longrightarrow>
    os_WriteFile env path d fs = (True, fs\<lparr>fs_files := AList.update (path_parts path) d (fs_files fs)\<rparr>)"
  by (auto simp: os_WriteFile_def Let_def split: if_splits write_result.splits)

text \<open>Writing a file changes no other file and no directory, whether it succeeds or not.\<close>

lemma WriteFile_frame:
  assumes "os_WriteFile env path d fs = (ok, fs')"
  shows "fs_dirs fs' = fs_dirs fs" "l \<noteq> path_parts path \<Longrightarrow> map_of (fs_files fs') l = map_of (fs_files fs) l"
    "ok \<Longrightarrow> map_of (fs_files fs') (path_parts path) = Some d"
  using assms by (auto simp: os_WriteFile_def Let_def go_map split: if_splits write_result.splits)

lemma MkdirAll_frame:
  assumes "os_MkdirAll env dir fs = (ok, fs')"
  shows "fs_files fs' = fs_files fs" "is_dir fs l \<Longrightarrow> is_dir fs' l" "ok \<Longrightarrow> is_dir fs' (path_parts dir)"
    "is_dir fs' l \<Longrightarrow> is_dir fs l \<or> l \<in> set (loc_prefixes (path_parts dir))"
proof -
  show "fs_files fs' = fs_files fs" "is_dir fs l \<Longrightarrow> is_dir fs' l"
    "is_dir fs' l \<Longrightarrow> is_dir fs l \<or> l \<in> set (loc_prefixes (path_parts dir))"
    using assms by (auto simp: os_MkdirAll_def Let_def is_dir_def split: if_splits option.splits dest!: in_set_takeD)
  assume ok
  then show "is_dir fs' (path_parts dir)"
    using assms loc_prefixes_self [of "path_parts dir"]
    by (cases "snd (path_parts dir) = []")
       (auto simp: os_MkdirAll_def Let_def is_dir_def split: if_splits option.splits)
qed

text \<open>Removing a directory, completely or not, touches nothing outside of it.\<close>

lemma RemoveAll_frame:
  assumes "gomap_ok (fs_files fs)" "os_RemoveAll env dir fs = (ok, fs')"
  shows "\<not> loc_under (path_parts dir) l \<Longrightarrow> map_of (fs_files fs') l = map_of (fs_files fs) l \<and> is_dir fs' l = is_dir fs l"
    "ok \<Longrightarrow> dir \<noteq> '''' \<Longrightarrow> loc_under (path_parts dir) l \<Longrightarrow> map_of (fs_files fs') l = None \<and> l \<notin> set (fs_dirs fs')"
    "map_of (fs_files fs') l = Some d \<Longrightarrow> map_of (fs_files fs) l = Some d"
proof -
  have look: "map_of (fs_files (remove_under p left fs)) l =
      (if \<not> loc_under p l \<or> (\<exists>l'\<in>set (map fst (fs_files fs) @ fs_dirs fs). loc_under l l' \<and> left l')
       then map_of (fs_files fs) l else None)" for p left l
    using map_of_filter_ok [OF assms(1), of "\<lambda>l d. \<not> loc_under p l \<or>
        (\<exists>l'\<in>set (map fst (fs_files fs) @ fs_dirs fs). loc_under l l' \<and> left l')" l]
    by (simp add: remove_under_def Let_def split: option.split)
  have dirs: "l \<in> set (fs_dirs (remove_under p left fs)) \<longleftrightarrow> l \<in> set (fs_dirs fs) \<and>
      (\<not> loc_under p l \<or> (\<exists>l'\<in>set (map fst (fs_files fs) @ fs_dirs fs). loc_under l l' \<and> left l'))" for p left l
    by (simp add: remove_under_def Let_def)
  obtain left where "fs' = fs \<and> (ok \<longrightarrow> dir = '''') \<or> fs' = remove_under (path_parts dir) left fs \<and> (ok \<longrightarrow> left = (\<lambda>_. False))"
    using assms(2) unfolding os_RemoveAll_def by (auto split: if_splits option.splits)
  then show "\<not> loc_under (path_parts dir) l \<Longrightarrow> map_of (fs_files fs') l = map_of (fs_files fs) l \<and> is_dir fs' l = is_dir fs l"
    "ok \<Longrightarrow> dir \<noteq> '''' \<Longrightarrow> loc_under (path_parts dir) l \<Longrightarrow> map_of (fs_files fs') l = None \<and> l \<notin> set (fs_dirs fs')"
    "map_of (fs_files fs') l = Some d \<Longrightarrow> map_of (fs_files fs) l = Some d"
    unfolding is_dir_def by (auto simp only: look dirs split: if_splits)
qed

lemma loc_prefixes_iff: "l \<in> set (loc_prefixes loc) \<longleftrightarrow> loc_under l loc \<and> snd l \<noteq> []"
proof
  assume "l \<in> set (loc_prefixes loc)"
  then obtain n where "1 \<le> n" "n \<le> length (snd loc)" "l = (fst loc, take n (snd loc))"
    by (auto simp: loc_prefixes_def)
  then show "loc_under l loc \<and> snd l \<noteq> []" by (auto simp: loc_under_def take_is_prefix)
next
  assume "loc_under l loc \<and> snd l \<noteq> []"
  then have "l = (fst loc, take (length (snd l)) (snd loc))" "0 < length (snd l)" "length (snd l) \<le> length (snd loc)"
    by (auto simp: loc_under_def prefix_def prod_eq_iff)
  then have "length (snd l) \<in> {1..<Suc (length (snd loc))}" by (simp add: Suc_le_eq)
  then have "(fst loc, take (length (snd l)) (snd loc)) \<in> set (loc_prefixes loc)"
    unfolding loc_prefixes_def set_map set_upt by (rule imageI)
  with \<open>l = (fst loc, take (length (snd l)) (snd loc))\<close> show "l \<in> set (loc_prefixes loc)" by metis
qed

end
