(* ===== verification/Cert_Service.thy ===== *)
theory Cert_Service
  imports Go_Files Http_Text
begin

text \<open>
  \<^verbatim>\<open>internal/cert\<close>: the certificate authority of the server.  \<^verbatim>\<open>utils.go\<close> validates agent identifiers, parses
  lists and moves certificates and keys to and from files; \<^verbatim>\<open>generate.go\<close> issues the CA, server and agent
  certificates; \<^verbatim>\<open>service.go\<close> keeps them on disk.  Every operation takes the file system and returns it;
  what the random generator, the clock and \<^verbatim>\<open>CreateCertificate\<close> deliver is a \<open>gen_env\<close>.
\<close>

section \<open>Utilities\<close>

definition alphanumeric :: "char \<Rightarrow> bool" where
  "alphanumeric c \<longleftrightarrow> is_lower c \<or> is_upper c \<or> is_digit c"

definition validAgentIDRegex :: "string \<Rightarrow> bool" where
  "validAgentIDRegex s \<longleftrightarrow> s \<noteq> [] \<and> alphanumeric (hd s) \<and>
     list_all (\<lambda>c. alphanumeric c \<or> c = CHR ''_'' \<or> c = CHR ''-'') (tl s)"

definition ValidateAgentID :: "string \<Rightarrow> string option" where
  "ValidateAgentID agentID =
     (if agentID = '''' then Some ''agent ID cannot be empty''
      else if length agentID > 64 then Some ''agent ID too long (max 64 characters)''
      else if \<not> validAgentIDRegex agentID then
        Some ''agent ID contains invalid characters (allowed: alphanumeric, underscore, hyphen)''
      else None)"

definition ParseCommaSeparated :: "string \<Rightarrow> string list" where
  "ParseCommaSeparated input =
     (if input = '''' then []
      else filter (\<lambda>trimmed. trimmed \<noteq> '''') (map TrimSpace (split_on (CHR '','') input)))"

text \<open>Errors carry the texts of the source; \<open>LibError\<close> is an error of the standard library.\<close>

datatype cert_error = LibError | CertError string | CertWrap string cert_error

definition loadCA :: "os_env \<Rightarrow> string \<Rightarrow> string \<Rightarrow> file_system \<Rightarrow> cert_error + Certificate \<times> rsa_key" where
  "loadCA env certPath keyPath fs =
     (case os_ReadFile env certPath fs of
        None \<Rightarrow> Inl (CertWrap ''failed to read CA certificate'' LibError)
      | Some certBytes \<Rightarrow>
     (case pem_Decode certBytes of
        None \<Rightarrow> Inl (CertError ''failed to decode CA certificate PEM'')
      | Some (_, certDER) \<Rightarrow>
     (case ParseCertificate certDER of
        None \<Rightarrow> Inl (CertWrap ''failed to parse CA certificate'' LibError)
      | Some caCert \<Rightarrow>
     (case os_ReadFile env keyPath fs of
        None \<Rightarrow> Inl (CertWrap ''failed to read CA key'' LibError)
      | Some keyBytes \<Rightarrow>
     (case pem_Decode keyBytes of
        None \<Rightarrow> Inl (CertError ''failed to decode CA key PEM'')
      | Some (_, keyDER) \<Rightarrow>
     (case ParsePKCS8PrivateKey keyDER of
        None \<Rightarrow> Inl (CertWrap ''failed to parse CA key'' LibError)
      | Some (RSAKey caKey) \<Rightarrow> Inr (caCert, caKey)
      | Some (OtherKey _) \<Rightarrow> Inl (CertError ''CA key is not an RSA private key'')))))))"

text \<open>Encoding into a buffer never fails for these blocks, so the error branches of the callers are dead.\<close>

definition CertToPEM :: "Certificate \<Rightarrow> cert_error + file_data" where
  "CertToPEM cert = Inr (PEM ''CERTIFICATE'' (CertDER cert))"

definition KeyToPEM :: "rsa_key \<Rightarrow> cert_error + file_data" where
  "KeyToPEM key = Inr (PEM ''PRIVATE KEY'' (PKCS8DER (RSAKey key)))"

definition writeCertToFile :: "os_env \<Rightarrow> Certificate \<Rightarrow> string \<Rightarrow> file_system \<Rightarrow> cert_error option \<times> file_system" where
  "writeCertToFile env cert path fs =
     (case CertToPEM cert of
        Inl e \<Rightarrow> (Some (CertWrap ''failed to encode certificate'' e), fs)
      | Inr pemBytes \<Rightarrow>
          (case os_WriteFile env path pemBytes fs of
             (True, fs') \<Rightarrow> (None, fs')
           | (False, fs') \<Rightarrow> (Some (CertWrap ''failed to write certificate file'' LibError), fs')))"

definition writeKeyToFile :: "os_env \<Rightarrow> rsa_key \<Rightarrow> string \<Rightarrow> file_system \<Rightarrow> cert_error option \<times> file_system" where
  "writeKeyToFile env key path fs =
     (case KeyToPEM key of
        Inl e \<Rightarrow> (Some (CertWrap ''failed to encode key'' e), fs)
      | Inr pemBytes \<Rightarrow>
          (case os_WriteFile env path pemBytes fs of
             (True, fs') \<Rightarrow> (None, fs')
           | (False, fs') \<Rightarrow> (Some (CertWrap ''failed to write key file'' LibError), fs')))"

definition fileExists :: "os_env \<Rightarrow> string \<Rightarrow> file_system \<Rightarrow> bool" where
  "fileExists env path fs = os_Stat env path fs"

section \<open>Issuing certificates\<close>

record gen_env =
  ge_key :: "rsa_key option"
  ge_serial :: "nat option"
  ge_notBefore :: gotime
  ge_notAfter :: gotime
  ge_create :: bool

text \<open>
  The steps that the three generators have in common: a key, a serial number, the certificate, and its
  parsed form.  \<open>ca\<close> is the signing authority, or \<open>None\<close> for a self-signed certificate.
\<close>

definition issue_cert :: "string \<Rightarrow> gen_env \<Rightarrow> (nat \<Rightarrow> Certificate) \<Rightarrow> (Certificate \<times> rsa_key) option \<Rightarrow>
    cert_error + Certificate \<times> rsa_key" where
  "issue_cert what g template ca =
     (case ge_key g of
        None \<Rightarrow> Inl (CertWrap (''failed to generate '' @ what @ '' key'') LibError)
      | Some key \<Rightarrow>
     (case ge_serial g of
        None \<Rightarrow> Inl (CertWrap ''failed to generate serial number'' LibError)
      | Some serialNumber \<Rightarrow>
          let t = template serialNumber;
              (parent, priv) = (case ca of Some (c, k) \<Rightarrow> (c, k) | None \<Rightarrow> (t, key)) in
     (case CreateCertificate (ge_create g) t parent key priv of
        None \<Rightarrow> Inl (CertWrap (''failed to create '' @ what @ '' certificate'') LibError)
      | Some certBytes \<Rightarrow>
     (case ParseCertificate certBytes of
        None \<Rightarrow> Inl (CertWrap (''failed to parse '' @ what @ '' certificate'') LibError)
      | Some cert \<Rightarrow> Inr (cert, key)))))"

definition no_name :: Name where
  "no_name = \<lparr>n_Organization = [], n_CommonName = ''''\<rparr>"

definition server_template :: "gen_env \<Rightarrow> string list \<Rightarrow> string list \<Rightarrow> nat \<Rightarrow> Certificate" where
  "server_template g domainNames ipAddresses serialNumber =
     \<lparr>x_SerialNumber = serialNumber,
      x_Subject = \<lparr>n_Organization = [''Silo Proxy''],
                   n_CommonName = (case domainNames of d # _ \<Rightarrow> d | [] \<Rightarrow> ''localhost'')\<rparr>,
      x_NotBefore = ge_notBefore g, x_NotAfter = time_add (ge_notAfter g) (365 * 24 * hour),
      x_KeyUsage = [KeyUsageDigitalSignature, KeyUsageKeyEncipherment], x_ExtKeyUsage = [ExtKeyUsageServerAuth],
      x_BasicConstraintsValid = True, x_IsCA = False, x_MaxPathLenZero = False,
      x_DNSNames = domainNames, x_IPAddresses = ipAddresses,
      x_Issuer = no_name, x_PublicKey = None, x_Signer = None\<rparr>"

definition GenerateServerCert :: "gen_env \<Rightarrow> Certificate \<Rightarrow> rsa_key \<Rightarrow> string list \<Rightarrow> string list \<Rightarrow>
    cert_error + Certificate \<times> rsa_key" where
  "GenerateServerCert g caCert caKey domainNames ipAddresses =
     issue_cert ''server'' g (server_template g domainNames ipAddresses) (Some (caCert, caKey))"

definition ca_template :: "gen_env \<Rightarrow> nat \<Rightarrow> Certificate" where
  "ca_template g serialNumber =
     \<lparr>x_SerialNumber = serialNumber,
      x_Subject = \<lparr>n_Organization = [''Silo Proxy CA''], n_CommonName = ''Silo Proxy Root CA''\<rparr>,
      x_NotBefore = ge_notBefore g, x_NotAfter = time_add (ge_notAfter g) (10 * 365 * 24 * hour),
      x_KeyUsage = [KeyUsageCertSign, KeyUsageDigitalSignature],
      x_ExtKeyUsage = [ExtKeyUsageServerAuth, ExtKeyUsageClientAuth],
      x_BasicConstraintsValid = True, x_IsCA = True, x_MaxPathLenZero = True,
      x_DNSNames = [], x_IPAddresses = [],
      x_Issuer = no_name, x_PublicKey = None, x_Signer = None\<rparr>"

definition GenerateCA :: "gen_env \<Rightarrow> cert_error + Certificate \<times> rsa_key" where
  "GenerateCA g = issue_cert ''CA'' g (ca_template g) None"

definition agent_template :: "gen_env \<Rightarrow> string \<Rightarrow> nat \<Rightarrow> Certificate" where
  "agent_template g agentID serialNumber =
     \<lparr>x_SerialNumber = serialNumber,
      x_Subject = \<lparr>n_Organization = [''Silo Proxy''], n_CommonName = agentID\<rparr>,
      x_NotBefore = ge_notBefore g, x_NotAfter = time_add (ge_notAfter g) (365 * 24 * hour),
      x_KeyUsage = [KeyUsageDigitalSignature, KeyUsageKeyEncipherment], x_ExtKeyUsage = [ExtKeyUsageClientAuth],
      x_BasicConstraintsValid = True, x_IsCA = False, x_MaxPathLenZero = False,
      x_DNSNames = [], x_IPAddresses = [],
      x_Issuer = no_name, x_PublicKey = None, x_Signer = None\<rparr>"

section \<open>The service\<close>

record CertService =
  svc_CaCertPath :: string
  svc_CaKeyPath :: string
  svc_ServerCertPath :: string
  svc_ServerKeyPath :: string
  svc_AgentCertDir :: string
  svc_DomainNames :: "string list"
  svc_IPAddresses :: "string list"

definition ensureDirectory :: "os_env \<Rightarrow> string \<Rightarrow> file_system \<Rightarrow> cert_error option \<times> file_system" where
  "ensureDirectory env filePath fs =
     (let dir = Dir filePath in
      case os_MkdirAll env dir fs of
        (True, fs') \<Rightarrow> (None, fs')
      | (False, fs') \<Rightarrow> (Some (CertWrap (''failed to create directory '' @ dir) LibError), fs'))"

definition GetCACert :: "os_env \<Rightarrow> CertService \<Rightarrow> file_system \<Rightarrow> cert_error + file_data" where
  "GetCACert env s fs =
     (case os_ReadFile env (svc_CaCertPath s) fs of
        None \<Rightarrow> Inl (CertWrap ''failed to read CA certificate'' LibError)
      | Some certBytes \<Rightarrow> Inr certBytes)"

definition GetAgentCertDir :: "CertService \<Rightarrow> string \<Rightarrow> string" where
  "GetAgentCertDir s agentID = Join [svc_AgentCertDir s, agentID]"

definition GetAgentCertPath :: "CertService \<Rightarrow> string \<Rightarrow> string" where
  "GetAgentCertPath s agentID = Join [GetAgentCertDir s agentID, agentID @ ''-cert.pem'']"

definition GetAgentKeyPath :: "CertService \<Rightarrow> string \<Rightarrow> string" where
  "GetAgentKeyPath s agentID = Join [GetAgentCertDir s agentID, agentID @ ''-key.pem'']"

definition AgentCertExists :: "os_env \<Rightarrow> CertService \<Rightarrow> string \<Rightarrow> file_system \<Rightarrow> bool" where
  "AgentCertExists env s agentID fs \<longleftrightarrow>
     fileExists env (GetAgentCertPath s agentID) fs \<and> fileExists env (GetAgentKeyPath s agentID) fs"

text \<open>\<^verbatim>\<open>GenerateAgentCert\<close>: the certificate is issued first, then the directory and both files are written.\<close>

definition issue_agent_cert :: "os_env \<Rightarrow> gen_env \<Rightarrow> CertService \<Rightarrow> string \<Rightarrow> file_system \<Rightarrow>
    cert_error + Certificate \<times> rsa_key" where
  "issue_agent_cert env g s agentID fs =
     (case loadCA env (svc_CaCertPath s) (svc_CaKeyPath s) fs of
        Inl e \<Rightarrow> Inl (CertWrap ''failed to load CA'' e)
      | Inr (caCert, caKey) \<Rightarrow> issue_cert ''agent'' g (agent_template g agentID) (Some (caCert, caKey)))"

definition store_agent_cert :: "os_env \<Rightarrow> CertService \<Rightarrow> string \<Rightarrow> Certificate \<times> rsa_key \<Rightarrow> file_system \<Rightarrow>
    (cert_error + Certificate \<times> rsa_key) \<times> file_system" where
  "store_agent_cert env s agentID pair fs =
     (let certPath = GetAgentCertPath s agentID; keyPath = GetAgentKeyPath s agentID in
      case ensureDirectory env certPath fs of
        (Some e, fs1) \<Rightarrow> (Inl (CertWrap ''failed to create agent cert directory'' e), fs1)
      | (None, fs1) \<Rightarrow>
     (case writeCertToFile env (fst pair) certPath fs1 of
        (Some e, fs2) \<Rightarrow> (Inl (CertWrap ''failed to write agent certificate'' e), fs2)
      | (None, fs2) \<Rightarrow>
     (case writeKeyToFile env (snd pair) keyPath fs2 of
        (Some e, fs3) \<Rightarrow> (Inl (CertWrap ''failed to write agent key'' e), fs3)
      | (None, fs3) \<Rightarrow> (Inr pair, fs3))))"

definition GenerateAgentCert :: "os_env \<Rightarrow> gen_env \<Rightarrow> CertService \<Rightarrow> string \<Rightarrow> file_system \<Rightarrow>
    (cert_error + Certificate \<times> rsa_key) \<times> file_system" where
  "GenerateAgentCert env g s agentID fs =
     (case issue_agent_cert env g s agentID fs of
        Inl e \<Rightarrow> (Inl e, fs)
      | Inr pair \<Rightarrow> store_agent_cert env s agentID pair fs)"

text \<open>The result of \<^verbatim>\<open>GenerateAgentCertIfNotExists\<close> is \<open>None\<close> when a certificate exists already.\<close>

definition GenerateAgentCertIfNotExists :: "os_env \<Rightarrow> gen_env \<Rightarrow> CertService \<Rightarrow> string \<Rightarrow> file_system \<Rightarrow>
    (cert_error + (Certificate \<times> rsa_key) option) \<times> file_system" where
  "GenerateAgentCertIfNotExists env g s agentID fs =
     (if AgentCertExists env s agentID fs then (Inr None, fs)
      else
        case GenerateAgentCert env g s agentID fs of
          (Inl e, fs') \<Rightarrow> (Inl e, fs')
        | (Inr pair, fs') \<Rightarrow> (Inr (Some pair), fs'))"

definition GetAgentCert :: "os_env \<Rightarrow> CertService \<Rightarrow> string \<Rightarrow> file_system \<Rightarrow> cert_error + file_data \<times> file_data" where
  "GetAgentCert env s agentID fs =
     (case os_ReadFile env (GetAgentCertPath s agentID) fs of
        None \<Rightarrow> Inl (CertWrap ''failed to read agent certificate'' LibError)
      | Some certBytes \<Rightarrow>
     (case os_ReadFile env (GetAgentKeyPath s agentID) fs of
        None \<Rightarrow> Inl (CertWrap ''failed to read agent key'' LibError)
      | Some keyBytes \<Rightarrow> Inr (certBytes, keyBytes)))"

definition DeleteAgentCert :: "os_env \<Rightarrow> CertService \<Rightarrow> string \<Rightarrow> file_system \<Rightarrow> cert_error option \<times> file_system" where
  "DeleteAgentCert env s agentID fs =
     (let certDir = GetAgentCertDir s agentID in
      if \<not> fileExists env certDir fs then (Some (CertError ''agent certificate directory does not exist''), fs)
      else
        case os_RemoveAll env certDir fs of
          (True, fs') \<Rightarrow> (None, fs')
        | (False, fs') \<Rightarrow> (Some (CertWrap ''failed to delete agent certificate directory'' LibError), fs'))"

definition ListAgentCerts :: "os_env \<Rightarrow> CertService \<Rightarrow> file_system \<Rightarrow> cert_error + string list" where
  "ListAgentCerts env s fs =
     (if \<not> fileExists env (svc_AgentCertDir s) fs then Inr []
      else
        case os_ReadDir env (svc_AgentCertDir s) fs of
          None \<Rightarrow> Inl (CertWrap ''failed to read agent cert directory'' LibError)
        | Some entries \<Rightarrow>
            Inr (map fst (filter (\<lambda>(name, dir). dir \<and> AgentCertExists env s name fs) entries)))"

text \<open>Writing a pair and its directories, as both halves of \<^verbatim>\<open>ensureCertificates\<close> do.\<close>

definition store_pair :: "os_env \<Rightarrow> string \<Rightarrow> string \<Rightarrow> string \<Rightarrow> Certificate \<times> rsa_key \<Rightarrow> file_system \<Rightarrow>
    cert_error option \<times> file_system" where
  "store_pair env what certPath keyPath pair fs =
     (case ensureDirectory env certPath fs of
        (Some e, fs1) \<Rightarrow> (Some e, fs1)
      | (None, fs1) \<Rightarrow>
     (case writeCertToFile env (fst pair) certPath fs1 of
        (Some e, fs2) \<Rightarrow> (Some (CertWrap (''failed to write '' @ what @ '' certificate'') e), fs2)
      | (None, fs2) \<Rightarrow>
     (case ensureDirectory env keyPath fs2 of
        (Some e, fs3) \<Rightarrow> (Some e, fs3)
      | (None, fs3) \<Rightarrow>
     (case writeKeyToFile env (snd pair) keyPath fs3 of
        (Some e, fs4) \<Rightarrow> (Some (CertWrap (''failed to write '' @ what @ '' key'') e), fs4)
      | (None, fs4) \<Rightarrow> (None, fs4)))))"

definition ensure_ca :: "os_env \<Rightarrow> gen_env \<Rightarrow> CertService \<Rightarrow> file_system \<Rightarrow>
    (cert_error + Certificate \<times> rsa_key) \<times> file_system" where
  "ensure_ca env g s fs =
     (let caCertExists = fileExists env (svc_CaCertPath s) fs;
          caKeyExists = fileExists env (svc_CaKeyPath s) fs in
      if \<not> caCertExists \<or> \<not> caKeyExists then
        (case GenerateCA g of
           Inl e \<Rightarrow> (Inl (CertWrap ''failed to generate CA certificate'' e), fs)
         | Inr ca \<Rightarrow>
             (case store_pair env ''CA'' (svc_CaCertPath s) (svc_CaKeyPath s) ca fs of
                (Some e, fs') \<Rightarrow> (Inl e, fs')
              | (None, fs') \<Rightarrow> (Inr ca, fs')))
      else
        (case loadCA env (svc_CaCertPath s) (svc_CaKeyPath s) fs of
           Inl e \<Rightarrow> (Inl (CertWrap ''failed to load existing CA certificate'' e), fs)
         | Inr ca \<Rightarrow> (Inr ca, fs)))"

definition ensure_server :: "os_env \<Rightarrow> gen_env \<Rightarrow> CertService \<Rightarrow> Certificate \<times> rsa_key \<Rightarrow> file_system \<Rightarrow>
    cert_error option \<times> file_system" where
  "ensure_server env g s ca fs =
     (let serverCertExists = fileExists env (svc_ServerCertPath s) fs;
          serverKeyExists = fileExists env (svc_ServerKeyPath s) fs in
      if \<not> serverCertExists \<or> \<not> serverKeyExists then
        (case GenerateServerCert g (fst ca) (snd ca) (svc_DomainNames s) (svc_IPAddresses s) of
           Inl e \<Rightarrow> (Some (CertWrap ''failed to generate server certificate'' e), fs)
         | Inr pair \<Rightarrow> store_pair env ''server'' (svc_ServerCertPath s) (svc_ServerKeyPath s) pair fs)
      else (None, fs))"

definition ensureCertificates :: "os_env \<Rightarrow> gen_env \<Rightarrow> gen_env \<Rightarrow> CertService \<Rightarrow> file_system \<Rightarrow>
    cert_error option \<times> file_system" where
  "ensureCertificates env gCA gSrv s fs =
     (case ensure_ca env gCA s fs of
        (Inl e, fs1) \<Rightarrow> (Some e, fs1)
      | (Inr ca, fs1) \<Rightarrow> ensure_server env gSrv s ca fs1)"

text \<open>\<^verbatim>\<open>New\<close>; \<open>ParseIP\<close> is \<^verbatim>\<open>net.ParseIP\<close> followed by the canonical text of the address.\<close>

definition New :: "os_env \<Rightarrow> (string \<Rightarrow> string option) \<Rightarrow> gen_env \<Rightarrow> gen_env \<Rightarrow> string \<Rightarrow> string \<Rightarrow> string \<Rightarrow> string \<Rightarrow>
    string \<Rightarrow> string \<Rightarrow> string \<Rightarrow> file_system \<Rightarrow> (cert_error + CertService) \<times> file_system" where
  "New env ParseIP gCA gSrv caCertPath caKeyPath serverCertPath serverKeyPath agentCertDir
     domainNamesConfig IPAddressesConfig fs =
     (let s = \<lparr>svc_CaCertPath = caCertPath, svc_CaKeyPath = caKeyPath, svc_ServerCertPath = serverCertPath,
               svc_ServerKeyPath = serverKeyPath, svc_AgentCertDir = agentCertDir,
               svc_DomainNames = ParseCommaSeparated domainNamesConfig,
               svc_IPAddresses = List.map_filter ParseIP (ParseCommaSeparated IPAddressesConfig)\<rparr> in
      case ensureCertificates env gCA gSrv s fs of
        (Some e, fs') \<Rightarrow> (Inl (CertWrap ''failed to ensure certificates'' e), fs')
      | (None, fs') \<Rightarrow> (Inr s, fs'))"

section \<open>Agent files\<close>

lemma valid_chars:
  assumes "ValidateAgentID a = None"
  shows "a \<noteq> []" "\<forall>c\<in>set a. alphanumeric c \<or> c = CHR ''_'' \<or> c = CHR ''-''"
proof -
  have v: "a \<noteq> []" "alphanumeric (hd a)" "\<forall>c\<in>set (tl a). alphanumeric c \<or> c = CHR ''_'' \<or> c = CHR ''-''"
    using assms by (auto simp: ValidateAgentID_def validAgentIDRegex_def list_all_iff split: if_splits)
  then have "set a = insert (hd a) (set (tl a))" by (cases a) auto
  with v show "a \<noteq> []" "\<forall>c\<in>set a. alphanumeric c \<or> c = CHR ''_'' \<or> c = CHR ''-''" by auto
qed

lemma alphanumeric_not: "\<not> alphanumeric (CHR ''/'')" "\<not> alphanumeric (CHR ''.'')"
  by (simp_all add: alphanumeric_def is_lower_def is_upper_def is_digit_def)

lemma valid_plain: "ValidateAgentID a = None \<Longrightarrow> plain a"
proof -
  assume "ValidateAgentID a = None"
  note v = valid_chars [OF this]
  have "CHR ''/'' \<notin> set a" "CHR ''.'' \<notin> set a" using v(2) alphanumeric_not by auto
  then show ?thesis using v(1) by (auto simp: plain_def)
qed

lemma plain_append: "plain a \<Longrightarrow> CHR ''/'' \<notin> set b \<Longrightarrow> 2 \<le> length b \<Longrightarrow> plain (a @ b)"
proof -
  assume a: "plain a" "CHR ''/'' \<notin> set b" "2 \<le> length b"
  then have "2 < length (a @ b)" by (cases a) (auto simp: plain_def)
  moreover have "x \<noteq> '''' \<and> x \<noteq> ''.'' \<and> x \<noteq> ''..''" if "2 < length x" for x :: string using that by auto
  ultimately have "a @ b \<noteq> '''' \<and> a @ b \<noteq> ''.'' \<and> a @ b \<noteq> ''..''" by blast
  moreover have "CHR ''/'' \<notin> set (a @ b)" using a by (simp add: plain_def)
  ultimately show ?thesis unfolding plain_def by blast
qed

lemma plain_pem: "plain a \<Longrightarrow> plain (a @ ''-cert.pem'')" "plain a \<Longrightarrow> plain (a @ ''-key.pem'')"
  by (rule plain_append; simp)+

lemma agent_locations:
  assumes "plain a" and "path_parts (svc_AgentCertDir s) = (r, cs)"
  shows "path_parts (GetAgentCertDir s a) = (r, cs @ [a])"
    "path_parts (GetAgentCertPath s a) = (r, cs @ [a, a @ ''-cert.pem''])"
    "path_parts (GetAgentKeyPath s a) = (r, cs @ [a, a @ ''-key.pem''])"
    "path_parts (Dir (GetAgentCertPath s a)) = (r, cs @ [a])"
  using assms plain_pem [OF assms(1)]
  by (simp_all add: GetAgentCertDir_def GetAgentCertPath_def GetAgentKeyPath_def path_parts_Join path_parts_Dir_Join
      del: append.simps)

abbreviation cert_loc :: "CertService \<Rightarrow> string \<Rightarrow> location" where
  "cert_loc s a \<equiv> path_parts (GetAgentCertPath s a)"

abbreviation key_loc :: "CertService \<Rightarrow> string \<Rightarrow> location" where
  "key_loc s a \<equiv> path_parts (GetAgentKeyPath s a)"

lemma cert_loc_key_loc: "plain a \<Longrightarrow> cert_loc s a \<noteq> key_loc s a"
  by (cases "path_parts (svc_AgentCertDir s)") (simp add: agent_locations)

section \<open>Writing certificates and keys\<close>

lemma ensureDirectory_frame:
  assumes "ensureDirectory env p fs = (e, fs')"
  shows "fs_files fs' = fs_files fs" "is_dir fs l \<Longrightarrow> is_dir fs' l" "e = None \<Longrightarrow> is_dir fs' (path_parts (Dir p))"
    "is_dir fs' l \<Longrightarrow> is_dir fs l \<or> l \<in> set (loc_prefixes (path_parts (Dir p)))"
proof -
  obtain ok where mk: "os_MkdirAll env (Dir p) fs = (ok, fs')" and e: "e = None \<longleftrightarrow> ok"
    using assms by (auto simp: ensureDirectory_def Let_def split: prod.splits bool.splits)
  note F = MkdirAll_frame [OF mk]
  show "fs_files fs' = fs_files fs" "is_dir fs l \<Longrightarrow> is_dir fs' l" "e = None \<Longrightarrow> is_dir fs' (path_parts (Dir p))"
    "is_dir fs' l \<Longrightarrow> is_dir fs l \<or> l \<in> set (loc_prefixes (path_parts (Dir p)))"
    using F e by blast+
qed

lemma write_frame:
  assumes "writeCertToFile env c p fs = (e, fs') \<and> d = PEM ''CERTIFICATE'' (CertDER c) \<or>
           writeKeyToFile env k p fs = (e, fs') \<and> d = PEM ''PRIVATE KEY'' (PKCS8DER (RSAKey k))"
  shows "fs_dirs fs' = fs_dirs fs" "l \<noteq> path_parts p \<Longrightarrow> map_of (fs_files fs') l = map_of (fs_files fs) l"
    "e = None \<Longrightarrow> map_of (fs_files fs') (path_parts p) = Some d"
proof -
  obtain ok where w: "os_WriteFile env p d fs = (ok, fs')" and e: "e = None \<longleftrightarrow> ok"
    using assms
    by (auto simp: writeCertToFile_def writeKeyToFile_def CertToPEM_def KeyToPEM_def split: prod.splits bool.splits)
  note F = WriteFile_frame [OF w]
  show "fs_dirs fs' = fs_dirs fs" "l \<noteq> path_parts p \<Longrightarrow> map_of (fs_files fs') l = map_of (fs_files fs) l"
    "e = None \<Longrightarrow> map_of (fs_files fs') (path_parts p) = Some d"
    using F e by blast+
qed

lemmas write_cert_frame = write_frame [OF disjI1 [OF conjI [OF _ refl]]]
lemmas write_key_frame = write_frame [OF disjI2 [OF conjI [OF _ refl]]]

lemma store_agent_cert_frame:
  assumes "plain a" "store_agent_cert env s a pair fs = (res, fs')"
  shows "l \<noteq> cert_loc s a \<Longrightarrow> l \<noteq> key_loc s a \<Longrightarrow> map_of (fs_files fs') l = map_of (fs_files fs) l"
    "res = Inr p \<Longrightarrow> p = pair \<and>
       map_of (fs_files fs') (cert_loc s a) = Some (PEM ''CERTIFICATE'' (CertDER (fst pair))) \<and>
       map_of (fs_files fs') (key_loc s a) = Some (PEM ''PRIVATE KEY'' (PKCS8DER (RSAKey (snd pair))))"
    "is_dir fs l \<Longrightarrow> is_dir fs' l"
    "is_dir fs' l \<Longrightarrow> is_dir fs l \<or> loc_under l (path_parts (GetAgentCertDir s a))"
proof -
  obtain r cs where D: "path_parts (svc_AgentCertDir s) = (r, cs)" by (cases "path_parts (svc_AgentCertDir s)")
  note L = agent_locations [OF assms(1) D]
  obtain e1 fs1 where 1: "ensureDirectory env (GetAgentCertPath s a) fs = (e1, fs1)" by (metis surj_pair)
  obtain e2 fs2 where 2: "writeCertToFile env (fst pair) (GetAgentCertPath s a) fs1 = (e2, fs2)" by (metis surj_pair)
  obtain e3 fs3 where 3: "writeKeyToFile env (snd pair) (GetAgentKeyPath s a) fs2 = (e3, fs3)" by (metis surj_pair)
  note F1 = ensureDirectory_frame [OF 1] and F2 = write_cert_frame [OF 2] and F3 = write_key_frame [OF 3]
  note ne = cert_loc_key_loc [OF assms(1), of s]
  have run: "(res, fs') = (case e1 of Some e \<Rightarrow> (Inl (CertWrap ''failed to create agent cert directory'' e), fs1)
      | None \<Rightarrow> (case e2 of Some e \<Rightarrow> (Inl (CertWrap ''failed to write agent certificate'' e), fs2)
      | None \<Rightarrow> (case e3 of Some e \<Rightarrow> (Inl (CertWrap ''failed to write agent key'' e), fs3) | None \<Rightarrow> (Inr pair, fs3))))"
    using assms(2) 1 2 3 by (cases e1; cases e2; cases e3) (simp_all add: store_agent_cert_def Let_def)
  then consider "fs' = fs1" "isl res" | "fs' = fs2" "isl res" | "fs' = fs3" "isl res"
    | "fs' = fs3" "res = Inr pair" "e2 = None" "e3 = None"
    by (auto split: option.splits)
  note cases = this
  show "map_of (fs_files fs') l = map_of (fs_files fs) l" if "l \<noteq> cert_loc s a" "l \<noteq> key_loc s a"
    using cases by cases (use that F1(1) F2(2) F3(2) in simp_all)
  show "p = pair \<and>
       map_of (fs_files fs') (cert_loc s a) = Some (PEM ''CERTIFICATE'' (CertDER (fst pair))) \<and>
       map_of (fs_files fs') (key_loc s a) = Some (PEM ''PRIVATE KEY'' (PKCS8DER (RSAKey (snd pair))))" if "res = Inr p"
    using cases by cases (use that F2(3) F3(2,3) ne in auto)
  have dirs: "is_dir fs2 = is_dir fs1" "is_dir fs3 = is_dir fs1"
    using F2(1) F3(1) by (simp_all add: is_dir_def fun_eq_iff)
  show "is_dir fs' l" if "is_dir fs l"
    using cases by cases (use that F1(2) dirs in simp_all)
  show "is_dir fs l \<or> loc_under l (path_parts (GetAgentCertDir s a))" if "is_dir fs' l"
    using cases by cases (use that F1(4) [of l] dirs L in \<open>auto simp: loc_prefixes_iff\<close>)
qed

lemma issue_cert_ok:
  assumes "issue_cert what g template ca = Inr (c, k)"
  shows "ge_key g = Some k" "\<exists>sn. ge_serial g = Some sn \<and>
     (case ca of
        Some (p, priv) \<Rightarrow> c = (template sn)\<lparr>x_Issuer := x_Subject p, x_PublicKey := Some k, x_Signer := Some priv\<rparr> \<and>
          (x_PublicKey p \<noteq> None \<longrightarrow> x_PublicKey p = Some priv)
      | None \<Rightarrow> c = (template sn)\<lparr>x_Issuer := x_Subject (template sn), x_PublicKey := Some k, x_Signer := Some k\<rparr>)"
  using assms
  by (auto simp: issue_cert_def CreateCertificate_def Let_def split: option.splits if_splits)

text \<open>A certificate that may sign others, at the time \<open>now\<close>.\<close>

definition proper_ca :: "gotime \<Rightarrow> Certificate \<Rightarrow> bool" where
  "proper_ca now ca \<longleftrightarrow> x_IsCA ca \<and> x_BasicConstraintsValid ca \<and> KeyUsageCertSign \<in> set (x_KeyUsage ca) \<and>
     x_PublicKey ca \<noteq> None \<and> ExtKeyUsageServerAuth \<in> set (x_ExtKeyUsage ca) \<and>
     ExtKeyUsageClientAuth \<in> set (x_ExtKeyUsage ca) \<and> x_NotBefore ca \<le> now \<and> now \<le> x_NotAfter ca"

lemma issue_agent_cert_ok:
  assumes "issue_agent_cert env g s a fs = Inr (c, k)"
  shows "\<exists>ca caKey. loadCA env (svc_CaCertPath s) (svc_CaKeyPath s) fs = Inr (ca, caKey) \<and>
    n_CommonName (x_Subject c) = a \<and> x_PublicKey c = Some k \<and> \<not> x_IsCA c \<and>
    (\<forall>now. proper_ca now ca \<longrightarrow> x_NotBefore c \<le> now \<longrightarrow> now \<le> x_NotAfter c \<longrightarrow>
       verifies now ExtKeyUsageClientAuth ca c \<and> \<not> verifies now ExtKeyUsageServerAuth ca c)"
proof -
  obtain ca caKey where load: "loadCA env (svc_CaCertPath s) (svc_CaKeyPath s) fs = Inr (ca, caKey)"
      and i: "issue_cert ''agent'' g (agent_template g a) (Some (ca, caKey)) = Inr (c, k)"
    using assms by (auto simp: issue_agent_cert_def split: sum.splits)
  from issue_cert_ok(2) [OF i] obtain sn where
    "c = (agent_template g a sn)\<lparr>x_Issuer := x_Subject ca, x_PublicKey := Some k, x_Signer := Some caKey\<rparr>"
    "x_PublicKey ca \<noteq> None \<longrightarrow> x_PublicKey ca = Some caKey"
    by auto
  with load show ?thesis by (auto simp: agent_template_def proper_ca_def verifies_def)
qed

section \<open>The certificates of the server\<close>

text \<open>The configured files end in plain names and none of them lies below another.\<close>

definition apart :: "string \<Rightarrow> string \<Rightarrow> bool" where
  "apart p q \<longleftrightarrow> \<not> loc_under (path_parts p) (path_parts q) \<and> \<not> loc_under (path_parts q) (path_parts p)"

definition config_files :: "CertService \<Rightarrow> string list" where
  "config_files s = [svc_CaCertPath s, svc_CaKeyPath s, svc_ServerCertPath s, svc_ServerKeyPath s]"

definition config_ok :: "CertService \<Rightarrow> bool" where
  "config_ok s \<longleftrightarrow> list_all (\<lambda>p. plain (last (split_on (CHR ''/'') p))) (config_files s) \<and> sorted_wrt apart (config_files s)"

lemma apart_sym: "apart p q \<Longrightarrow> apart q p"
  by (simp add: apart_def)

lemma loc_under_refl: "loc_under l l"
  by (simp add: loc_under_def)

lemma apart_neq: "apart p q \<Longrightarrow> path_parts p \<noteq> path_parts q"
  by (auto simp: apart_def loc_under_refl)

lemma apart_not_above:
  assumes "plain (last (split_on (CHR ''/'') p))" "p = q \<or> apart q p"
  shows "path_parts q \<notin> set (loc_prefixes (path_parts (Dir p)))"
proof
  assume q: "path_parts q \<in> set (loc_prefixes (path_parts (Dir p)))"
  obtain c where p: "path_parts p = (fst (path_parts (Dir p)), snd (path_parts (Dir p)) @ [c])"
    by (rule path_parts_Dir [OF assms(1)])
  have under: "loc_under (path_parts q) (path_parts (Dir p))" using q by (simp add: loc_prefixes_iff)
  then have "loc_under (path_parts q) (path_parts p)" by (subst p) (auto simp: loc_under_def)
  with assms(2) have "p = q" by (auto simp: apart_def)
  with under p have "prefix (snd (path_parts (Dir p)) @ [c]) (snd (path_parts (Dir p)))"
    unfolding loc_under_def by (metis snd_conv)
  then show False using prefix_length_le by fastforce
qed

lemma store_pair_frame:
  assumes "store_pair env what cp kp pair fs = (e, fs')"
  shows "l \<noteq> path_parts cp \<Longrightarrow> l \<noteq> path_parts kp \<Longrightarrow> map_of (fs_files fs') l = map_of (fs_files fs) l"
    "e = None \<Longrightarrow> path_parts cp \<noteq> path_parts kp \<Longrightarrow>
       map_of (fs_files fs') (path_parts cp) = Some (PEM ''CERTIFICATE'' (CertDER (fst pair))) \<and>
       map_of (fs_files fs') (path_parts kp) = Some (PEM ''PRIVATE KEY'' (PKCS8DER (RSAKey (snd pair))))"
    "l \<notin> set (loc_prefixes (path_parts (Dir cp))) \<Longrightarrow> l \<notin> set (loc_prefixes (path_parts (Dir kp))) \<Longrightarrow>
       is_dir fs' l = is_dir fs l"
proof -
  obtain e1 fs1 where 1: "ensureDirectory env cp fs = (e1, fs1)" by (metis surj_pair)
  obtain e2 fs2 where 2: "writeCertToFile env (fst pair) cp fs1 = (e2, fs2)" by (metis surj_pair)
  obtain e3 fs3 where 3: "ensureDirectory env kp fs2 = (e3, fs3)" by (metis surj_pair)
  obtain e4 fs4 where 4: "writeKeyToFile env (snd pair) kp fs3 = (e4, fs4)" by (metis surj_pair)
  note F1 = ensureDirectory_frame [OF 1] and F2 = write_cert_frame [OF 2] and F3 = ensureDirectory_frame [OF 3]
    and F4 = write_key_frame [OF 4]
  consider "fs' = fs1" "e \<noteq> None" | "fs' = fs2" "e \<noteq> None" | "fs' = fs3" "e \<noteq> None" | "fs' = fs4" "e \<noteq> None"
    | "fs' = fs4" "e = None" "e2 = None" "e4 = None"
    using assms 1 2 3 4 by (cases e1; cases e2; cases e3; cases e4) (auto simp: store_pair_def)
  note cases = this
  show "map_of (fs_files fs') l = map_of (fs_files fs) l" if "l \<noteq> path_parts cp" "l \<noteq> path_parts kp"
    using cases by cases (use that F1(1) F2(2) F3(1) F4(2) in simp_all)
  show "map_of (fs_files fs') (path_parts cp) = Some (PEM ''CERTIFICATE'' (CertDER (fst pair))) \<and>
       map_of (fs_files fs') (path_parts kp) = Some (PEM ''PRIVATE KEY'' (PKCS8DER (RSAKey (snd pair))))"
    if "e = None" "path_parts cp \<noteq> path_parts kp"
    using cases by cases (use that F2(3) F3(1) F4(2,3) in simp_all)
  show "is_dir fs' l = is_dir fs l"
    if "l \<notin> set (loc_prefixes (path_parts (Dir cp)))" "l \<notin> set (loc_prefixes (path_parts (Dir kp)))"
  proof -
    have "is_dir fs1 l = is_dir fs l" using F1(2,4) that by blast
    moreover have "is_dir fs2 l = is_dir fs1 l" using F2(1) by (simp add: is_dir_def)
    moreover have "is_dir fs3 l = is_dir fs2 l" using F3(2,4) that by blast
    moreover have "is_dir fs4 l = is_dir fs3 l" using F4(1) by (simp add: is_dir_def)
    ultimately have eq: "is_dir fs1 l = is_dir fs l" "is_dir fs2 l = is_dir fs l" "is_dir fs3 l = is_dir fs l"
      "is_dir fs4 l = is_dir fs l" by simp_all
    show ?thesis using cases by cases (simp_all only: eq)
  qed
qed

lemma read_cong:
  assumes "map_of (fs_files fs') (path_parts q) = map_of (fs_files fs) (path_parts q) \<and>
    is_dir fs' (path_parts q) = is_dir fs (path_parts q)"
  shows "os_ReadFile env q fs' = os_ReadFile env q fs" "fileExists env q fs' = fileExists env q fs"
  using assms by (simp_all add: os_ReadFile_def fileExists_def os_Stat_def)

text \<open>Storing one of the two pairs does not touch the other.\<close>

lemma store_pair_other:
  assumes "store_pair env what cp kp pair fs = (e, fs')" "apart q cp" "apart q kp"
    "plain (last (split_on (CHR ''/'') cp))" "plain (last (split_on (CHR ''/'') kp))"
  shows "os_ReadFile env' q fs' = os_ReadFile env' q fs" "fileExists env' q fs' = fileExists env' q fs"
proof -
  have m: "map_of (fs_files fs') (path_parts q) = map_of (fs_files fs) (path_parts q)"
    using store_pair_frame(1) [OF assms(1)] apart_neq [OF assms(2)] apart_neq [OF assms(3)] by blast
  have d: "is_dir fs' (path_parts q) = is_dir fs (path_parts q)"
    using store_pair_frame(3) [OF assms(1)] apart_not_above [OF assms(4), of q] apart_not_above [OF assms(5), of q] assms(2,3)
    by blast
  show "os_ReadFile env' q fs' = os_ReadFile env' q fs" "fileExists env' q fs' = fileExists env' q fs"
    using read_cong [OF conjI [OF m d]] .
qed

lemma loadCA_stored:
  assumes "map_of (fs_files fs) (path_parts cp) = Some (PEM ct (CertDER c))"
    "map_of (fs_files fs) (path_parts kp) = Some (PEM kt (PKCS8DER (RSAKey k)))"
    "\<not> os_read_err env cp" "\<not> os_read_err env kp"
  shows "loadCA env cp kp fs = Inr (c, k)"
  using assms by (simp add: loadCA_def os_ReadFile_def)

lemma loadCA_cong:
  "os_ReadFile env cp fs' = os_ReadFile env cp fs \<Longrightarrow> os_ReadFile env kp fs' = os_ReadFile env kp fs \<Longrightarrow>
   loadCA env cp kp fs' = loadCA env cp kp fs"
proof -
  assume c: "os_ReadFile env cp fs' = os_ReadFile env cp fs" and k: "os_ReadFile env kp fs' = os_ReadFile env kp fs"
  show ?thesis unfolding loadCA_def c k ..
qed

lemma config_okD:
  assumes "config_ok s"
  shows "p \<in> set (config_files s) \<Longrightarrow> plain (last (split_on (CHR ''/'') p))"
    "apart (svc_CaCertPath s) (svc_CaKeyPath s)" "apart (svc_ServerCertPath s) (svc_ServerKeyPath s)"
    "q \<in> {svc_ServerCertPath s, svc_ServerKeyPath s} \<Longrightarrow> apart q (svc_CaCertPath s) \<and> apart q (svc_CaKeyPath s)"
  using assms unfolding config_ok_def config_files_def by (auto simp: list_all_iff intro: apart_sym)

lemma GenerateCA_ok:
  assumes "GenerateCA g = Inr (ca, k)"
  shows "ge_key g = Some k" "x_PublicKey ca = Some k"
    "ge_notBefore g \<le> now \<Longrightarrow> now \<le> ge_notAfter g + 10 * 365 * 24 * hour \<Longrightarrow> proper_ca now ca"
proof -
  from issue_cert_ok(2) [OF assms [unfolded GenerateCA_def]] obtain sn where
    ca: "ca = (ca_template g sn)\<lparr>x_Issuer := x_Subject (ca_template g sn), x_PublicKey := Some k, x_Signer := Some k\<rparr>"
    by auto
  show "ge_key g = Some k" by (rule issue_cert_ok(1) [OF assms [unfolded GenerateCA_def]])
  show "x_PublicKey ca = Some k"
    "ge_notBefore g \<le> now \<Longrightarrow> now \<le> ge_notAfter g + 10 * 365 * 24 * hour \<Longrightarrow> proper_ca now ca"
    by (simp_all add: ca ca_template_def proper_ca_def time_add_def)
qed

lemma ensure_ca_ok:
  assumes c: "config_ok s" and r: "\<not> os_read_err env (svc_CaCertPath s)" "\<not> os_read_err env (svc_CaKeyPath s)"
    and run: "ensure_ca env g s fs = (Inr ca, fs1)"
  shows "loadCA env (svc_CaCertPath s) (svc_CaKeyPath s) fs1 = Inr ca"
    "fileExists env (svc_CaCertPath s) fs \<and> fileExists env (svc_CaKeyPath s) fs \<Longrightarrow> fs1 = fs"
    "\<not> (fileExists env (svc_CaCertPath s) fs \<and> fileExists env (svc_CaKeyPath s) fs) \<Longrightarrow> GenerateCA g = Inr ca"
    "q \<in> {svc_ServerCertPath s, svc_ServerKeyPath s} \<Longrightarrow>
       os_ReadFile env q fs1 = os_ReadFile env q fs \<and> fileExists env q fs1 = fileExists env q fs"
    "\<not> (fileExists env (svc_CaCertPath s) fs \<and> fileExists env (svc_CaKeyPath s) fs) \<Longrightarrow>
       os_ReadFile env (svc_CaCertPath s) fs1 = Some (PEM ''CERTIFICATE'' (CertDER (fst ca)))"
proof -
  note D = config_okD [OF c]
  show same: "fs1 = fs" if "fileExists env (svc_CaCertPath s) fs \<and> fileExists env (svc_CaKeyPath s) fs"
    using run that by (auto simp: ensure_ca_def Let_def split: sum.splits)
  have gen: "GenerateCA g = Inr ca \<and> store_pair env ''CA'' (svc_CaCertPath s) (svc_CaKeyPath s) ca fs = (None, fs1)"
    if "\<not> (fileExists env (svc_CaCertPath s) fs \<and> fileExists env (svc_CaKeyPath s) fs)"
    using run that by (auto simp: ensure_ca_def Let_def split: sum.splits prod.splits option.splits if_splits)
  then show "GenerateCA g = Inr ca"
    if "\<not> (fileExists env (svc_CaCertPath s) fs \<and> fileExists env (svc_CaKeyPath s) fs)" using that by blast
  show "os_ReadFile env (svc_CaCertPath s) fs1 = Some (PEM ''CERTIFICATE'' (CertDER (fst ca)))"
    if "\<not> (fileExists env (svc_CaCertPath s) fs \<and> fileExists env (svc_CaKeyPath s) fs)"
    using store_pair_frame(2) [OF gen [OF that, THEN conjunct2] refl apart_neq [OF D(2)]] r by (simp add: os_ReadFile_def)
  show "loadCA env (svc_CaCertPath s) (svc_CaKeyPath s) fs1 = Inr ca"
  proof (cases "fileExists env (svc_CaCertPath s) fs \<and> fileExists env (svc_CaKeyPath s) fs")
    case True
    then show ?thesis using run by (auto simp: ensure_ca_def Let_def split: sum.splits)
  next
    case False
    from store_pair_frame(2) [OF gen [OF False, THEN conjunct2] refl apart_neq [OF D(2)]] loadCA_stored r
    show ?thesis by (cases ca) auto
  qed
  show "os_ReadFile env q fs1 = os_ReadFile env q fs \<and> fileExists env q fs1 = fileExists env q fs"
    if q: "q \<in> {svc_ServerCertPath s, svc_ServerKeyPath s}"
  proof (cases "fileExists env (svc_CaCertPath s) fs \<and> fileExists env (svc_CaKeyPath s) fs")
    case True
    with same show ?thesis by simp
  next
    case False
    have "plain (last (split_on (CHR ''/'') (svc_CaCertPath s)))" "plain (last (split_on (CHR ''/'') (svc_CaKeyPath s)))"
      by (rule D(1), simp add: config_files_def)+
    with store_pair_other [OF gen [OF False, THEN conjunct2]] D(4) [OF q] show ?thesis by blast
  qed
qed

lemma ensure_server_ok:
  assumes c: "config_ok s" and run: "ensure_server env g s ca fs = (None, fs')"
  shows "fileExists env (svc_ServerCertPath s) fs \<and> fileExists env (svc_ServerKeyPath s) fs \<Longrightarrow> fs' = fs"
    "\<not> (fileExists env (svc_ServerCertPath s) fs \<and> fileExists env (svc_ServerKeyPath s) fs) \<Longrightarrow>
     \<exists>cert key. GenerateServerCert g (fst ca) (snd ca) (svc_DomainNames s) (svc_IPAddresses s) = Inr (cert, key) \<and>
       map_of (fs_files fs') (path_parts (svc_ServerCertPath s)) = Some (PEM ''CERTIFICATE'' (CertDER cert)) \<and>
       map_of (fs_files fs') (path_parts (svc_ServerKeyPath s)) = Some (PEM ''PRIVATE KEY'' (PKCS8DER (RSAKey key)))"
    "q \<in> {svc_CaCertPath s, svc_CaKeyPath s} \<Longrightarrow> os_ReadFile env' q fs' = os_ReadFile env' q fs"
    "loadCA env (svc_CaCertPath s) (svc_CaKeyPath s) fs' = loadCA env (svc_CaCertPath s) (svc_CaKeyPath s) fs"
proof -
  note D = config_okD [OF c]
  show same: "fs' = fs" if "fileExists env (svc_ServerCertPath s) fs \<and> fileExists env (svc_ServerKeyPath s) fs"
    using run that by (auto simp: ensure_server_def Let_def)
  have gen: "\<exists>pair. GenerateServerCert g (fst ca) (snd ca) (svc_DomainNames s) (svc_IPAddresses s) = Inr pair \<and>
      store_pair env ''server'' (svc_ServerCertPath s) (svc_ServerKeyPath s) pair fs = (None, fs')"
    if "\<not> (fileExists env (svc_ServerCertPath s) fs \<and> fileExists env (svc_ServerKeyPath s) fs)"
    using run that by (auto simp: ensure_server_def Let_def split: sum.splits if_splits)
  show "\<exists>cert key. GenerateServerCert g (fst ca) (snd ca) (svc_DomainNames s) (svc_IPAddresses s) = Inr (cert, key) \<and>
       map_of (fs_files fs') (path_parts (svc_ServerCertPath s)) = Some (PEM ''CERTIFICATE'' (CertDER cert)) \<and>
       map_of (fs_files fs') (path_parts (svc_ServerKeyPath s)) = Some (PEM ''PRIVATE KEY'' (PKCS8DER (RSAKey key)))"
    if "\<not> (fileExists env (svc_ServerCertPath s) fs \<and> fileExists env (svc_ServerKeyPath s) fs)"
    using gen [OF that] store_pair_frame(2) [OF _ refl apart_neq [OF D(3)]] by fastforce
  show keep: "os_ReadFile env' q fs' = os_ReadFile env' q fs" if "q \<in> {svc_CaCertPath s, svc_CaKeyPath s}" for q env'
  proof (cases "fileExists env (svc_ServerCertPath s) fs \<and> fileExists env (svc_ServerKeyPath s) fs")
    case True
    with same show ?thesis by simp
  next
    case False
    then obtain pair where st: "store_pair env ''server'' (svc_ServerCertPath s) (svc_ServerKeyPath s) pair fs = (None, fs')"
      using gen by blast
    have "plain (last (split_on (CHR ''/'') (svc_ServerCertPath s)))" "plain (last (split_on (CHR ''/'') (svc_ServerKeyPath s)))"
      by (rule D(1), simp add: config_files_def)+
    from store_pair_other(1) [OF st _ _ this] show ?thesis using that D(4) by (blast intro: apart_sym)
  qed
  show "loadCA env (svc_CaCertPath s) (svc_CaKeyPath s) fs' = loadCA env (svc_CaCertPath s) (svc_CaKeyPath s) fs"
    by (intro loadCA_cong keep) simp_all
qed

lemma GenerateServerCert_ok:
  assumes "GenerateServerCert g ca caKey domains ips = Inr (c, k)"
  shows "x_PublicKey c = Some k \<and> x_DNSNames c = domains \<and> x_IPAddresses c = ips \<and>
    (\<forall>now. proper_ca now ca \<and> x_NotBefore c \<le> now \<and> now \<le> x_NotAfter c \<longrightarrow> verifies now ExtKeyUsageServerAuth ca c)"
proof -
  from issue_cert_ok(2) [OF assms [unfolded GenerateServerCert_def]] obtain sn where
    "c = (server_template g domains ips sn)\<lparr>x_Issuer := x_Subject ca, x_PublicKey := Some k, x_Signer := Some caKey\<rparr>"
    "x_PublicKey ca \<noteq> None \<longrightarrow> x_PublicKey ca = Some caKey"
    by auto
  then show ?thesis by (auto simp: server_template_def proper_ca_def verifies_def)
qed

section \<open>Properties\<close>

definition example_service :: CertService where
  "example_service =
     \<lparr>svc_CaCertPath = ''./certs/ca/ca-cert.pem'', svc_CaKeyPath = ''./certs/ca/ca-key.pem'',
      svc_ServerCertPath = ''./certs/server/server-cert.pem'', svc_ServerKeyPath = ''./certs/server/server-key.pem'',
      svc_AgentCertDir = ''./certs/agents'', svc_DomainNames = [''localhost''], svc_IPAddresses = [''127.0.0.1'']\<rparr>"

definition gen_example :: "nat \<Rightarrow> gen_env" where
  "gen_example k = \<lparr>ge_key = Some k, ge_serial = Some k, ge_notBefore = 0, ge_notAfter = 0, ge_create = True\<rparr>"

abbreviation empty_fs :: file_system where
  "empty_fs \<equiv> \<lparr>fs_files = [], fs_dirs = []\<rparr>"

definition example_fs :: file_system where
  "example_fs = snd (ensureCertificates os_fine (gen_example 1) (gen_example 2) example_service empty_fs)"

lemma example_config: "config_ok example_service"
  by code_simp

text \<open>
  C27 (safety): whatever the configured directory, the files of an agent whose identifier passed validation
  lie in the directory of that name directly below it, and two agents never share a file: no identifier
  that is accepted can name a file outside the certificate directory.
\<close>

theorem agent_files_confined:
  assumes "ValidateAgentID a = None" "ValidateAgentID b = None"
    and "path_parts (svc_AgentCertDir s) = (r, cs)"
  shows "cert_loc s a = (r, cs @ [a, a @ ''-cert.pem'']) \<and> key_loc s a = (r, cs @ [a, a @ ''-key.pem'']) \<and>
    cert_loc s a \<noteq> key_loc s a \<and>
    (a \<noteq> b \<longrightarrow> {cert_loc s a, key_loc s a} \<inter> {cert_loc s b, key_loc s b} = {} \<and>
       \<not> loc_under (path_parts (GetAgentCertDir s a)) (path_parts (GetAgentCertDir s b)))"
  using agent_locations [OF valid_plain [OF assms(1)] assms(3)] agent_locations [OF valid_plain [OF assms(2)] assms(3)]
  by (auto simp: loc_under_def)

theorem agent_files_confined_witness:
  "ValidateAgentID ''agent-1'' = None \<and> ValidateAgentID ''..'' \<noteq> None \<and>
   cert_loc example_service ''agent-1'' = (False, [''certs'', ''agents'', ''agent-1'', ''agent-1-cert.pem''])"
proof -
  have "ValidateAgentID ''agent-1'' = None" "ValidateAgentID ''b'' = None" "ValidateAgentID ''..'' \<noteq> None"
    "path_parts (svc_AgentCertDir example_service) = (False, [''certs'', ''agents''])"
    by code_simp+
  with agent_files_confined [OF this(1,2,4)] show ?thesis by simp
qed

text \<open>
  C26 (functional): a certificate that \<^verbatim>\<open>GenerateAgentCert\<close> returns names the agent, belongs to the returned key,
  is signed by the authority on disk and, as long as both are valid and that one may sign, verifies against it
  for client authentication only; if the agent's files can be read, they yield exactly this pair.  Successful or not, no file of anyone else changes.
\<close>

theorem GenerateAgentCert_spec:
  assumes "ValidateAgentID a = None" "GenerateAgentCert env g s a fs = (res, fs')"
  shows "(\<forall>l. l \<noteq> cert_loc s a \<and> l \<noteq> key_loc s a \<longrightarrow> map_of (fs_files fs') l = map_of (fs_files fs) l) \<and>
    (\<forall>c k. res = Inr (c, k) \<longrightarrow>
       n_CommonName (x_Subject c) = a \<and> x_PublicKey c = Some k \<and>
       (\<exists>ca caKey. loadCA env (svc_CaCertPath s) (svc_CaKeyPath s) fs = Inr (ca, caKey) \<and>
          (\<forall>now. proper_ca now ca \<and> x_NotBefore c \<le> now \<and> now \<le> x_NotAfter c \<longrightarrow>
             verifies now ExtKeyUsageClientAuth ca c \<and> \<not> verifies now ExtKeyUsageServerAuth ca c)) \<and>
       (\<not> os_read_err env (GetAgentCertPath s a) \<and> \<not> os_read_err env (GetAgentKeyPath s a) \<longrightarrow>
          GetAgentCert env s a fs' = Inr (PEM ''CERTIFICATE'' (CertDER c), PEM ''PRIVATE KEY'' (PKCS8DER (RSAKey k)))))"
proof (cases "issue_agent_cert env g s a fs")
  case (Inl e)
  with assms(2) show ?thesis by (auto simp: GenerateAgentCert_def)
next
  case (Inr pair)
  then have st: "store_agent_cert env s a pair fs = (res, fs')" using assms(2) by (simp add: GenerateAgentCert_def)
  note F = store_agent_cert_frame [OF valid_plain [OF assms(1)] st]
  show ?thesis
  proof (intro conjI allI impI)
    fix l assume "l \<noteq> cert_loc s a \<and> l \<noteq> key_loc s a"
    then show "map_of (fs_files fs') l = map_of (fs_files fs) l" using F(1) by blast
  next
    fix c k assume "res = Inr (c, k)"
    note S = F(2) [OF this]
    from S Inr have "issue_agent_cert env g s a fs = Inr (c, k)" by simp
    from issue_agent_cert_ok [OF this]
    show "n_CommonName (x_Subject c) = a" "x_PublicKey c = Some k"
      "\<exists>ca caKey. loadCA env (svc_CaCertPath s) (svc_CaKeyPath s) fs = Inr (ca, caKey) \<and>
         (\<forall>now. proper_ca now ca \<and> x_NotBefore c \<le> now \<and> now \<le> x_NotAfter c \<longrightarrow>
            verifies now ExtKeyUsageClientAuth ca c \<and> \<not> verifies now ExtKeyUsageServerAuth ca c)"
      by blast+
    assume "\<not> os_read_err env (GetAgentCertPath s a) \<and> \<not> os_read_err env (GetAgentKeyPath s a)"
    with S show "GetAgentCert env s a fs' = Inr (PEM ''CERTIFICATE'' (CertDER c), PEM ''PRIVATE KEY'' (PKCS8DER (RSAKey k)))"
      by (auto simp: GetAgentCert_def os_ReadFile_def)
  qed
qed

theorem GenerateAgentCert_spec_witness:
  "\<exists>c fs'. GenerateAgentCert os_fine (gen_example 3) example_service ''agent-1'' example_fs = (Inr (c, 3), fs') \<and>
     n_CommonName (x_Subject c) = ''agent-1'' \<and>
     GetAgentCert os_fine example_service ''agent-1'' fs' =
       Inr (PEM ''CERTIFICATE'' (CertDER c), PEM ''PRIVATE KEY'' (PKCS8DER (RSAKey 3)))"
proof -
  have v: "ValidateAgentID ''agent-1'' = None" by code_simp
  have "case fst (GenerateAgentCert os_fine (gen_example 3) example_service ''agent-1'' example_fs) of
      Inr (c, k) \<Rightarrow> k = 3 | Inl e \<Rightarrow> False"
    by code_simp
  then obtain c fs' where run: "GenerateAgentCert os_fine (gen_example 3) example_service ''agent-1'' example_fs = (Inr (c, 3), fs')"
    by (cases "GenerateAgentCert os_fine (gen_example 3) example_service ''agent-1'' example_fs") (auto split: sum.splits)
  from GenerateAgentCert_spec [OF v run] run show ?thesis by simp
qed

text \<open>
  After a successful \<^verbatim>\<open>ensureCertificates\<close> the authority can be loaded.  It is the one that was
  on disk if both of its files existed, and otherwise a new one that may sign for ten years.  If a
  server file was missing, the server certificate on disk belongs to the key on disk, carries the
  configured names and verifies against this authority for server authentication; otherwise the server's
  files are untouched.
\<close>

lemma ensureCertificates_chain:
  assumes "config_ok s" "\<not> os_read_err env (svc_CaCertPath s)" "\<not> os_read_err env (svc_CaKeyPath s)"
    and "ensureCertificates env gCA gSrv s fs = (None, fs')"
  shows "\<exists>ca caKey. loadCA env (svc_CaCertPath s) (svc_CaKeyPath s) fs' = Inr (ca, caKey) \<and>
    (if fileExists env (svc_CaCertPath s) fs \<and> fileExists env (svc_CaKeyPath s) fs
     then loadCA env (svc_CaCertPath s) (svc_CaKeyPath s) fs = Inr (ca, caKey)
     else ge_key gCA = Some caKey \<and> os_ReadFile env (svc_CaCertPath s) fs' = Some (PEM ''CERTIFICATE'' (CertDER ca)) \<and>
       (\<forall>now. ge_notBefore gCA \<le> now \<and> now \<le> ge_notAfter gCA + 10 * 365 * 24 * hour \<longrightarrow> proper_ca now ca)) \<and>
    (if fileExists env (svc_ServerCertPath s) fs \<and> fileExists env (svc_ServerKeyPath s) fs
     then os_ReadFile env (svc_ServerCertPath s) fs' = os_ReadFile env (svc_ServerCertPath s) fs \<and>
       os_ReadFile env (svc_ServerKeyPath s) fs' = os_ReadFile env (svc_ServerKeyPath s) fs
     else \<exists>c k. map_of (fs_files fs') (path_parts (svc_ServerCertPath s)) = Some (PEM ''CERTIFICATE'' (CertDER c)) \<and>
       map_of (fs_files fs') (path_parts (svc_ServerKeyPath s)) = Some (PEM ''PRIVATE KEY'' (PKCS8DER (RSAKey k))) \<and>
       x_PublicKey c = Some k \<and> x_DNSNames c = svc_DomainNames s \<and> x_IPAddresses c = svc_IPAddresses s \<and>
       (\<forall>now. proper_ca now ca \<and> x_NotBefore c \<le> now \<and> now \<le> x_NotAfter c \<longrightarrow> verifies now ExtKeyUsageServerAuth ca c))"
proof -
  obtain ca caKey fs1 where e1: "ensure_ca env gCA s fs = (Inr (ca, caKey), fs1)"
      and e2: "ensure_server env gSrv s (ca, caKey) fs1 = (None, fs')"
    using assms(4) by (auto simp: ensureCertificates_def split: prod.splits sum.splits)
  note A = ensure_ca_ok [OF assms(1-3) e1] and S = ensure_server_ok [OF assms(1) e2]
  have kept: "os_ReadFile env q fs1 = os_ReadFile env q fs" "fileExists env q fs1 = fileExists env q fs"
    if "q = svc_ServerCertPath s \<or> q = svc_ServerKeyPath s" for q
    using A(4) that by blast+
  have issued: "\<exists>c k. map_of (fs_files fs') (path_parts (svc_ServerCertPath s)) = Some (PEM ''CERTIFICATE'' (CertDER c)) \<and>
       map_of (fs_files fs') (path_parts (svc_ServerKeyPath s)) = Some (PEM ''PRIVATE KEY'' (PKCS8DER (RSAKey k))) \<and>
       x_PublicKey c = Some k \<and> x_DNSNames c = svc_DomainNames s \<and> x_IPAddresses c = svc_IPAddresses s \<and>
       (\<forall>now. proper_ca now ca \<and> x_NotBefore c \<le> now \<and> now \<le> x_NotAfter c \<longrightarrow> verifies now ExtKeyUsageServerAuth ca c)"
    if missing: "\<not> (fileExists env (svc_ServerCertPath s) fs \<and> fileExists env (svc_ServerKeyPath s) fs)"
  proof -
    have "\<not> (fileExists env (svc_ServerCertPath s) fs1 \<and> fileExists env (svc_ServerKeyPath s) fs1)"
      using missing kept(2) by blast
    from S(2) [OF this] show ?thesis using GenerateServerCert_ok by fastforce
  qed
  have load: "loadCA env (svc_CaCertPath s) (svc_CaKeyPath s) fs' = Inr (ca, caKey)" using A(1) S(4) by simp
  have "if fileExists env (svc_CaCertPath s) fs \<and> fileExists env (svc_CaKeyPath s) fs
     then loadCA env (svc_CaCertPath s) (svc_CaKeyPath s) fs = Inr (ca, caKey)
     else ge_key gCA = Some caKey \<and> os_ReadFile env (svc_CaCertPath s) fs' = Some (PEM ''CERTIFICATE'' (CertDER ca)) \<and>
       (\<forall>now. ge_notBefore gCA \<le> now \<and> now \<le> ge_notAfter gCA + 10 * 365 * 24 * hour \<longrightarrow> proper_ca now ca)"
  proof (cases "fileExists env (svc_CaCertPath s) fs \<and> fileExists env (svc_CaKeyPath s) fs")
    case True
    with A(1,2) show ?thesis by simp
  next
    case False
    with GenerateCA_ok [OF A(3) [OF False]] A(5) [OF False] S(3) [of "svc_CaCertPath s" env] show ?thesis by auto
  qed
  moreover have "os_ReadFile env q fs' = os_ReadFile env q fs"
    if "fileExists env (svc_ServerCertPath s) fs \<and> fileExists env (svc_ServerKeyPath s) fs"
      "q = svc_ServerCertPath s \<or> q = svc_ServerKeyPath s" for q
    using S(1) kept that by metis
  ultimately show ?thesis
    using load issued by (intro exI [of _ ca] exI [of _ caKey] conjI) auto
qed

theorem ensureCertificates_chain_witness:
  "ensureCertificates os_fine (gen_example 1) (gen_example 2) example_service empty_fs = (None, example_fs) \<and>
   (\<exists>ca. loadCA os_fine (svc_CaCertPath example_service) (svc_CaKeyPath example_service) example_fs = Inr (ca, 1) \<and> proper_ca 0 ca)"
proof -
  have "fst (ensureCertificates os_fine (gen_example 1) (gen_example 2) example_service empty_fs) = None" by code_simp
  then have run: "ensureCertificates os_fine (gen_example 1) (gen_example 2) example_service empty_fs = (None, example_fs)"
    by (simp add: example_fs_def prod_eq_iff)
  have new: "\<not> (fileExists os_fine (svc_CaCertPath example_service) empty_fs \<and> fileExists os_fine (svc_CaKeyPath example_service) empty_fs)"
    by code_simp
  have "0 \<le> 10 * 365 * 24 * hour" by (simp add: hour_def minute_def second_def)
  with ensureCertificates_chain [OF example_config _ _ run] run new show ?thesis
    by (auto simp: gen_example_def split: if_splits)
qed

text \<open>
  C30 (error): when a file of the authority is lost, a new authority is generated but an existing server
  certificate is kept.  It is not signed by the new authority, so no agent that trusts the new authority
  can verify the server, although \<^verbatim>\<open>ensureCertificates\<close> reports success.
\<close>

theorem ca_regeneration_breaks_server:
  assumes "config_ok s" "\<not> os_read_err env (svc_CaCertPath s)" "\<not> os_read_err env (svc_CaKeyPath s)"
    and "ensureCertificates env gCA gSrv s fs = (None, fs')"
    and "\<not> (fileExists env (svc_CaCertPath s) fs \<and> fileExists env (svc_CaKeyPath s) fs)"
    and "fileExists env (svc_ServerCertPath s) fs" "fileExists env (svc_ServerKeyPath s) fs"
    and "os_ReadFile env (svc_ServerCertPath s) fs = Some (PEM t (CertDER c))" "x_Signer c \<noteq> ge_key gCA"
  shows "\<exists>ca caKey. loadCA env (svc_CaCertPath s) (svc_CaKeyPath s) fs' = Inr (ca, caKey) \<and>
    os_ReadFile env (svc_ServerCertPath s) fs' = Some (PEM t (CertDER c)) \<and>
    (\<forall>now usage. \<not> verifies now usage ca c)"
proof -
  obtain ca caKey fs1 where e1: "ensure_ca env gCA s fs = (Inr (ca, caKey), fs1)"
      and e2: "ensure_server env gSrv s (ca, caKey) fs1 = (None, fs')"
    using assms(4) by (auto simp: ensureCertificates_def split: prod.splits sum.splits)
  note A = ensure_ca_ok [OF assms(1-3) e1] and S = ensure_server_ok [OF assms(1) e2]
  have "fs' = fs1" using A(4) S(1) assms(6,7) by blast
  moreover have "x_PublicKey ca = ge_key gCA"
    using GenerateCA_ok(1,2) [OF A(3) [OF assms(5)]] by simp
  ultimately show ?thesis
    using A(1,4) assms(8,9) by (intro exI [of _ ca] exI [of _ caKey]) (auto simp: verifies_def)
qed

theorem ca_regeneration_breaks_server_witness:
  "let fs = example_fs\<lparr>fs_files := AList.delete (path_parts ''./certs/ca/ca-key.pem'') (fs_files example_fs)\<rparr>
   in \<exists>ca caKey c. loadCA os_fine ''./certs/ca/ca-cert.pem'' ''./certs/ca/ca-key.pem''
        (snd (ensureCertificates os_fine (gen_example 7) (gen_example 8) example_service fs)) = Inr (ca, caKey) \<and>
      os_ReadFile os_fine ''./certs/server/server-cert.pem''
        (snd (ensureCertificates os_fine (gen_example 7) (gen_example 8) example_service fs)) = Some (PEM ''CERTIFICATE'' (CertDER c)) \<and>
      (\<forall>now usage. \<not> verifies now usage ca c)"
proof -
  define fs where "fs = example_fs\<lparr>fs_files := AList.delete (path_parts ''./certs/ca/ca-key.pem'') (fs_files example_fs)\<rparr>"
  have "fst (ensureCertificates os_fine (gen_example 7) (gen_example 8) example_service fs) = None"
    unfolding fs_def by code_simp
  then obtain fs' where run: "ensureCertificates os_fine (gen_example 7) (gen_example 8) example_service fs = (None, fs')"
    by (metis prod.collapse)
  have paths: "svc_CaCertPath example_service = ''./certs/ca/ca-cert.pem''" "svc_CaKeyPath example_service = ''./certs/ca/ca-key.pem''"
    "svc_ServerCertPath example_service = ''./certs/server/server-cert.pem''"
    by (simp_all add: example_service_def)
  have miss: "\<not> (fileExists os_fine (svc_CaCertPath example_service) fs \<and> fileExists os_fine (svc_CaKeyPath example_service) fs)"
    and ex: "fileExists os_fine (svc_ServerCertPath example_service) fs" "fileExists os_fine (svc_ServerKeyPath example_service) fs"
    unfolding fs_def by code_simp+
  have "case os_ReadFile os_fine (svc_ServerCertPath example_service) fs of
      Some (PEM t (CertDER c)) \<Rightarrow> t = ''CERTIFICATE'' \<and> x_Signer c = Some 1 | _ \<Rightarrow> False"
    unfolding fs_def by code_simp
  then obtain c where c: "os_ReadFile os_fine (svc_ServerCertPath example_service) fs = Some (PEM ''CERTIFICATE'' (CertDER c))"
      "x_Signer c \<noteq> ge_key (gen_example 7)"
    by (auto simp: gen_example_def split: option.splits file_data.splits der.splits)
  from ca_regeneration_breaks_server [OF example_config _ _ run miss ex c]
  show ?thesis unfolding Let_def fs_def [symmetric] run snd_conv paths by auto
qed

text \<open>
  C28 (safety): deleting an agent's certificate removes its directory with everything in it, and nothing else.
  When it succeeds, no file and no directory is left at or below the directory and the agent has no
  certificate; whether it succeeds or stops half way, files and directories outside, and with them every
  other agent's certificate, are unchanged, and no file is new or has other contents.
\<close>

theorem DeleteAgentCert_spec:
  assumes "ValidateAgentID a = None" "gomap_ok (fs_files fs)" "DeleteAgentCert env s a fs = (e, fs')"
  shows "(\<forall>l. \<not> loc_under (path_parts (GetAgentCertDir s a)) l \<longrightarrow>
      map_of (fs_files fs') l = map_of (fs_files fs) l \<and> is_dir fs' l = is_dir fs l) \<and>
    (\<forall>l d. map_of (fs_files fs') l = Some d \<longrightarrow> map_of (fs_files fs) l = Some d) \<and>
    (e = None \<longrightarrow> (\<forall>l. loc_under (path_parts (GetAgentCertDir s a)) l \<longrightarrow> map_of (fs_files fs') l = None \<and> \<not> is_dir fs' l)) \<and>
    (e = None \<longrightarrow> \<not> AgentCertExists env s a fs') \<and>
    (\<forall>b. ValidateAgentID b = None \<and> b \<noteq> a \<longrightarrow>
       AgentCertExists env s b fs' = AgentCertExists env s b fs \<and> GetAgentCert env s b fs' = GetAgentCert env s b fs)"
proof -
  obtain r cs where D: "path_parts (svc_AgentCertDir s) = (r, cs)" by (cases "path_parts (svc_AgentCertDir s)")
  note L = agent_locations [OF valid_plain [OF assms(1)] D]
  let ?dir = "GetAgentCertDir s a"
  let ?d = "path_parts ?dir"
  obtain ok where run: "e \<noteq> None \<and> fs' = fs \<or> os_RemoveAll env ?dir fs = (ok, fs') \<and> (e = None \<longrightarrow> ok)"
    using assms(3) by (auto simp: DeleteAgentCert_def Let_def split: if_splits prod.splits bool.splits)
  note F = RemoveAll_frame [OF assms(2)]
  have same: "map_of (fs_files fs') l = map_of (fs_files fs) l \<and> is_dir fs' l = is_dir fs l" if "\<not> loc_under ?d l" for l
    using run F(1) that by blast
  have old: "map_of (fs_files fs) l = Some d" if "map_of (fs_files fs') l = Some d" for l d
    using run F(3) that by blast
  have gone: "map_of (fs_files fs') l = None \<and> \<not> is_dir fs' l" if "e = None" "loc_under ?d l" for l
  proof -
    have "a \<in> set (snd l)" "a \<noteq> ''..''"
      using that(2) L(1) valid_plain [OF assms(1)] by (auto simp: loc_under_def plain_def dest: set_mono_prefix)
    moreover have "?dir \<noteq> ''''" using L(1) by auto
    then have "map_of (fs_files fs') l = None \<and> l \<notin> set (fs_dirs fs')" using run F(2) that by blast
    ultimately show ?thesis unfolding is_dir_def by blast
  qed
  have "\<not> AgentCertExists env s a fs'" if "e = None"
    using gone [OF that, of "cert_loc s a"] L by (auto simp: AgentCertExists_def fileExists_def os_Stat_def loc_under_def)
  moreover have "AgentCertExists env s b fs' = AgentCertExists env s b fs \<and> GetAgentCert env s b fs' = GetAgentCert env s b fs"
    if b: "ValidateAgentID b = None \<and> b \<noteq> a" for b
  proof -
    note M = agent_locations [OF valid_plain [OF b [THEN conjunct1]] D]
    have "\<not> loc_under ?d (cert_loc s b)" "\<not> loc_under ?d (key_loc s b)" using L M b by (auto simp: loc_under_def)
    from read_cong [OF same [OF this(1)]] read_cong [OF same [OF this(2)]]
    show ?thesis by (simp add: AgentCertExists_def GetAgentCert_def split: option.split)
  qed
  ultimately show ?thesis using same old gone by blast
qed

theorem DeleteAgentCert_spec_witness:
  "let fs = snd (GenerateAgentCert os_fine (gen_example 4) example_service ''b''
        (snd (GenerateAgentCert os_fine (gen_example 3) example_service ''a'' example_fs)))
   in AgentCertExists os_fine example_service ''a'' fs \<and>
      (\<exists>fs'. DeleteAgentCert os_fine example_service ''a'' fs = (None, fs') \<and>
         \<not> AgentCertExists os_fine example_service ''a'' fs' \<and> AgentCertExists os_fine example_service ''b'' fs' \<and>
         \<not> is_dir fs' (path_parts (GetAgentCertDir example_service ''a'')))"
proof -
  let ?fs = "snd (GenerateAgentCert os_fine (gen_example 4) example_service ''b''
        (snd (GenerateAgentCert os_fine (gen_example 3) example_service ''a'' example_fs)))"
  have v: "ValidateAgentID ''a'' = None" "ValidateAgentID ''b'' = None" by code_simp+
  have ok: "gomap_ok (fs_files ?fs)" by code_simp
  have both: "AgentCertExists os_fine example_service ''a'' ?fs" "AgentCertExists os_fine example_service ''b'' ?fs"
    by code_simp+
  have "fst (DeleteAgentCert os_fine example_service ''a'' ?fs) = None" by code_simp
  then obtain fs' where run: "DeleteAgentCert os_fine example_service ''a'' ?fs = (None, fs')" by (metis prod.collapse)
  from DeleteAgentCert_spec [OF v(1) ok run] v(2) both run show ?thesis by (auto simp: Let_def loc_under_def)
qed

end
