(* ===== verification/Provision_Handler.thy ===== *)
theory Provision_Handler
  imports Key_Store Cert_Service
begin

text \<open>
  \<^verbatim>\<open>internal/api/http/handler/provision.go\<close>: the HTTP handlers that hand out provision keys and exchange
  them for certificates.  A handler returns the status code and the body that it passes to
  \<^verbatim>\<open>ctx.JSON\<close>; an error body is its text.  What \<^verbatim>\<open>ShouldBindJSON\<close> makes of the request is an argument.

  A provisioning request takes the lock of the key store twice and the lock of the certificate service
  in between, so it consists of three atomic parts; the last section interleaves the parts of
  any number of requests with the rest of the key store's life.
\<close>

section \<open>Operations\<close>

type_synonym 'a api_response = "int \<times> (string + 'a)"

record CreateProvisionKeyResponse =
  cpk_Key :: string
  cpk_AgentID :: string
  cpk_ExpiresAt :: gotime

record ProvisionKeyInfo =
  pki_AgentID :: string
  pki_CreatedAt :: gotime
  pki_ExpiresAt :: gotime

record ProvisionResponse =
  pr_AgentID :: string
  pr_CertPEM :: file_data
  pr_KeyPEM :: file_data
  pr_CACertPEM :: file_data

definition CreateProvisionKey :: "string option \<Rightarrow> gotime \<Rightarrow> string + string \<Rightarrow> KeyStore \<Rightarrow>
    CreateProvisionKeyResponse api_response \<times> KeyStore" where
  "CreateProvisionKey rnd now req ks =
     (case req of
        Inl err \<Rightarrow> ((400, Inl err), ks)
      | Inr agentID \<Rightarrow>
          (case ValidateAgentID agentID of
             Some err \<Rightarrow> ((400, Inl err), ks)
           | None \<Rightarrow>
               (case Create rnd now agentID ks of
                  (Inl _, ks') \<Rightarrow> ((500, Inl ''Failed to create provision key''), ks')
                | (Inr pk, ks') \<Rightarrow>
                    ((201, Inr \<lparr>cpk_Key = pk_Key pk, cpk_AgentID = pk_AgentID pk, cpk_ExpiresAt = pk_ExpiresAt pk\<rparr>), ks'))))"

definition ListProvisionKeys :: "(string \<Rightarrow> gotime) \<Rightarrow> KeyStore \<Rightarrow> (ProvisionKeyInfo list \<times> nat) api_response" where
  "ListProvisionKeys now ks =
     (let keyInfos = map (\<lambda>k. \<lparr>pki_AgentID = pk_AgentID k, pki_CreatedAt = pk_CreatedAt k, pki_ExpiresAt = pk_ExpiresAt k\<rparr>)
            (List_keys now ks)
      in (200, Inr (keyInfos, length keyInfos)))"

definition RevokeProvisionKey :: "string \<Rightarrow> KeyStore \<Rightarrow> string api_response \<times> KeyStore" where
  "RevokeProvisionKey agentID ks =
     (case Revoke agentID ks of
        (False, ks') \<Rightarrow> ((404, Inl ''No provision keys found for this agent''), ks')
      | (True, ks') \<Rightarrow> ((200, Inr ''Provision keys revoked''), ks'))"

fun ks_error_text :: "ks_error \<Rightarrow> string" where
  "ks_error_text ErrKeyNotFound = ''provision key not found''"
| "ks_error_text ErrKeyExpired = ''provision key has expired''"
| "ks_error_text ErrKeyAlreadyUsed = ''provision key has already been used''"
| "ks_error_text ErrRandom = ''failed to generate random key''"

text \<open>
  The three parts of \<^verbatim>\<open>Provision\<close>: up to the key, the certificate, and the answer.  Time passes between
  them, so the file system may behave differently when the authority's certificate is read again.
\<close>

definition prov_validate :: "gotime \<Rightarrow> CertService option \<Rightarrow> string + string \<Rightarrow> KeyStore \<Rightarrow>
    ProvisionResponse api_response + CertService \<times> string \<times> string" where
  "prov_validate now svc req ks =
     (case svc of
        None \<Rightarrow> Inl (400, Inl ''TLS is not enabled on this server'')
      | Some s \<Rightarrow>
          (case req of
             Inl err \<Rightarrow> Inl (400, Inl err)
           | Inr key \<Rightarrow>
               (case Validate now key ks of
                  Inl err \<Rightarrow> Inl (401, Inl (ks_error_text err))
                | Inr pk \<Rightarrow> Inr (s, key, pk_AgentID pk))))"

definition prov_generate :: "os_env \<Rightarrow> gen_env \<Rightarrow> CertService \<Rightarrow> string \<Rightarrow> file_system \<Rightarrow>
    (ProvisionResponse api_response + Certificate \<times> rsa_key) \<times> file_system" where
  "prov_generate env g s agentID fs =
     (case GenerateAgentCertIfNotExists env g s agentID fs of
        (Inl err, fs') \<Rightarrow> (Inl (500, Inl ''Failed to generate agent certificate''), fs')
      | (Inr None, fs') \<Rightarrow> (Inl (409, Inl ''Certificate already exists for this agent''), fs')
      | (Inr (Some pair), fs') \<Rightarrow> (Inr pair, fs'))"

definition prov_finish :: "os_env \<Rightarrow> CertService \<Rightarrow> string \<Rightarrow> string \<Rightarrow> Certificate \<times> rsa_key \<Rightarrow> file_system \<Rightarrow> KeyStore \<Rightarrow>
    ProvisionResponse api_response \<times> KeyStore" where
  "prov_finish env s key agentID pair fs ks =
     (case CertToPEM (fst pair) of
        Inl err \<Rightarrow> ((500, Inl ''Failed to encode certificate''), ks)
      | Inr certPEM \<Rightarrow>
     (case KeyToPEM (snd pair) of
        Inl err \<Rightarrow> ((500, Inl ''Failed to encode key''), ks)
      | Inr keyPEM \<Rightarrow>
     (case GetCACert env s fs of
        Inl err \<Rightarrow> ((500, Inl ''Failed to read CA certificate''), ks)
      | Inr caCertBytes \<Rightarrow>
          ((200, Inr \<lparr>pr_AgentID = agentID, pr_CertPEM = certPEM, pr_KeyPEM = keyPEM, pr_CACertPEM = caCertBytes\<rparr>),
           MarkUsed key ks))))"

definition Provision :: "os_env \<Rightarrow> os_env \<Rightarrow> gen_env \<Rightarrow> gotime \<Rightarrow> CertService option \<Rightarrow> string + string \<Rightarrow> KeyStore \<Rightarrow> file_system \<Rightarrow>
    ProvisionResponse api_response \<times> KeyStore \<times> file_system" where
  "Provision env env2 g now svc req ks fs =
     (case prov_validate now svc req ks of
        Inl resp \<Rightarrow> (resp, ks, fs)
      | Inr (s, key, agentID) \<Rightarrow>
          (case prov_generate env g s agentID fs of
             (Inl resp, fs') \<Rightarrow> (resp, ks, fs')
           | (Inr pair, fs') \<Rightarrow>
               let (resp, ks') = prov_finish env2 s key agentID pair fs' ks in (resp, ks', fs')))"

section \<open>Interleavings\<close>

text \<open>
  A request in flight has a valid key, or a certificate as well.  The log holds the key, the agent and
  the certificate of every successful answer.  The file system may behave differently at every step, in one
  of the ways of \<open>envs\<close> when a certificate is looked for and made.
\<close>

datatype prov_thread =
    Validated string string
  | Generated string string "Certificate \<times> rsa_key"

record prov_state =
  ps_ks :: KeyStore
  ps_fs :: file_system
  ps_threads :: "prov_thread list"
  ps_log :: "(string \<times> string \<times> (Certificate \<times> rsa_key)) list"

fun thread_agent :: "prov_thread \<Rightarrow> string" where
  "thread_agent (Validated k a) = a"
| "thread_agent (Generated k a p) = a"

fun is_generated :: "prov_thread \<Rightarrow> bool" where
  "is_generated (Validated k a) = False"
| "is_generated (Generated k a p) = True"

inductive prov_step :: "os_env set \<Rightarrow> CertService \<Rightarrow> prov_state \<Rightarrow> prov_state \<Rightarrow> bool" for envs s where
  create: "CreateProvisionKey rnd now req (ps_ks st) = (resp, ks') \<Longrightarrow>
    prov_step envs s st (st\<lparr>ps_ks := ks'\<rparr>)"
| revoke: "RevokeProvisionKey a (ps_ks st) = (resp, ks') \<Longrightarrow>
    prov_step envs s st (st\<lparr>ps_ks := ks'\<rparr>)"
| tick: "prov_step envs s st (st\<lparr>ps_ks := cleanup now (ps_ks st)\<rparr>)"
| validate: "prov_validate now (Some s) req (ps_ks st) = Inr (s, k, a) \<Longrightarrow>
    prov_step envs s st (st\<lparr>ps_threads := Validated k a # ps_threads st\<rparr>)"
| generate: "env \<in> envs \<Longrightarrow> ps_threads st = ts @ Validated k a # us \<Longrightarrow> prov_generate env g s a (ps_fs st) = (Inr pair, fs') \<Longrightarrow>
    prov_step envs s st (st\<lparr>ps_fs := fs', ps_threads := ts @ Generated k a pair # us\<rparr>)"
| refuse: "env \<in> envs \<Longrightarrow> ps_threads st = ts @ Validated k a # us \<Longrightarrow> prov_generate env g s a (ps_fs st) = (Inl resp, fs') \<Longrightarrow>
    prov_step envs s st (st\<lparr>ps_fs := fs', ps_threads := ts @ us\<rparr>)"
| finish: "ps_threads st = ts @ Generated k a pair # us \<Longrightarrow>
    prov_finish env2 s k a pair (ps_fs st) (ps_ks st) = ((200, Inr body), ks') \<Longrightarrow>
    prov_step envs s st (st\<lparr>ps_ks := ks', ps_threads := ts @ us, ps_log := (k, a, pair) # ps_log st\<rparr>)"
| abandon: "ps_threads st = ts @ Generated k a pair # us \<Longrightarrow>
    prov_finish env2 s k a pair (ps_fs st) (ps_ks st) = ((500, resp), ks') \<Longrightarrow>
    prov_step envs s st (st\<lparr>ps_ks := ks', ps_threads := ts @ us\<rparr>)"

definition prov_init :: "KeyStore \<Rightarrow> file_system \<Rightarrow> prov_state" where
  "prov_init ks fs = \<lparr>ps_ks = ks, ps_fs = fs, ps_threads = [], ps_log = []\<rparr>"

section \<open>Certificates stay\<close>

lemma GenerateAgentCert_frame:
  assumes "plain b" "GenerateAgentCert env g s b fs = (res, fs')"
  shows "l \<noteq> cert_loc s b \<Longrightarrow> l \<noteq> key_loc s b \<Longrightarrow> map_of (fs_files fs') l = map_of (fs_files fs) l"
    "is_dir fs l \<Longrightarrow> is_dir fs' l"
    "res = Inr (c, k) \<Longrightarrow> issue_agent_cert env g s b fs = Inr (c, k) \<and>
       map_of (fs_files fs') (cert_loc s b) = Some (PEM ''CERTIFICATE'' (CertDER c)) \<and>
       map_of (fs_files fs') (key_loc s b) = Some (PEM ''PRIVATE KEY'' (PKCS8DER (RSAKey k)))"
proof -
  show "map_of (fs_files fs') l = map_of (fs_files fs) l" if "l \<noteq> cert_loc s b" "l \<noteq> key_loc s b"
    using assms store_agent_cert_frame(1) [OF assms(1) _ that] by (auto simp: GenerateAgentCert_def split: sum.splits)
  show "is_dir fs' l" if "is_dir fs l"
    using assms(2) that store_agent_cert_frame(3) [OF assms(1) _ that] by (auto simp: GenerateAgentCert_def split: sum.splits)
  show "issue_agent_cert env g s b fs = Inr (c, k) \<and>
      map_of (fs_files fs') (cert_loc s b) = Some (PEM ''CERTIFICATE'' (CertDER c)) \<and>
      map_of (fs_files fs') (key_loc s b) = Some (PEM ''PRIVATE KEY'' (PKCS8DER (RSAKey k)))" if res: "res = Inr (c, k)"
  proof -
    obtain pair where p: "issue_agent_cert env g s b fs = Inr pair" "store_agent_cert env s b pair fs = (res, fs')"
      using assms(2) res by (cases "issue_agent_cert env g s b fs") (auto simp: GenerateAgentCert_def)
    from store_agent_cert_frame(2) [OF assms(1) p(2) res] p(1) show ?thesis by auto
  qed
qed

lemma agent_paths_not_empty:
  "plain a \<Longrightarrow> GetAgentCertPath s a \<noteq> []" "plain a \<Longrightarrow> GetAgentKeyPath s a \<noteq> []"
proof -
  obtain r cs where D: "path_parts (svc_AgentCertDir s) = (r, cs)" by (cases "path_parts (svc_AgentCertDir s)")
  assume "plain a"
  from agent_locations(2,3) [OF this D] show "GetAgentCertPath s a \<noteq> []" "GetAgentKeyPath s a \<noteq> []" by auto
qed

lemma AgentCertExists_stored:
  assumes "plain a" "\<And>p. \<not> os_stat_err env p" "map_of (fs_files fs) (cert_loc s a) \<noteq> None" "map_of (fs_files fs) (key_loc s a) \<noteq> None"
  shows "AgentCertExists env s a fs"
  using assms agent_paths_not_empty [OF assms(1), of s] by (simp add: AgentCertExists_def fileExists_def os_Stat_def)

lemma AgentCertExists_mono:
  assumes "plain a" "plain b" "a \<noteq> b" "AgentCertExists env s a fs" "GenerateAgentCert env g s b fs = (res, fs')"
  shows "AgentCertExists env s a fs'"
proof -
  obtain r cs where D: "path_parts (svc_AgentCertDir s) = (r, cs)" by (cases "path_parts (svc_AgentCertDir s)")
  note F = GenerateAgentCert_frame [OF assms(2,5)]
  have "cert_loc s a \<notin> {cert_loc s b, key_loc s b}" "key_loc s a \<notin> {cert_loc s b, key_loc s b}"
    using agent_locations [OF assms(1) D] agent_locations [OF assms(2) D] assms(3) by auto
  with F(1) have "map_of (fs_files fs') (cert_loc s a) = map_of (fs_files fs) (cert_loc s a)"
    "map_of (fs_files fs') (key_loc s a) = map_of (fs_files fs) (key_loc s a)" by blast+
  with F(2) [of "cert_loc s a"] F(2) [of "key_loc s a"] assms(4) show ?thesis
    unfolding AgentCertExists_def fileExists_def os_Stat_def by auto
qed

lemma prov_generate_keeps:
  assumes "plain a" "plain b" "AgentCertExists env s a fs" "prov_generate env g s b fs = (res, fs')"
  shows "AgentCertExists env s a fs'"
proof (cases "AgentCertExists env s b fs")
  case True
  with assms(3,4) show ?thesis by (simp add: prov_generate_def GenerateAgentCertIfNotExists_def)
next
  case False
  then obtain r where r: "GenerateAgentCert env g s b fs = (r, fs')"
    using assms(4) by (auto simp: prov_generate_def GenerateAgentCertIfNotExists_def split: prod.splits sum.splits)
  have "a \<noteq> b" using False assms(3) by auto
  from AgentCertExists_mono [OF assms(1,2) this assms(3) r] show ?thesis .
qed

lemma prov_generate_ok:
  assumes "prov_generate env g s a fs = (Inr pair, fs')"
  shows "\<not> AgentCertExists env s a fs" "GenerateAgentCert env g s a fs = (Inr pair, fs')"
  using assms
  by (auto simp: prov_generate_def GenerateAgentCertIfNotExists_def split: prod.splits sum.splits option.splits if_splits)

lemma prov_generate_exists:
  assumes "plain a" "\<And>p. \<not> os_stat_err env p" "prov_generate env g s a fs = (Inr pair, fs')"
  shows "AgentCertExists env s a fs'"
  using GenerateAgentCert_frame(3) [OF assms(1) prov_generate_ok(2) [OF assms(3)], of "fst pair" "snd pair"]
    AgentCertExists_stored [OF assms(1,2)]
  by simp

section \<open>Invariant of the interleavings\<close>

text \<open>Every key that can be used, now or at another time, is for an agent with a valid identifier.\<close>

definition keys_valid :: "KeyStore \<Rightarrow> bool" where
  "keys_valid ks \<longleftrightarrow> gomap_ok (ks_keys ks) \<and> (\<forall>t k a. live_keys t ks k = Some a \<longrightarrow> ValidateAgentID a = None)"

lemma keys_valid_plain: "keys_valid ks \<Longrightarrow> Validate t k ks = Inr pk \<Longrightarrow> plain (pk_AgentID pk)"
  unfolding keys_valid_def by (blast dest: Validate_live intro: valid_plain)

lemma keys_valid_new [simp]: "keys_valid (NewKeyStore ttl)"
  by (simp add: keys_valid_def NewKeyStore_def live_keys_eq)

definition served_agents :: "prov_state \<Rightarrow> string list" where
  "served_agents st = map thread_agent (filter is_generated (ps_threads st)) @ map (fst \<circ> snd) (ps_log st)"

text \<open>Without errors of \<^verbatim>\<open>os.Stat\<close> every environment sees the same certificates.\<close>

lemma AgentCertExists_fine:
  "(\<And>p. \<not> os_stat_err env p) \<Longrightarrow> AgentCertExists env s a fs = AgentCertExists os_fine s a fs"
  by (simp add: AgentCertExists_def fileExists_def os_Stat_def)

definition prov_inv :: "CertService \<Rightarrow> prov_state \<Rightarrow> bool" where
  "prov_inv s st \<longleftrightarrow> keys_valid (ps_ks st) \<and> (\<forall>t\<in>set (ps_threads st). plain (thread_agent t)) \<and>
     distinct (served_agents st) \<and> (\<forall>a\<in>set (served_agents st). plain a \<and> AgentCertExists os_fine s a (ps_fs st))"

lemma keys_valid_step:
  assumes "keys_valid ks" "\<And>b now a. op = CreateOp (Some b) now a \<Longrightarrow> ValidateAgentID a = None"
  shows "keys_valid (ks.step op ks)"
  using assms ks.step_ok [of ks op] ks.agents_kept [of ks "\<lambda>a. ValidateAgentID a = None" op] unfolding keys_valid_def by blast

lemma keys_valid_ops:
  assumes "keys_valid ks"
  shows "keys_valid (snd (CreateProvisionKey rnd now req ks))" "keys_valid (snd (RevokeProvisionKey a ks))"
    "keys_valid (cleanup now ks)" "keys_valid (MarkUsed k ks)"
proof -
  show "keys_valid (cleanup now ks)" "keys_valid (MarkUsed k ks)"
    using keys_valid_step [OF assms, of "CleanupOp now"] keys_valid_step [OF assms, of "MarkUsedOp k"] by simp_all
  show "keys_valid (snd (RevokeProvisionKey a ks))"
    using keys_valid_step [OF assms, of "RevokeOp a"] by (cases "Revoke a ks") (simp add: RevokeProvisionKey_def split: bool.split)
  show "keys_valid (snd (CreateProvisionKey rnd now req ks))"
  proof (cases "\<exists>a. req = Inr a \<and> ValidateAgentID a = None")
    case True
    then obtain a where "req = Inr a" "ValidateAgentID a = None" by blast
    with keys_valid_step [OF assms, of "CreateOp rnd now a"] show ?thesis
      by (cases "Create rnd now a ks") (simp add: CreateProvisionKey_def split: sum.split)
  next
    case False
    with assms show ?thesis by (auto simp: CreateProvisionKey_def split: sum.split option.split)
  qed
qed

lemma prov_step_inv:
  assumes "prov_step envs s st st'" "\<And>env p. env \<in> envs \<Longrightarrow> \<not> os_stat_err env p" "prov_inv s st"
  shows "prov_inv s st'"
  using assms(1)
proof cases
  case (create rnd now req resp ks')
  then show ?thesis
    using assms(3) keys_valid_ops(1) [of "ps_ks st" rnd now req] by (simp add: prov_inv_def served_agents_def)
next
  case (revoke a resp ks')
  then show ?thesis
    using assms(3) keys_valid_ops(2) [of "ps_ks st" a] by (simp add: prov_inv_def served_agents_def)
next
  case (tick now)
  then show ?thesis
    using assms(3) keys_valid_ops(3) [of "ps_ks st" now] by (simp add: prov_inv_def served_agents_def)
next
  case (validate now req k a)
  then obtain pk where "Validate now k (ps_ks st) = Inr pk" "a = pk_AgentID pk"
    by (auto simp: prov_validate_def split: sum.splits option.splits)
  with assms(3) have "plain a" by (auto simp: prov_inv_def intro: keys_valid_plain)
  with validate assms(3) show ?thesis by (simp add: prov_inv_def served_agents_def)
next
  case (generate env ts k a us g pair fs')
  note fine = AgentCertExists_fine [OF assms(2) [OF generate(2)]]
  have a: "plain a" using generate assms(3) by (simp add: prov_inv_def)
  have new: "a \<notin> set (served_agents st)"
    using prov_generate_ok(1) [OF generate(4)] assms(3) by (auto simp: prov_inv_def fine)
  have "AgentCertExists os_fine s b fs'" if "b \<in> set (served_agents st)" for b
    using prov_generate_keeps [OF _ a _ generate(4)] assms(3) that by (simp add: prov_inv_def fine)
  moreover have "AgentCertExists os_fine s a fs'" using prov_generate_exists [OF a assms(2) generate(4)] generate(2) by (simp add: fine)
  moreover have "set (served_agents st') = insert a (set (served_agents st))" "distinct (served_agents st')"
    using generate(1,3) new assms(3) by (auto simp: prov_inv_def served_agents_def)
  ultimately show ?thesis
    using assms(3) generate(1,3) a by (auto simp: prov_inv_def)
next
  case (refuse env ts k a us g resp fs')
  note fine = AgentCertExists_fine [OF assms(2) [OF refuse(2)]]
  have a: "plain a" using refuse assms(3) by (simp add: prov_inv_def)
  have "AgentCertExists os_fine s b fs'" if "b \<in> set (served_agents st)" for b
    using prov_generate_keeps [OF _ a _ refuse(4)] assms(3) that by (simp add: prov_inv_def fine)
  moreover have "served_agents st' = served_agents st" using refuse(1,3) by (simp add: served_agents_def)
  ultimately show ?thesis using assms(3) refuse(1,3) by (simp add: prov_inv_def)
next
  case (finish ts k a pair us env2 body ks')
  have "ks' = MarkUsed k (ps_ks st)"
    using finish(3) by (auto simp: prov_finish_def CertToPEM_def KeyToPEM_def split: sum.splits)
  moreover have "set (served_agents st') = set (served_agents st)" "distinct (served_agents st')"
    using finish(1,2) assms(3) by (auto simp: prov_inv_def served_agents_def)
  ultimately show ?thesis using assms(3) finish(1,2) keys_valid_ops(4) by (simp add: prov_inv_def)
next
  case (abandon ts k a pair us env2 resp ks')
  have "ks' = ps_ks st"
    using abandon(3) by (auto simp: prov_finish_def CertToPEM_def KeyToPEM_def split: sum.splits)
  moreover have "set (served_agents st') \<subseteq> set (served_agents st)" "distinct (served_agents st')"
    using abandon(1,2) assms(3) by (auto simp: prov_inv_def served_agents_def)
  ultimately show ?thesis using assms(3) abandon(1,2) by (auto simp: prov_inv_def)
qed

lemma Provision_success:
  assumes "keys_valid ks" "Provision env env2 g now (Some s) (Inr key) ks fs = ((200, Inr body), ks', fs')"
  obtains pk c k ca where "Validate now key ks = Inr pk" "plain (pk_AgentID pk)"
    and "GenerateAgentCert env g s (pk_AgentID pk) fs = (Inr (c, k), fs')" "GetCACert env2 s fs' = Inr ca"
    and "body = \<lparr>pr_AgentID = pk_AgentID pk, pr_CertPEM = PEM ''CERTIFICATE'' (CertDER c),
                 pr_KeyPEM = PEM ''PRIVATE KEY'' (PKCS8DER (RSAKey k)), pr_CACertPEM = ca\<rparr>"
    and "ks' = MarkUsed key ks"
proof -
  obtain pk where pk: "Validate now key ks = Inr pk"
    using assms(2) by (auto simp: Provision_def prov_validate_def split: sum.splits)
  then have plain: "plain (pk_AgentID pk)" by (rule keys_valid_plain [OF assms(1)])
  obtain r fs1 where g: "prov_generate env g s (pk_AgentID pk) fs = (r, fs1)" by (cases "prov_generate env g s (pk_AgentID pk) fs")
  obtain pair where r: "r = Inr pair"
    using assms(2) pk g
    by (auto simp: Provision_def prov_validate_def prov_generate_def split: sum.splits option.splits prod.splits)
  then obtain c k where p: "r = Inr (c, k)" by (cases pair) simp
  have fin: "prov_finish env2 s key (pk_AgentID pk) (c, k) fs1 ks = ((200, Inr body), ks')" and fs': "fs' = fs1"
    using assms(2) pk g p by (auto simp: Provision_def prov_validate_def Let_def split: prod.splits)
  from fin obtain ca where "GetCACert env2 s fs1 = Inr ca" "ks' = MarkUsed key ks"
    "body = \<lparr>pr_AgentID = pk_AgentID pk, pr_CertPEM = PEM ''CERTIFICATE'' (CertDER c),
             pr_KeyPEM = PEM ''PRIVATE KEY'' (PKCS8DER (RSAKey k)), pr_CACertPEM = ca\<rparr>"
    by (auto simp: prov_finish_def CertToPEM_def KeyToPEM_def split: sum.splits)
  with that [OF pk plain] prov_generate_ok(2) [OF g [unfolded p]] fs' show thesis by blast
qed

section \<open>Properties\<close>

text \<open>
  C15 (functional): a provisioning request succeeds only with an unused, unexpired key and when the agent
  has no certificate yet; it then answers with the new certificate of the key's agent, its private key
  and the authority's certificate, leaves the pair on disk, and uses up the key.  Every other answer is
  an error that leaves the key store as it was.  The key pair is made by the server and the private key is
  part of the answer; the documents describe a signing request of the agent instead.
\<close>

theorem Provision_spec:
  assumes "keys_valid ks"
    and "Provision env env2 g now svc req ks fs = ((st, body), ks', fs')"
  shows "if st = 200 then
      \<exists>s key pk c k ca. svc = Some s \<and> req = Inr key \<and> Validate now key ks = Inr pk \<and>
        \<not> AgentCertExists env s (pk_AgentID pk) fs \<and> GetCACert env2 s fs' = Inr ca \<and>
        body = Inr \<lparr>pr_AgentID = pk_AgentID pk, pr_CertPEM = PEM ''CERTIFICATE'' (CertDER c),
                    pr_KeyPEM = PEM ''PRIVATE KEY'' (PKCS8DER (RSAKey k)), pr_CACertPEM = ca\<rparr> \<and>
        n_CommonName (x_Subject c) = pk_AgentID pk \<and> x_PublicKey c = Some k \<and>
        map_of (fs_files fs') (cert_loc s (pk_AgentID pk)) = Some (PEM ''CERTIFICATE'' (CertDER c)) \<and>
        map_of (fs_files fs') (key_loc s (pk_AgentID pk)) = Some (PEM ''PRIVATE KEY'' (PKCS8DER (RSAKey k))) \<and>
        (\<forall>t. isl (Validate t key ks'))
    else st \<in> {400, 401, 409, 500} \<and> isl body \<and> ks' = ks \<and> (st \<noteq> 500 \<longrightarrow> fs' = fs)"
proof (cases "prov_validate now svc req ks")
  case (Inl resp)
  then have "fst resp \<in> {400, 401} \<and> isl (snd resp)"
    by (auto simp: prov_validate_def split: option.splits sum.splits)
  with Inl assms(2) show ?thesis by (auto simp: Provision_def)
next
  case (Inr x)
  then obtain s key pk where x: "x = (s, key, pk_AgentID pk)" "svc = Some s" "req = Inr key" "Validate now key ks = Inr pk"
    by (auto simp: prov_validate_def split: option.splits sum.splits)
  have look: "map_of (ks_keys ks) key = Some pk" using x(4) by (auto simp: Validate_def split: option.splits if_splits)
  have plain: "plain (pk_AgentID pk)" by (rule keys_valid_plain [OF assms(1) x(4)])
  show ?thesis
  proof (cases "prov_generate env g s (pk_AgentID pk) fs")
    case (Pair res fs1)
    show ?thesis
    proof (cases res)
      case (Inl resp)
      then have "fst resp = 500 \<and> isl (snd resp) \<or> fst resp = 409 \<and> isl (snd resp) \<and> fs1 = fs"
        using Pair by (auto simp: prov_generate_def GenerateAgentCertIfNotExists_def split: prod.splits sum.splits option.splits if_splits)
      with Inr x Pair Inl assms(2) show ?thesis by (auto simp: Provision_def)
    next
      case (Inr pair)
      obtain c k where p: "pair = (c, k)" by (cases pair)
      note G = prov_generate_ok [OF Pair [unfolded Inr p]]
      note F = GenerateAgentCert_frame(3) [OF plain G(2) refl]
      have run: "((st, body), ks') = prov_finish env2 s key (pk_AgentID pk) (c, k) fs1 ks" "fs' = fs1"
        using \<open>prov_validate now svc req ks = Inr x\<close> x Pair Inr p assms(2)
        by (auto simp: Provision_def Let_def split: prod.splits)
      have "isl (Validate t key (MarkUsed key ks))" for t
        using look by (simp add: Validate_def MarkUsed_def go_map)
      with run x G(1) F issue_agent_cert_ok [of env g s "pk_AgentID pk" fs c k] show ?thesis
        by (auto simp: prov_finish_def CertToPEM_def KeyToPEM_def split: sum.splits)
    qed
  qed
qed

definition example_ks :: KeyStore where
  "example_ks = snd (CreateProvisionKey (Some ''xy'') 0 (Inr ''agent-1'') (NewKeyStore (24 * hour)))"

lemma example_ks_valid: "keys_valid example_ks"
  unfolding example_ks_def by (rule keys_valid_ops) simp

theorem Provision_spec_witness:
  "\<exists>body ks' fs'. Provision os_fine os_fine (gen_example 3) 5 (Some example_service) (Inr ''sk_7879'') example_ks example_fs
       = ((200, Inr body), ks', fs') \<and> pr_AgentID body = ''agent-1'' \<and> isl (Validate 6 ''sk_7879'' ks')"
proof -
  have "case Provision os_fine os_fine (gen_example 3) 5 (Some example_service) (Inr ''sk_7879'') example_ks example_fs of
      ((st, Inr body), ks', fs') \<Rightarrow> st = 200 \<and> pr_AgentID body = ''agent-1'' | _ \<Rightarrow> False"
    by code_simp
  then obtain body ks' fs' where run: "Provision os_fine os_fine (gen_example 3) 5 (Some example_service) (Inr ''sk_7879'') example_ks example_fs
      = ((200, Inr body), ks', fs')" and a: "pr_AgentID body = ''agent-1''"
    by (auto split: prod.splits sum.splits)
  from Provision_spec [OF example_ks_valid run] run a show ?thesis by auto
qed

text \<open>
  C33 (error): if the authority's certificate cannot be read after the agent's certificate was written, the
  request fails although the certificate exists.  The key store is unchanged, so the key stays valid until it
  expires, but every retry with it is refused with status 409 and changes nothing: the agent cannot be
  provisioned until an administrator deletes the certificate.
\<close>

theorem failed_provision_blocks_retry:
  assumes "keys_valid ks" "\<And>p. \<not> os_stat_err env p"
    and "Provision env env2 g now (Some s) (Inr key) ks fs = ((500, Inl ''Failed to read CA certificate''), ks', fs')"
  shows "\<exists>pk. Validate now key ks = Inr pk \<and> ks' = ks \<and>
    (\<forall>now'. \<not> time_after now' (pk_ExpiresAt pk) \<longrightarrow> Validate now' key ks' = Inr pk \<and>
      (\<forall>env' env2' g'. (\<forall>p. \<not> os_stat_err env' p) \<longrightarrow>
         Provision env' env2' g' now' (Some s) (Inr key) ks' fs' =
           ((409, Inl ''Certificate already exists for this agent''), ks', fs')))"
proof -
  from assms(3) obtain pk where v: "Validate now key ks = Inr pk"
    by (auto simp: Provision_def prov_validate_def split: sum.splits)
  then have look: "map_of (ks_keys ks) key = Some pk" "\<not> pk_Used pk"
    by (auto simp: Validate_def split: option.splits if_splits)
  have plain: "plain (pk_AgentID pk)" by (rule keys_valid_plain [OF assms(1) v])
  obtain res fs1 where gen: "prov_generate env g s (pk_AgentID pk) fs = (res, fs1)" by (cases "prov_generate env g s (pk_AgentID pk) fs")
  have run: "Provision env env2 g now (Some s) (Inr key) ks fs =
      (case res of Inl resp \<Rightarrow> (resp, ks, fs1)
       | Inr pair \<Rightarrow> let (resp, ks') = prov_finish env2 s key (pk_AgentID pk) pair fs1 ks in (resp, ks', fs1))"
    using v gen by (cases res) (simp_all add: Provision_def prov_validate_def)
  have "\<not> isl res"
    using gen assms(3) run
    by (auto simp: prov_generate_def isl_def split: prod.splits sum.splits option.splits)
  then obtain pair where res: "res = Inr pair" by (cases res) auto
  with run assms(3) have same: "ks' = ks" "fs' = fs1"
    by (auto simp: prov_finish_def CertToPEM_def KeyToPEM_def Let_def split: sum.splits)
  have exists: "AgentCertExists env s (pk_AgentID pk) fs'"
    using prov_generate_exists [OF plain assms(2)] gen res same by simp
  have valid: "Validate now' key ks' = Inr pk" if "\<not> time_after now' (pk_ExpiresAt pk)" for now'
    using look that by (simp add: Validate_def same)
  have "Provision env' env2' g' now' (Some s) (Inr key) ks' fs' =
      ((409, Inl ''Certificate already exists for this agent''), ks', fs')"
    if "\<not> time_after now' (pk_ExpiresAt pk)" "\<forall>p. \<not> os_stat_err env' p" for env' env2' g' now'
  proof -
    have "AgentCertExists env' s (pk_AgentID pk) fs'"
      using exists AgentCertExists_fine [of env] AgentCertExists_fine [of env'] assms(2) that(2) by simp
    with valid [OF that(1)] show ?thesis
      by (simp add: Provision_def prov_validate_def prov_generate_def GenerateAgentCertIfNotExists_def)
  qed
  with v same(1) valid show ?thesis by blast
qed

theorem failed_provision_blocks_retry_witness:
  "let broken = os_fine\<lparr>os_read_err := \<lambda>p. True\<rparr>;
       (ks', fs') = snd (Provision os_fine broken (gen_example 3) 5 (Some example_service) (Inr ''sk_7879'') example_ks example_fs)
   in ks' = example_ks \<and> Provision os_fine os_fine (gen_example 4) 6 (Some example_service) (Inr ''sk_7879'') ks' fs'
      = ((409, Inl ''Certificate already exists for this agent''), ks', fs')"
proof -
  let ?broken = "os_fine\<lparr>os_read_err := \<lambda>p. True\<rparr>"
  let ?r = "Provision os_fine ?broken (gen_example 3) 5 (Some example_service) (Inr ''sk_7879'') example_ks example_fs"
  have "fst ?r = (500, Inl ''Failed to read CA certificate'')" by code_simp
  then obtain ks' fs' where run: "?r = ((500, Inl ''Failed to read CA certificate''), ks', fs')" by (metis prod.collapse)
  have "\<not> time_after 6 (case Validate 5 ''sk_7879'' example_ks of Inr pk \<Rightarrow> pk_ExpiresAt pk | Inl _ \<Rightarrow> 0)" by code_simp
  with failed_provision_blocks_retry [OF example_ks_valid _ run]
  have "ks' = example_ks \<and> Provision os_fine os_fine (gen_example 4) 6 (Some example_service) (Inr ''sk_7879'') ks' fs'
      = ((409, Inl ''Certificate already exists for this agent''), ks', fs')" by fastforce
  then show ?thesis unfolding Let_def run snd_conv prod.case .
qed

text \<open>
  C8 (invariant): in every interleaving of provisioning requests with each other, with the creation and
  revocation of keys and with cleanups, each agent is given at most one certificate, although a key
  is checked and marked as used under different locks; the certificates that were given out exist on disk.
  Reading, writing and making directories may fail at any step; the one condition is that \<^verbatim>\<open>os.Stat\<close> does not
  fail on a file that exists, since the code takes such a failure for a missing certificate.
\<close>

theorem one_certificate_per_agent:
  assumes "(prov_step envs s)\<^sup>*\<^sup>* (prov_init ks fs) st" "keys_valid ks"
    and "\<And>env p. env \<in> envs \<Longrightarrow> \<not> os_stat_err env p"
  shows "distinct (map (fst \<circ> snd) (ps_log st)) \<and>
    (\<forall>(k, a, pair)\<in>set (ps_log st). \<forall>env. (\<forall>p. \<not> os_stat_err env p) \<longrightarrow> AgentCertExists env s a (ps_fs st))"
proof -
  have "prov_inv s (prov_init ks fs)"
    using assms(2) by (simp add: prov_inv_def prov_init_def served_agents_def)
  with assms(1) have "prov_inv s st"
  proof (induction rule: rtranclp_induct)
    case (step st st')
    from prov_step_inv [OF step.hyps(2) assms(3)] step.IH [OF step.prems] show ?case by blast
  qed
  then have d: "distinct (served_agents st)" "\<forall>a\<in>set (served_agents st). AgentCertExists os_fine s a (ps_fs st)"
    by (simp_all add: prov_inv_def)
  have "a \<in> set (served_agents st)" if "(k, a, pair) \<in> set (ps_log st)" for k a pair
    using that by (force simp: served_agents_def)
  then have "\<forall>(k, a, pair)\<in>set (ps_log st). AgentCertExists os_fine s a (ps_fs st)" using d(2) by blast
  with AgentCertExists_fine d(1) show ?thesis by (fastforce simp only: served_agents_def distinct_append)
qed

theorem one_certificate_per_agent_witness:
  "\<exists>st pair. (prov_step {os_fine} example_service)\<^sup>*\<^sup>* (prov_init example_ks example_fs) st \<and>
     ps_log st = [(''sk_7879'', ''agent-1'', pair)] \<and> Validated ''sk_7879'' ''agent-1'' \<in> set (ps_threads st) \<and>
     AgentCertExists os_fine example_service ''agent-1'' (ps_fs st)"
proof -
  define t where "t = Validated ''sk_7879'' ''agent-1''"
  define st0 where "st0 = prov_init example_ks example_fs"
  have st0: "ps_ks st0 = example_ks" "ps_fs st0 = example_fs" "ps_threads st0 = []" "ps_log st0 = []"
    by (simp_all add: st0_def prov_init_def)
  have "prov_validate 5 (Some example_service) (Inr ''sk_7879'') example_ks = Inr (example_service, ''sk_7879'', ''agent-1'')"
    by code_simp
  then have v: "prov_validate 5 (Some example_service) (Inr ''sk_7879'') (ps_ks st) = Inr (example_service, ''sk_7879'', ''agent-1'')"
    if "ps_ks st = example_ks" for st using that by simp
  define st2 where "st2 = st0\<lparr>ps_threads := [t, t]\<rparr>"
  have 1: "prov_step {os_fine} example_service st0 (st0\<lparr>ps_threads := [t]\<rparr>)"
    using prov_step.validate [OF v, of st0 "{os_fine}"] st0 by (simp add: t_def)
  have 2: "prov_step {os_fine} example_service (st0\<lparr>ps_threads := [t]\<rparr>) st2"
    using prov_step.validate [OF v, of "st0\<lparr>ps_threads := [t]\<rparr>" "{os_fine}"] st0 by (simp add: t_def st2_def)
  have "case prov_generate os_fine (gen_example 3) example_service ''agent-1'' example_fs of
      (Inr pair, fs1) \<Rightarrow> fst (fst (prov_finish os_fine example_service ''sk_7879'' ''agent-1'' pair fs1 example_ks)) = 200
    | (Inl _, _) \<Rightarrow> False"
    by code_simp
  then obtain pair fs1 where g: "prov_generate os_fine (gen_example 3) example_service ''agent-1'' example_fs = (Inr pair, fs1)"
      and "fst (fst (prov_finish os_fine example_service ''sk_7879'' ''agent-1'' pair fs1 example_ks)) = 200"
    by (auto split: prod.splits sum.splits)
  from this(2) obtain body ks1 where
    f: "prov_finish os_fine example_service ''sk_7879'' ''agent-1'' pair fs1 example_ks = ((200, Inr body), ks1)"
    by (auto simp: prov_finish_def CertToPEM_def KeyToPEM_def split: sum.splits)
  define st3 where "st3 = st2\<lparr>ps_fs := fs1, ps_threads := [Generated ''sk_7879'' ''agent-1'' pair, t]\<rparr>"
  define st4 where "st4 = st3\<lparr>ps_ks := ks1, ps_threads := [t], ps_log := [(''sk_7879'', ''agent-1'', pair)]\<rparr>"
  have 3: "prov_step {os_fine} example_service st2 st3"
    using prov_step.generate [of os_fine "{os_fine}" st2 "[]" "''sk_7879''" "''agent-1''" "[t]" "gen_example 3" example_service pair fs1] g st0
    by (simp add: st2_def st3_def t_def)
  have 4: "prov_step {os_fine} example_service st3 st4"
    using prov_step.finish [of st3 "[]" "''sk_7879''" "''agent-1''" pair "[t]" os_fine example_service body ks1 "{os_fine}"] f st0
    by (simp add: st2_def st3_def st4_def)
  have reach: "(prov_step {os_fine} example_service)\<^sup>*\<^sup>* (prov_init example_ks example_fs) st4"
    using 1 2 3 4 unfolding st0_def by (blast intro: converse_rtranclp_into_rtranclp)
  have "ps_log st4 = [(''sk_7879'', ''agent-1'', pair)]" "t \<in> set (ps_threads st4)" by (simp_all add: st4_def)
  moreover have "AgentCertExists os_fine example_service ''agent-1'' (ps_fs st4)"
    using one_certificate_per_agent [OF reach example_ks_valid] \<open>ps_log st4 = _\<close> by fastforce
  ultimately show ?thesis using reach unfolding t_def by blast
qed

end
