(* ===== verification/Cert_Handler.thy ===== *)
theory Cert_Handler
  imports Provision_Handler
begin

text \<open>
  \<^verbatim>\<open>internal/api/http/handler/cert.go\<close>: the HTTP handlers that create, return and delete the certificate of
  an agent.  A certificate is delivered as a zip archive, of which the model keeps the name and the
  files; writing an archive into a buffer does not fail.  The file system may behave differently from
  call to call, hence the second \<open>os_env\<close> for the reads after a certificate was generated.
\<close>

section \<open>Operations\<close>

record CertZip =
  cz_filename :: string
  cz_files :: "(string, file_data) gomap"

text \<open>
  An archive is the map of its files: the loop of the source writes the entries of a map, in an order that Go leaves
  open, and no reader depends on it.
\<close>

definition createCertZipFromBytes :: "string \<Rightarrow> file_data \<Rightarrow> file_data \<Rightarrow> file_data \<Rightarrow> cert_error + (string, file_data) gomap" where
  "createCertZipFromBytes agentID certPEM keyPEM caCertBytes =
     Inr (AList.update ''ca-cert.pem'' caCertBytes
            (AList.update (agentID @ ''-key.pem'') keyPEM
               (AList.update (agentID @ ''-cert.pem'') certPEM [])))"

definition createCertZip :: "string \<Rightarrow> Certificate \<Rightarrow> rsa_key \<Rightarrow> file_data \<Rightarrow> cert_error + (string, file_data) gomap" where
  "createCertZip agentID agentCert agentKey caCertBytes =
     (case CertToPEM agentCert of
        Inl e \<Rightarrow> Inl (CertWrap ''failed to encode agent certificate'' e)
      | Inr agentCertPEM \<Rightarrow>
     (case KeyToPEM agentKey of
        Inl e \<Rightarrow> Inl (CertWrap ''failed to encode agent key'' e)
      | Inr agentKeyPEM \<Rightarrow> createCertZipFromBytes agentID agentCertPEM agentKeyPEM caCertBytes))"

text \<open>The guards that the three handlers share: TLS is enabled and the identifier is valid.\<close>

definition cert_guard :: "CertService option \<Rightarrow> string \<Rightarrow> 'a api_response + CertService" where
  "cert_guard svc agentID =
     (case svc of
        None \<Rightarrow> Inl (400, Inl ''TLS is not enabled on this server'')
      | Some s \<Rightarrow>
          (case ValidateAgentID agentID of
             Some err \<Rightarrow> Inl (400, Inl err)
           | None \<Rightarrow> Inr s))"

definition zip_response :: "int \<Rightarrow> string \<Rightarrow> cert_error + (string, file_data) gomap \<Rightarrow> CertZip api_response" where
  "zip_response status agentID archive =
     (case archive of
        Inl e \<Rightarrow> (500, Inl ''Failed to create zip file'')
      | Inr files \<Rightarrow> (status, Inr \<lparr>cz_filename = agentID @ ''-certs.zip'', cz_files = files\<rparr>))"

definition CreateAgentCertificate :: "os_env \<Rightarrow> os_env \<Rightarrow> gen_env \<Rightarrow> CertService option \<Rightarrow> string \<Rightarrow> file_system \<Rightarrow>
    CertZip api_response \<times> file_system" where
  "CreateAgentCertificate env env2 g svc agentID fs =
     (case cert_guard svc agentID of
        Inl resp \<Rightarrow> (resp, fs)
      | Inr s \<Rightarrow>
          if AgentCertExists env s agentID fs then ((409, Inl ''Certificate already exists for this agent''), fs)
          else
            (case GenerateAgentCert env g s agentID fs of
               (Inl e, fs') \<Rightarrow> ((500, Inl ''Failed to generate agent certificate''), fs')
             | (Inr (agentCert, agentKey), fs') \<Rightarrow>
                 (case GetCACert env2 s fs' of
                    Inl e \<Rightarrow> ((500, Inl ''Failed to read CA certificate''), fs')
                  | Inr caCertBytes \<Rightarrow>
                      (zip_response 201 agentID (createCertZip agentID agentCert agentKey caCertBytes), fs'))))"

definition GetAgentCertificate :: "os_env \<Rightarrow> CertService option \<Rightarrow> string \<Rightarrow> file_system \<Rightarrow> CertZip api_response" where
  "GetAgentCertificate env svc agentID fs =
     (case cert_guard svc agentID of
        Inl resp \<Rightarrow> resp
      | Inr s \<Rightarrow>
          if \<not> AgentCertExists env s agentID fs then (404, Inl ''Certificate not found for this agent'')
          else
            (case GetAgentCert env s agentID fs of
               Inl e \<Rightarrow> (500, Inl ''Failed to read agent certificate'')
             | Inr (agentCertBytes, agentKeyBytes) \<Rightarrow>
                 (case GetCACert env s fs of
                    Inl e \<Rightarrow> (500, Inl ''Failed to read CA certificate'')
                  | Inr caCertBytes \<Rightarrow>
                      zip_response 200 agentID (createCertZipFromBytes agentID agentCertBytes agentKeyBytes caCertBytes))))"

text \<open>The answer to a deletion lists the directory that was removed.\<close>

definition DeleteAgentCertificate :: "os_env \<Rightarrow> CertService option \<Rightarrow> string \<Rightarrow> file_system \<Rightarrow>
    string list api_response \<times> file_system" where
  "DeleteAgentCertificate env svc agentID fs =
     (case cert_guard svc agentID of
        Inl resp \<Rightarrow> (resp, fs)
      | Inr s \<Rightarrow>
          if \<not> AgentCertExists env s agentID fs then ((404, Inl ''Certificate not found for this agent''), fs)
          else
            let certDir = GetAgentCertDir s agentID in
            case DeleteAgentCert env s agentID fs of
              (Some e, fs') \<Rightarrow> ((500, Inl ''Failed to delete agent certificate''), fs')
            | (None, fs') \<Rightarrow> ((200, Inr [certDir]), fs'))"

section \<open>Creation is not atomic\<close>

text \<open>
  \<^verbatim>\<open>CreateAgentCertificate\<close> holds no lock.  The steps of one request for the agent \<open>a\<close>: the check that there
  is no certificate, the issue of a new one, and the two writes.
\<close>

datatype create_thread =
    Checked
  | Issued "Certificate \<times> rsa_key"
  | CertWritten "Certificate \<times> rsa_key"
  | Created "Certificate \<times> rsa_key"

record create_state =
  cs_fs :: file_system
  cs_threads :: "create_thread list"

inductive create_step :: "os_env \<Rightarrow> CertService \<Rightarrow> string \<Rightarrow> create_state \<Rightarrow> create_state \<Rightarrow> bool" for env s a where
  check: "\<not> AgentCertExists env s a (cs_fs st) \<Longrightarrow>
    create_step env s a st (st\<lparr>cs_threads := cs_threads st @ [Checked]\<rparr>)"
| issue: "i < length (cs_threads st) \<Longrightarrow> cs_threads st ! i = Checked \<Longrightarrow>
    issue_agent_cert env g s a (cs_fs st) = Inr pair \<Longrightarrow>
    create_step env s a st (st\<lparr>cs_threads := (cs_threads st)[i := Issued pair]\<rparr>)"
| write_cert: "i < length (cs_threads st) \<Longrightarrow> cs_threads st ! i = Issued pair \<Longrightarrow>
    ensureDirectory env (GetAgentCertPath s a) (cs_fs st) = (None, fs1) \<Longrightarrow>
    writeCertToFile env (fst pair) (GetAgentCertPath s a) fs1 = (None, fs2) \<Longrightarrow>
    create_step env s a st (st\<lparr>cs_fs := fs2, cs_threads := (cs_threads st)[i := CertWritten pair]\<rparr>)"
| write_key: "i < length (cs_threads st) \<Longrightarrow> cs_threads st ! i = CertWritten pair \<Longrightarrow>
    writeKeyToFile env (snd pair) (GetAgentKeyPath s a) (cs_fs st) = (None, fs1) \<Longrightarrow>
    create_step env s a st (st\<lparr>cs_fs := fs1, cs_threads := (cs_threads st)[i := Created pair]\<rparr>)"

lemma write_succeeds:
  assumes "\<not> is_dir fs (path_parts p)" "is_dir fs (parent_loc (path_parts p))" "os_write env p = WriteDone"
  shows "writeCertToFile env c p fs = (None, fs\<lparr>fs_files := AList.update (path_parts p) (PEM ''CERTIFICATE'' (CertDER c)) (fs_files fs)\<rparr>)"
    "writeKeyToFile env k p fs = (None, fs\<lparr>fs_files := AList.update (path_parts p) (PEM ''PRIVATE KEY'' (PKCS8DER (RSAKey k))) (fs_files fs)\<rparr>)"
proof -
  have "os_WriteFile env p d fs = (True, fs\<lparr>fs_files := AList.update (path_parts p) d (fs_files fs)\<rparr>)" for d
    using assms by (simp add: os_WriteFile_def Let_def)
  then show "writeCertToFile env c p fs = (None, fs\<lparr>fs_files := AList.update (path_parts p) (PEM ''CERTIFICATE'' (CertDER c)) (fs_files fs)\<rparr>)"
    "writeKeyToFile env k p fs = (None, fs\<lparr>fs_files := AList.update (path_parts p) (PEM ''PRIVATE KEY'' (PKCS8DER (RSAKey k))) (fs_files fs)\<rparr>)"
    by (simp_all add: writeCertToFile_def writeKeyToFile_def CertToPEM_def KeyToPEM_def)
qed

text \<open>The directory can be made again after the certificate was written into it.\<close>

lemma ensureDirectory_again:
  assumes "plain a" "ensureDirectory env (GetAgentCertPath s a) fs = (None, fs1)"
  shows "ensureDirectory env (GetAgentCertPath s a) (fs1\<lparr>fs_files := AList.update (cert_loc s a) d (fs_files fs1)\<rparr>) =
    (None, fs1\<lparr>fs_files := AList.update (cert_loc s a) d (fs_files fs1)\<rparr>)"
proof -
  obtain r cs where D: "path_parts (svc_AgentCertDir s) = (r, cs)" by (cases "path_parts (svc_AgentCertDir s)")
  note L = agent_locations [OF assms(1) D]
  let ?dir = "Dir (GetAgentCertPath s a)" and ?fs2 = "fs1\<lparr>fs_files := AList.update (cert_loc s a) d (fs_files fs1)\<rparr>"
  have "os_MkdirAll env ?dir fs = (True, fs1)"
    using assms(2) by (auto simp: ensureDirectory_def Let_def split: prod.splits bool.splits)
  then have ok: "?dir \<noteq> ''''" "os_mkdir_stop env ?dir = None" "\<forall>l\<in>set (loc_prefixes (path_parts ?dir)). map_of (fs_files fs) l = None"
      and dirs: "fs_files fs1 = fs_files fs" "\<forall>l\<in>set (loc_prefixes (path_parts ?dir)). is_dir fs1 l"
    by (auto simp: os_MkdirAll_def Let_def is_dir_def split: if_splits option.splits)
  have "cert_loc s a \<notin> set (loc_prefixes (path_parts ?dir))"
    using L by (auto simp: loc_prefixes_iff loc_under_def dest: prefix_length_le)
  then have "\<forall>l\<in>set (loc_prefixes (path_parts ?dir)). map_of (fs_files ?fs2) l = None"
    using ok dirs(1) by (auto simp: go_map)
  moreover have "filter (\<lambda>l. \<not> is_dir ?fs2 l) (loc_prefixes (path_parts ?dir)) = []"
    using dirs(2) by (simp add: filter_empty_conv)
  ultimately have "os_MkdirAll env ?dir ?fs2 = (True, ?fs2)"
    using ok(1,2) unfolding os_MkdirAll_def Let_def by simp
  then show ?thesis by (simp add: ensureDirectory_def Let_def)
qed

text \<open>
  The schedule: both requests pass the check and issue their pair; the first writes its certificate, the second
  overwrites it and writes its key, which the first overwrites.
\<close>

lemma mixing_schedule:
  assumes "\<not> AgentCertExists env s a fs"
    and "issue_agent_cert env gA s a fs = Inr (cA, kA)" "issue_agent_cert env gB s a fs = Inr (cB, kB)"
    and "ensureDirectory env (GetAgentCertPath s a) fs = (None, fs1)" "writeCertToFile env cA (GetAgentCertPath s a) fs1 = (None, fsA)"
    and "ensureDirectory env (GetAgentCertPath s a) fsA = (None, fsA)" "writeCertToFile env cB (GetAgentCertPath s a) fsA = (None, fsB)"
    and "writeKeyToFile env kB (GetAgentKeyPath s a) fsB = (None, fsC)" "writeKeyToFile env kA (GetAgentKeyPath s a) fsC = (None, fsD)"
  shows "(create_step env s a)\<^sup>*\<^sup>* \<lparr>cs_fs = fs, cs_threads = []\<rparr> \<lparr>cs_fs = fsD, cs_threads = [Created (cA, kA), Created (cB, kB)]\<rparr>"
proof -
  let ?st = "\<lambda>f ts. \<lparr>cs_fs = f, cs_threads = ts\<rparr>" and ?A = "(cA, kA)" and ?B = "(cB, kB)"
  have 1: "create_step env s a (?st fs []) (?st fs [Checked])"
    using create_step.check [of env s a "?st fs []"] assms(1) by simp
  have 2: "create_step env s a (?st fs [Checked]) (?st fs [Checked, Checked])"
    using create_step.check [of env s a "?st fs [Checked]"] assms(1) by simp
  have 3: "create_step env s a (?st fs [Checked, Checked]) (?st fs [Issued ?A, Checked])"
    using create_step.issue [of 0 "?st fs [Checked, Checked]"] assms(2) by simp
  have 4: "create_step env s a (?st fs [Issued ?A, Checked]) (?st fs [Issued ?A, Issued ?B])"
    using create_step.issue [of 1 "?st fs [Issued ?A, Checked]"] assms(3) by simp
  have 5: "create_step env s a (?st fs [Issued ?A, Issued ?B]) (?st fsA [CertWritten ?A, Issued ?B])"
    using create_step.write_cert [of 0 "?st fs [Issued ?A, Issued ?B]"] assms(4,5) by simp
  have 6: "create_step env s a (?st fsA [CertWritten ?A, Issued ?B]) (?st fsB [CertWritten ?A, CertWritten ?B])"
    using create_step.write_cert [of 1 "?st fsA [CertWritten ?A, Issued ?B]"] assms(6,7) by simp
  have 7: "create_step env s a (?st fsB [CertWritten ?A, CertWritten ?B]) (?st fsC [CertWritten ?A, Created ?B])"
    using create_step.write_key [of 1 "?st fsB [CertWritten ?A, CertWritten ?B]"] assms(8) by simp
  have 8: "create_step env s a (?st fsC [CertWritten ?A, Created ?B]) (?st fsD [Created ?A, Created ?B])"
    using create_step.write_key [of 0 "?st fsC [CertWritten ?A, Created ?B]"] assms(9) by simp
  show "(create_step env s a)\<^sup>*\<^sup>* (?st fs []) (?st fsD [Created ?A, Created ?B])"
    by (rule converse_rtranclp_into_rtranclp, rule 1, rule converse_rtranclp_into_rtranclp, rule 2,
        rule converse_rtranclp_into_rtranclp, rule 3, rule converse_rtranclp_into_rtranclp, rule 4,
        rule converse_rtranclp_into_rtranclp, rule 5, rule converse_rtranclp_into_rtranclp, rule 6,
        rule converse_rtranclp_into_rtranclp, rule 7, rule r_into_rtranclp, rule 8)
qed

section \<open>Properties\<close>

text \<open>
  C31 (roundtrip): the archive that the creation of a certificate returns can be fetched again: as long as
  the authority's certificate stays the same and the files can be read, \<^verbatim>\<open>GetAgentCertificate\<close> returns an
  archive with the same name and files, which are the certificate, its key and the authority's certificate.  An agent with
  the identifier \<^verbatim>\<open>ca\<close> is the exception: its certificate has the name of the authority's, which replaces it
  in the archive.
\<close>

theorem certificate_download_roundtrip:
  assumes "CreateAgentCertificate env env2 g (Some s) a fs = ((201, Inr z), fs')"
    and "GetCACert env2 s fs' = GetCACert env3 s fs'"
    and "\<And>p. \<not> os_stat_err env3 p" "\<And>p. \<not> os_read_err env3 p"
  shows "GetAgentCertificate env3 (Some s) a fs' = (200, Inr z) \<and>
    (a \<noteq> ''ca'' \<longrightarrow> (\<exists>c k ca. map_of (cz_files z) (a @ ''-cert.pem'') = Some (PEM ''CERTIFICATE'' (CertDER c)) \<and>
       map_of (cz_files z) (a @ ''-key.pem'') = Some (PEM ''PRIVATE KEY'' (PKCS8DER (RSAKey k))) \<and>
       map_of (cz_files z) ''ca-cert.pem'' = Some ca \<and> GetCACert env3 s fs' = Inr ca \<and>
       n_CommonName (x_Subject c) = a \<and> x_PublicKey c = Some k)) \<and>
    (a = ''ca'' \<longrightarrow> keys (cz_files z) = {''ca-cert.pem'', ''ca-key.pem''} \<and>
       map_option Inr (map_of (cz_files z) ''ca-cert.pem'') = Some (GetCACert env3 s fs'))"
proof -
  have v: "ValidateAgentID a = None"
    using assms(1) by (auto simp: CreateAgentCertificate_def cert_guard_def split: option.splits)
  with assms(1) obtain c k ca where gen: "GenerateAgentCert env g s a fs = (Inr (c, k), fs')"
      and ca: "GetCACert env2 s fs' = Inr ca" and arch: "zip_response 201 a (createCertZip a c k ca) = (201, Inr z)"
    by (auto simp: CreateAgentCertificate_def cert_guard_def split: if_splits prod.splits sum.splits)
  note F = GenerateAgentCert_frame(3) [OF valid_plain [OF v] gen refl]
  have ex: "AgentCertExists env3 s a fs'"
    by (rule AgentCertExists_stored [OF valid_plain [OF v] assms(3)]) (use F in simp_all)
  have get: "GetAgentCert env3 s a fs' = Inr (PEM ''CERTIFICATE'' (CertDER c), PEM ''PRIVATE KEY'' (PKCS8DER (RSAKey k)))"
    using F assms(4) by (simp add: GetAgentCert_def os_ReadFile_def)
  have files: "cz_files z = AList.update ''ca-cert.pem'' ca
      (AList.update (a @ ''-key.pem'') (PEM ''PRIVATE KEY'' (PKCS8DER (RSAKey k)))
        (AList.update (a @ ''-cert.pem'') (PEM ''CERTIFICATE'' (CertDER c)) []))" and name: "cz_filename z = a @ ''-certs.zip''"
    using arch by (auto simp: zip_response_def createCertZip_def createCertZipFromBytes_def CertToPEM_def KeyToPEM_def)
  have "GetAgentCertificate env3 (Some s) a fs' = (200, Inr z)"
    using v ex get ca assms(2) files name
    by (simp add: GetAgentCertificate_def cert_guard_def zip_response_def createCertZipFromBytes_def)
  moreover have "a @ ''-key.pem'' \<noteq> ''ca-cert.pem''" "a @ ''-cert.pem'' \<noteq> a @ ''-key.pem''"
    "a @ ''-cert.pem'' = ''ca-cert.pem'' \<Longrightarrow> a = ''ca''"
    by (auto simp: append_eq_Cons_conv)
  ultimately show ?thesis
    using files issue_agent_cert_ok [OF F [THEN conjunct1]] ca assms(2)
    by (auto simp: AList.update_conv' fun_upd_apply)
qed

theorem certificate_download_roundtrip_witness:
  "\<exists>z fs'. CreateAgentCertificate os_fine os_fine (gen_example 3) (Some example_service) ''agent-1'' example_fs = ((201, Inr z), fs') \<and>
     GetAgentCertificate os_fine (Some example_service) ''agent-1'' fs' = (200, Inr z)"
proof -
  have "case CreateAgentCertificate os_fine os_fine (gen_example 3) (Some example_service) ''agent-1'' example_fs of
      ((st, Inr z), fs') \<Rightarrow> st = 201 | _ \<Rightarrow> False"
    by code_simp
  then obtain z fs' where run: "CreateAgentCertificate os_fine os_fine (gen_example 3) (Some example_service) ''agent-1'' example_fs
      = ((201, Inr z), fs')"
    by (auto split: prod.splits sum.splits)
  from certificate_download_roundtrip [OF run refl] run show ?thesis by auto
qed

text \<open>
  C32 (error): two requests that create the certificate of the same agent at the same time can both succeed
  and leave the certificate of one with the private key of the other, a pair that no TLS
  endpoint accepts.
\<close>

theorem concurrent_creation_mixes_pairs:
  assumes "ValidateAgentID a = None" "\<not> AgentCertExists env s a fs"
    and "issue_agent_cert env gA s a fs = Inr (cA, kA)" "issue_agent_cert env gB s a fs = Inr (cB, kB)" "kA \<noteq> kB"
    and "ensureDirectory env (GetAgentCertPath s a) fs = (None, fs1)"
    and "\<not> is_dir fs1 (cert_loc s a)" "\<not> is_dir fs1 (key_loc s a)"
    and "\<And>p. os_write env p = WriteDone" "\<And>p. \<not> os_read_err env p"
  shows "\<exists>st. (create_step env s a)\<^sup>*\<^sup>* \<lparr>cs_fs = fs, cs_threads = []\<rparr> st \<and>
    cs_threads st = [Created (cA, kA), Created (cB, kB)] \<and>
    GetAgentCert env s a (cs_fs st) = Inr (PEM ''CERTIFICATE'' (CertDER cB), PEM ''PRIVATE KEY'' (PKCS8DER (RSAKey kA))) \<and>
    x_PublicKey cB \<noteq> Some kA"
proof -
  have plain: "plain a" by (rule valid_plain [OF assms(1)])
  obtain r cs where D: "path_parts (svc_AgentCertDir s) = (r, cs)" by (cases "path_parts (svc_AgentCertDir s)")
  note L = agent_locations [OF plain D]
  have dir: "is_dir fs1 (parent_loc (cert_loc s a))" "is_dir fs1 (parent_loc (key_loc s a))"
    using ensureDirectory_frame(3) [OF assms(6) refl] L by (simp_all add: parent_loc_def butlast_append)
  let ?cert = "\<lambda>c. PEM ''CERTIFICATE'' (CertDER c)" and ?key = "\<lambda>k. PEM ''PRIVATE KEY'' (PKCS8DER (RSAKey k))"
  define fsA where "fsA = fs1\<lparr>fs_files := AList.update (cert_loc s a) (?cert cA) (fs_files fs1)\<rparr>"
  define fsB where "fsB = fsA\<lparr>fs_files := AList.update (cert_loc s a) (?cert cB) (fs_files fsA)\<rparr>"
  define fsC where "fsC = fsB\<lparr>fs_files := AList.update (key_loc s a) (?key kB) (fs_files fsB)\<rparr>"
  define fsD where "fsD = fsC\<lparr>fs_files := AList.update (key_loc s a) (?key kA) (fs_files fsC)\<rparr>"
  note D' = fsA_def fsB_def fsC_def fsD_def
  have wA: "writeCertToFile env cA (GetAgentCertPath s a) fs1 = (None, fsA)"
    unfolding fsA_def using assms(7,9) dir by (intro write_succeeds) simp_all
  have eB: "ensureDirectory env (GetAgentCertPath s a) fsA = (None, fsA)"
    unfolding fsA_def by (rule ensureDirectory_again [OF plain assms(6)])
  have wB: "writeCertToFile env cB (GetAgentCertPath s a) fsA = (None, fsB)"
    unfolding fsB_def using assms(7,9) dir by (intro write_succeeds) (simp_all add: fsA_def)
  have kB: "writeKeyToFile env kB (GetAgentKeyPath s a) fsB = (None, fsC)"
    unfolding fsC_def using assms(8,9) dir by (intro write_succeeds) (simp_all add: fsB_def fsA_def)
  have kA: "writeKeyToFile env kA (GetAgentKeyPath s a) fsC = (None, fsD)"
    unfolding fsD_def using assms(8,9) dir by (intro write_succeeds) (simp_all add: fsC_def fsB_def fsA_def)
  let ?st = "\<lparr>cs_fs = fsD, cs_threads = [Created (cA, kA), Created (cB, kB)]\<rparr>"
  have "(create_step env s a)\<^sup>*\<^sup>* \<lparr>cs_fs = fs, cs_threads = []\<rparr> ?st"
    by (rule mixing_schedule [OF assms(2-4,6) wA eB wB kB kA])
  moreover have "GetAgentCert env s a fsD = Inr (?cert cB, ?key kA)"
    using assms(10) cert_loc_key_loc [OF plain, of s] by (simp add: GetAgentCert_def os_ReadFile_def D' go_map)
  moreover have "x_PublicKey cB \<noteq> Some kA" using issue_agent_cert_ok [OF assms(4)] assms(5) by auto
  ultimately show ?thesis by (intro exI [of _ ?st]) simp
qed

theorem concurrent_creation_mixes_pairs_witness:
  "\<exists>st cB. (create_step os_fine example_service ''a'')\<^sup>*\<^sup>* \<lparr>cs_fs = example_fs, cs_threads = []\<rparr> st \<and>
     GetAgentCert os_fine example_service ''a'' (cs_fs st) =
       Inr (PEM ''CERTIFICATE'' (CertDER cB), PEM ''PRIVATE KEY'' (PKCS8DER (RSAKey 3))) \<and> x_PublicKey cB \<noteq> Some 3"
proof -
  have v: "ValidateAgentID ''a'' = None" "\<not> AgentCertExists os_fine example_service ''a'' example_fs" by code_simp+
  have "case issue_agent_cert os_fine (gen_example 3) example_service ''a'' example_fs of Inr (c, k) \<Rightarrow> k = 3 | Inl _ \<Rightarrow> False"
    "case issue_agent_cert os_fine (gen_example 4) example_service ''a'' example_fs of Inr (c, k) \<Rightarrow> k = 4 | Inl _ \<Rightarrow> False"
    by code_simp+
  then obtain cA cB where iss: "issue_agent_cert os_fine (gen_example 3) example_service ''a'' example_fs = Inr (cA, 3)"
      "issue_agent_cert os_fine (gen_example 4) example_service ''a'' example_fs = Inr (cB, 4)"
    by (auto split: sum.splits)
  let ?e = "ensureDirectory os_fine (GetAgentCertPath example_service ''a'') example_fs"
  have "fst ?e = None" "\<not> is_dir (snd ?e) (cert_loc example_service ''a'')" "\<not> is_dir (snd ?e) (key_loc example_service ''a'')"
    by code_simp+
  then obtain fs1 where e: "?e = (None, fs1)" "\<not> is_dir fs1 (cert_loc example_service ''a'')" "\<not> is_dir fs1 (key_loc example_service ''a'')"
    by (cases ?e) simp
  from concurrent_creation_mixes_pairs [OF v iss _ e] show ?thesis by auto
qed

end
