(* ===== verification/Agent_Provision.thy ===== *)
theory Agent_Provision
  imports Cert_Handler Grpc_Client
begin

text \<open>
  \<^verbatim>\<open>cmd/silo-proxy-agent/provision.go\<close>: the command that exchanges a provision key for certificates and stores them.
  The parser of Go's \<^verbatim>\<open>flag\<close> package is modelled as far as the command uses it; posting the
  request is an argument.

  The last part joins the two ends: the certificate files of both machines as the TLS settings of the
  gRPC server and of the agent.
\<close>

section \<open>Command line\<close>

record provision_flags =
  pf_server :: string
  pf_key :: string
  pf_certDir :: string
  pf_insecure :: bool

definition default_flags :: provision_flags where
  "default_flags = \<lparr>pf_server = '''', pf_key = '''', pf_certDir = ''./certs'', pf_insecure = False\<rparr>"

definition ParseBool :: "string \<Rightarrow> bool option" where
  "ParseBool s =
     (if s \<in> set [''1'', ''t'', ''T'', ''true'', ''TRUE'', ''True''] then Some True
      else if s \<in> set [''0'', ''f'', ''F'', ''false'', ''FALSE'', ''False''] then Some False
      else None)"

fun set_flag :: "string \<Rightarrow> string \<Rightarrow> provision_flags \<Rightarrow> provision_flags option" where
  "set_flag name v f =
     (if name = ''server'' then Some (f\<lparr>pf_server := v\<rparr>)
      else if name = ''key'' then Some (f\<lparr>pf_key := v\<rparr>)
      else if name = ''cert-dir'' then Some (f\<lparr>pf_certDir := v\<rparr>)
      else None)"

text \<open>
  A flag is written with one or two dashes, its value after an equals sign or, unless it is boolean, in
  the next argument.  \<open>Inl\<close> is the exit status with which \<^verbatim>\<open>ExitOnError\<close> ends the process.
\<close>

fun flag_Parse :: "string list \<Rightarrow> provision_flags \<Rightarrow> int + provision_flags" where
  "flag_Parse [] f = Inr f"
| "flag_Parse (s # args) f =
     (if length s < 2 \<or> hd s \<noteq> CHR ''-'' \<or> s = ''--'' then Inr f
      else
        let body = (if s ! 1 = CHR ''-'' then drop 2 s else drop 1 s);
            name = takeWhile (\<lambda>c. c \<noteq> CHR ''='') body;
            val = (if CHR ''='' \<in> set body then Some (drop (Suc (length name)) body) else None) in
        if body = [] \<or> hd body = CHR ''-'' \<or> hd body = CHR ''='' then Inl 2
        else if name = ''insecure'' then
          (case val of
             None \<Rightarrow> flag_Parse args (f\<lparr>pf_insecure := True\<rparr>)
           | Some v \<Rightarrow> (case ParseBool v of None \<Rightarrow> Inl 2 | Some b \<Rightarrow> flag_Parse args (f\<lparr>pf_insecure := b\<rparr>)))
        else if set_flag name '''' f = None then Inl (if name = ''help'' \<or> name = ''h'' then 0 else 2)
        else
          (case val of
             Some v \<Rightarrow> flag_Parse args (the (set_flag name v f))
           | None \<Rightarrow> (case args of [] \<Rightarrow> Inl 2 | v # args' \<Rightarrow> flag_Parse args' (the (set_flag name v f)))))"

section \<open>Provisioning\<close>

datatype provision_error =
    ProcessExit int
  | ServerRequired
  | KeyRequired
  | FailedToConnect
  | FailedToReadResponse
  | ProvisioningFailed int
  | FailedToParseResponse
  | FailedToCreateDirectory string
  | FailedToWriteCert
  | FailedToWriteKey
  | FailedToWriteCA

text \<open>The answer to the request: its status and what \<^verbatim>\<open>json.Unmarshal\<close> makes of its body.\<close>

datatype post_result = NoConnection | BrokenBody | Reply int "ProvisionResponse option"

text \<open>What the command prints for the configuration file.\<close>

record agent_settings =
  as_AgentID :: string
  as_CertFile :: string
  as_KeyFile :: string
  as_CAFile :: string

definition save_response :: "os_env \<Rightarrow> string \<Rightarrow> ProvisionResponse \<Rightarrow> file_system \<Rightarrow>
    (provision_error + agent_settings) \<times> file_system" where
  "save_response env certDir resp fs =
     (let agentCertDir = Join [certDir, ''agents'', pr_AgentID resp];
          caCertDir = Join [certDir, ''ca'']
      in case os_MkdirAll env agentCertDir fs of
        (False, fs1) \<Rightarrow> (Inl (FailedToCreateDirectory agentCertDir), fs1)
      | (True, fs1) \<Rightarrow>
     (case os_MkdirAll env caCertDir fs1 of
        (False, fs2) \<Rightarrow> (Inl (FailedToCreateDirectory caCertDir), fs2)
      | (True, fs2) \<Rightarrow>
          let certPath = Join [agentCertDir, pr_AgentID resp @ ''-cert.pem''];
              keyPath = Join [agentCertDir, pr_AgentID resp @ ''-key.pem''];
              caPath = Join [caCertDir, ''ca-cert.pem'']
          in
     (case os_WriteFile env certPath (pr_CertPEM resp) fs2 of
        (False, fs3) \<Rightarrow> (Inl FailedToWriteCert, fs3)
      | (True, fs3) \<Rightarrow>
     (case os_WriteFile env keyPath (pr_KeyPEM resp) fs3 of
        (False, fs4) \<Rightarrow> (Inl FailedToWriteKey, fs4)
      | (True, fs4) \<Rightarrow>
     (case os_WriteFile env caPath (pr_CACertPEM resp) fs4 of
        (False, fs5) \<Rightarrow> (Inl FailedToWriteCA, fs5)
      | (True, fs5) \<Rightarrow>
          (Inr \<lparr>as_AgentID = pr_AgentID resp, as_CertFile = certPath, as_KeyFile = keyPath, as_CAFile = caPath\<rparr>, fs5))))))"

definition runProvision :: "os_env \<Rightarrow> (string \<Rightarrow> bool \<Rightarrow> string \<Rightarrow> post_result) \<Rightarrow> string list \<Rightarrow> file_system \<Rightarrow>
    (provision_error + agent_settings) \<times> file_system" where
  "runProvision env post args fs =
     (case flag_Parse args default_flags of
        Inl code \<Rightarrow> (Inl (ProcessExit code), fs)
      | Inr f \<Rightarrow>
          if pf_server f = '''' then (Inl ServerRequired, fs)
          else if pf_key f = '''' then (Inl KeyRequired, fs)
          else
            case post (pf_server f @ ''/api/v1/provision'') (pf_insecure f) (pf_key f) of
              NoConnection \<Rightarrow> (Inl FailedToConnect, fs)
            | BrokenBody \<Rightarrow> (Inl FailedToReadResponse, fs)
            | Reply st body \<Rightarrow>
                if st \<noteq> 200 then (Inl (ProvisioningFailed st), fs)
                else
                  case body of
                    None \<Rightarrow> (Inl FailedToParseResponse, fs)
                  | Some provResp \<Rightarrow> save_response env (pf_certDir f) provResp fs)"

section \<open>Certificate files as TLS settings\<close>

text \<open>
  \<^verbatim>\<open>tls.LoadX509KeyPair\<close> and \<^verbatim>\<open>AppendCertsFromPEM\<close> over the file system.  The standard library reads more
  kinds of keys than the program writes; \<open>key_env\<close> says what it makes of the others.
\<close>

record key_env =
  ke_parse :: "string \<Rightarrow> private_key option"
  ke_match :: "Certificate \<Rightarrow> nat \<Rightarrow> bool"

fun parsePrivateKey :: "key_env \<Rightarrow> der \<Rightarrow> private_key option" where
  "parsePrivateKey ke (PKCS8DER k) = Some k"
| "parsePrivateKey ke (CertDER c) = None"
| "parsePrivateKey ke (OtherDER s) = ke_parse ke s"

fun key_matches :: "key_env \<Rightarrow> Certificate \<Rightarrow> private_key \<Rightarrow> bool" where
  "key_matches ke c (RSAKey k) = (x_PublicKey c = Some k)"
| "key_matches ke c (OtherKey n) = ke_match ke c n"

definition X509KeyPair :: "key_env \<Rightarrow> file_data \<Rightarrow> file_data \<Rightarrow> (Certificate \<times> private_key) option" where
  "X509KeyPair ke certPEM keyPEM =
     (case (certPEM, keyPEM) of
        (PEM ct cd, PEM kt kd) \<Rightarrow>
          if ct \<noteq> ''CERTIFICATE'' \<or> \<not> (kt = ''PRIVATE KEY'' \<or> suffix '' PRIVATE KEY'' kt) then None
          else
            (case (ParseCertificate cd, parsePrivateKey ke kd) of
               (Some c, Some k) \<Rightarrow> if key_matches ke c k then Some (c, k) else None
             | _ \<Rightarrow> None)
      | _ \<Rightarrow> None)"

fun pem_pool :: "file_data \<Rightarrow> Certificate list option" where
  "pem_pool (PEM t (CertDER c)) = (if t = ''CERTIFICATE'' then Some [c] else None)"
| "pem_pool _ = None"

definition fs_tls_env :: "key_env \<Rightarrow> os_env \<Rightarrow> file_system \<Rightarrow> (Certificate \<times> private_key, Certificate list, file_data) tls_env" where
  "fs_tls_env ke env fs =
     \<lparr>LoadX509KeyPair = \<lambda>certFile keyFile.
        (case (os_ReadFile env certFile fs, os_ReadFile env keyFile fs) of
           (Some c, Some k) \<Rightarrow> X509KeyPair ke c k
         | _ \<Rightarrow> None),
      ReadFile = \<lambda>f. os_ReadFile env f fs,
      AppendCertsFromPEM = pem_pool\<rparr>"

section \<open>What the command stores\<close>

lemma plain_names: "plain ''agents''" "plain ''ca''" "plain ''ca-cert.pem''"
  by (simp_all add: plain_def)

lemma path_parts_Join3:
  assumes "plain b" "plain c"
  shows "path_parts (Join [d, b, c]) = (fst (path_parts d), snd (path_parts d) @ [b, c])"
proof -
  have "path_parts (b @ CHR ''/'' # c) = (fst (path_parts b), snd (path_parts b) @ [c])"
    using assms by (intro path_parts_slash) (simp_all add: plain_def)
  moreover have "path_parts ((d @ CHR ''/'' # b) @ CHR ''/'' # c) = (fst (path_parts d), snd (path_parts d) @ [b, c])" if "d \<noteq> []"
    using path_parts_slash [OF _ assms(2), of "d @ CHR ''/'' # b"] path_parts_slash [OF that assms(1)] by simp
  ultimately show ?thesis
    using assms by (cases "d = []") (simp_all add: Join_def plain_parts, simp add: plain_def)
qed

lemma agent_file_locations:
  assumes "plain a" "path_parts d = (r, cs)"
  shows "path_parts (Join [Join [d, ''agents'', a], a @ ''-cert.pem'']) = (r, cs @ [''agents'', a, a @ ''-cert.pem''])"
    "path_parts (Join [Join [d, ''agents'', a], a @ ''-key.pem'']) = (r, cs @ [''agents'', a, a @ ''-key.pem''])"
    "path_parts (Join [Join [d, ''ca''], ''ca-cert.pem'']) = (r, cs @ [''ca'', ''ca-cert.pem''])"
  using path_parts_Join [OF plain_pem(1) [OF assms(1)]] path_parts_Join [OF plain_pem(2) [OF assms(1)]]
    path_parts_Join [OF plain_names(3)] path_parts_Join [OF plain_names(2)] path_parts_Join3 [OF plain_names(1) assms(1)] assms(2)
  by simp_all

lemma save_response_ok:
  assumes "plain (pr_AgentID resp)" "path_parts d = (r, cs)" "save_response env d resp fs = (Inr st, fs')"
  defines "a \<equiv> pr_AgentID resp"
  shows "as_AgentID st = a"
    "path_parts (as_CertFile st) = (r, cs @ [''agents'', a, a @ ''-cert.pem''])"
    "path_parts (as_KeyFile st) = (r, cs @ [''agents'', a, a @ ''-key.pem''])"
    "path_parts (as_CAFile st) = (r, cs @ [''ca'', ''ca-cert.pem''])"
    "map_of (fs_files fs') (path_parts (as_CertFile st)) = Some (pr_CertPEM resp)"
    "map_of (fs_files fs') (path_parts (as_KeyFile st)) = Some (pr_KeyPEM resp)"
    "map_of (fs_files fs') (path_parts (as_CAFile st)) = Some (pr_CACertPEM resp)"
    "l \<notin> {path_parts (as_CertFile st), path_parts (as_KeyFile st), path_parts (as_CAFile st)} \<Longrightarrow>
       map_of (fs_files fs') l = map_of (fs_files fs) l"
proof -
  let ?cert = "Join [Join [d, ''agents'', a], a @ ''-cert.pem'']" and ?key = "Join [Join [d, ''agents'', a], a @ ''-key.pem'']"
    and ?ca = "Join [Join [d, ''ca''], ''ca-cert.pem'']"
  obtain fs1 fs2 fs3 fs4 where run:
      "os_MkdirAll env (Join [d, ''agents'', a]) fs = (True, fs1)" "os_MkdirAll env (Join [d, ''ca'']) fs1 = (True, fs2)"
      "os_WriteFile env ?cert (pr_CertPEM resp) fs2 = (True, fs3)" "os_WriteFile env ?key (pr_KeyPEM resp) fs3 = (True, fs4)"
      "os_WriteFile env ?ca (pr_CACertPEM resp) fs4 = (True, fs')"
    and st: "st = \<lparr>as_AgentID = a, as_CertFile = ?cert, as_KeyFile = ?key, as_CAFile = ?ca\<rparr>"
    using assms(3) by (auto simp: save_response_def a_def Let_def split: prod.splits bool.splits)
  note L = agent_file_locations [OF assms(1,2), folded a_def]
  note W1 = WriteFile_frame [OF run(3)] and W2 = WriteFile_frame [OF run(4)] and W3 = WriteFile_frame [OF run(5)]
  show "as_AgentID st = a"
    "path_parts (as_CertFile st) = (r, cs @ [''agents'', a, a @ ''-cert.pem''])"
    "path_parts (as_KeyFile st) = (r, cs @ [''agents'', a, a @ ''-key.pem''])"
    "path_parts (as_CAFile st) = (r, cs @ [''ca'', ''ca-cert.pem''])"
    using L by (simp_all add: st)
  have ne: "path_parts ?cert \<noteq> path_parts ?key" "path_parts ?cert \<noteq> path_parts ?ca" "path_parts ?key \<noteq> path_parts ?ca"
    unfolding L by simp_all
  show "map_of (fs_files fs') (path_parts (as_CertFile st)) = Some (pr_CertPEM resp)"
    using W1(3) W2(2) [OF ne(1)] W3(2) [OF ne(2)] by (simp add: st)
  show "map_of (fs_files fs') (path_parts (as_KeyFile st)) = Some (pr_KeyPEM resp)"
    using W2(3) W3(2) [OF ne(3)] by (simp add: st)
  show "map_of (fs_files fs') (path_parts (as_CAFile st)) = Some (pr_CACertPEM resp)"
    using W3(3) by (simp add: st)
  show "map_of (fs_files fs') l = map_of (fs_files fs) l"
    if "l \<notin> {path_parts (as_CertFile st), path_parts (as_KeyFile st), path_parts (as_CAFile st)}"
    using that W1(2) [of l] W2(2) [of l] W3(2) [of l] MkdirAll_frame(1) [OF run(1)] MkdirAll_frame(1) [OF run(2)]
    by (simp add: st)
qed

lemma runProvision_ok:
  assumes "runProvision env post args fs = (Inr st, fs')"
  obtains f resp where "flag_Parse args default_flags = Inr f" "pf_server f \<noteq> ''''" "pf_key f \<noteq> ''''"
    and "post (pf_server f @ ''/api/v1/provision'') (pf_insecure f) (pf_key f) = Reply 200 (Some resp)"
    and "save_response env (pf_certDir f) resp fs = (Inr st, fs')"
  using assms by (auto simp: runProvision_def split: sum.splits if_splits post_result.splits option.splits)

section \<open>Loading the files\<close>

lemma X509KeyPair_issued:
  "x_PublicKey c = Some k \<Longrightarrow>
   X509KeyPair ke (PEM ''CERTIFICATE'' (CertDER c)) (PEM ''PRIVATE KEY'' (PKCS8DER (RSAKey k))) = Some (c, RSAKey k)"
  by (simp add: X509KeyPair_def)

lemma X509KeyPair_mixed:
  "x_PublicKey c \<noteq> Some k \<Longrightarrow>
   X509KeyPair ke (PEM ''CERTIFICATE'' (CertDER c)) (PEM ''PRIVATE KEY'' (PKCS8DER (RSAKey k))) = None"
  by (simp add: X509KeyPair_def)

lemma client_credentials_issued:
  assumes "os_ReadFile env certFile fs = Some (PEM ''CERTIFICATE'' (CertDER c))" "x_PublicKey c = Some k"
    and "os_ReadFile env keyFile fs = Some (PEM ''PRIVATE KEY'' (PKCS8DER (RSAKey k)))"
    and "os_ReadFile env caFile fs = Some (PEM ''CERTIFICATE'' (CertDER ca))"
  shows "\<exists>conf. LoadClientCredentials (fs_tls_env ke env fs) certFile keyFile caFile name = Inr conf \<and>
    tls_Certificates conf = [(c, RSAKey k)] \<and> tls_RootCAs conf = Some [ca]"
  using assms by (simp add: LoadClientCredentials_def fs_tls_env_def X509KeyPair_issued Let_def)

lemma server_credentials_issued:
  assumes "os_ReadFile env certFile fs = Some (PEM ''CERTIFICATE'' (CertDER c))" "x_PublicKey c = Some k"
    and "os_ReadFile env keyFile fs = Some (PEM ''PRIVATE KEY'' (PKCS8DER (RSAKey k)))"
    and "os_ReadFile env caFile fs = Some (PEM ''CERTIFICATE'' (CertDER ca))"
  shows "\<exists>conf. LoadServerCredentials (fs_tls_env ke env fs) certFile keyFile caFile auth = Inr conf \<and>
    tls_Certificates conf = [(c, RSAKey k)] \<and> tls_ClientAuth conf = auth \<and>
    tls_ClientCAs conf = (if auth = NoClientCert then None else Some [ca])"
  using assms by (simp add: LoadServerCredentials_def fs_tls_env_def X509KeyPair_issued Let_def)

section \<open>Properties\<close>

text \<open>How an answer of the server reaches the command; an error body has none of the expected fields.\<close>

fun post_reply :: "ProvisionResponse api_response \<Rightarrow> post_result" where
  "post_reply (st, Inr resp) = Reply st (Some resp)"
| "post_reply (st, Inl err) =
     Reply st (Some \<lparr>pr_AgentID = '''', pr_CertPEM = Raw '''', pr_KeyPEM = Raw '''', pr_CACertPEM = Raw ''''\<rparr>)"

lemma CreateProvisionKey_ok:
  assumes "CreateProvisionKey rnd t0 (Inr a) ks = ((201, Inr kr), ks1)"
  obtains pk where "ValidateAgentID a = None" "cpk_Key kr = pk_Key pk" "pk_AgentID pk = a"
    "map_of (ks_keys ks1) (pk_Key pk) = Some pk"
proof -
  obtain b pk where "ValidateAgentID a = None" "Create (Some b) t0 a ks = (Inr pk, ks1)" "cpk_Key kr = pk_Key pk"
    using assms
    by (auto simp: CreateProvisionKey_def Create_def Let_def split: option.splits prod.splits sum.splits)
  then show thesis using that [of pk] by (auto simp: Create_def Let_def go_map)
qed

lemma Provision_issue:
  assumes "keys_valid ks" "Provision env env2 g now (Some s) (Inr key) ks fs = ((200, Inr body), ks', fs')"
    and "map_of (ks_keys ks) key = Some pk" "pk_AgentID pk = a"
    and "cert_loc s a \<notin> path_parts ` set (config_files s)" "key_loc s a \<notin> path_parts ` set (config_files s)"
  obtains c k where "issue_agent_cert env g s a fs = Inr (c, k)" "plain a" "ks' = MarkUsed key ks"
    and "body = \<lparr>pr_AgentID = a, pr_CertPEM = PEM ''CERTIFICATE'' (CertDER c),
                 pr_KeyPEM = PEM ''PRIVATE KEY'' (PKCS8DER (RSAKey k)), pr_CACertPEM = the (os_ReadFile env2 (svc_CaCertPath s) fs)\<rparr>"
    and "\<And>p env'. p \<in> set (config_files s) \<Longrightarrow> os_ReadFile env' p fs' = os_ReadFile env' p fs"
proof -
  obtain pk' c k ca where P: "Validate now key ks = Inr pk'" "plain (pk_AgentID pk')"
      "GenerateAgentCert env g s (pk_AgentID pk') fs = (Inr (c, k), fs')" "GetCACert env2 s fs' = Inr ca"
      "body = \<lparr>pr_AgentID = pk_AgentID pk', pr_CertPEM = PEM ''CERTIFICATE'' (CertDER c),
               pr_KeyPEM = PEM ''PRIVATE KEY'' (PKCS8DER (RSAKey k)), pr_CACertPEM = ca\<rparr>" "ks' = MarkUsed key ks"
    by (rule Provision_success [OF assms(1,2)])
  have a: "pk_AgentID pk' = a" using P(1) assms(3,4) by (auto simp: Validate_def split: if_splits)
  note F = GenerateAgentCert_frame [OF P(2,3), unfolded a]
  have keep: "os_ReadFile env' p fs' = os_ReadFile env' p fs" if "p \<in> set (config_files s)" for p env'
  proof -
    have "path_parts p \<noteq> cert_loc s a" "path_parts p \<noteq> key_loc s a" using assms(5,6) that by (metis imageI)+
    from F(1) [OF this] show ?thesis by (simp add: os_ReadFile_def)
  qed
  have "ca = the (os_ReadFile env2 (svc_CaCertPath s) fs)"
    using P(4) keep [of "svc_CaCertPath s" env2] by (auto simp: GetCACert_def config_files_def split: option.splits)
  with that [of c k] F(3) P(2,5,6) a keep show thesis by blast
qed

lemma Provision_error_status:
  "Provision env env2 g now svc req ks fs = ((st, Inl e), ks', fs') \<Longrightarrow> st \<noteq> 200"
  by (auto simp: Provision_def prov_validate_def prov_generate_def prov_finish_def CertToPEM_def KeyToPEM_def Let_def
      split: sum.splits option.splits prod.splits)

lemma runProvision_reply:
  assumes "Provision env env2 g now svc req ks fs = (resp, ks', fs')" "flag_Parse args default_flags = Inr f" "pf_key f = key"
    and "runProvision aenv (\<lambda>url insecure k. if k = key then post_reply resp else NoConnection) args afs = (Inr st, afs')"
  obtains body where "resp = (200, Inr body)" "save_response aenv (pf_certDir f) body afs = (Inr st, afs')"
proof (rule runProvision_ok [OF assms(4)])
  fix f' r assume r: "flag_Parse args default_flags = Inr f'" "save_response aenv (pf_certDir f') r afs = (Inr st, afs')"
    "(if pf_key f' = key then post_reply resp else NoConnection) = Reply 200 (Some r)"
  obtain n b where resp: "resp = (n, b)" by (cases resp)
  with r(1,3) assms(2,3) have "post_reply (n, b) = Reply 200 (Some r)" by simp
  moreover have "b = Inl e \<Longrightarrow> n \<noteq> 200" for e using Provision_error_status assms(1) resp by blast
  ultimately show thesis using that [of r] r(1,2) assms(2) resp by (cases b) auto
qed

lemma ensureCertificates_fresh:
  assumes "config_ok s" "\<And>p. \<not> os_read_err env p" "ensureCertificates env gCA gSrv s fs = (None, fs1)"
    and "\<not> (fileExists env (svc_CaCertPath s) fs \<and> fileExists env (svc_CaKeyPath s) fs)"
    and "\<not> (fileExists env (svc_ServerCertPath s) fs \<and> fileExists env (svc_ServerKeyPath s) fs)"
  obtains ca caKey sc sk where "loadCA env (svc_CaCertPath s) (svc_CaKeyPath s) fs1 = Inr (ca, caKey)"
    "os_ReadFile env (svc_CaCertPath s) fs1 = Some (PEM ''CERTIFICATE'' (CertDER ca))"
    "\<forall>now. ge_notBefore gCA \<le> now \<and> now \<le> ge_notAfter gCA + 10 * 365 * 24 * hour \<longrightarrow> proper_ca now ca"
    "os_ReadFile env (svc_ServerCertPath s) fs1 = Some (PEM ''CERTIFICATE'' (CertDER sc))"
    "os_ReadFile env (svc_ServerKeyPath s) fs1 = Some (PEM ''PRIVATE KEY'' (PKCS8DER (RSAKey sk)))" "x_PublicKey sc = Some sk"
    "\<forall>now. proper_ca now ca \<and> x_NotBefore sc \<le> now \<and> now \<le> x_NotAfter sc \<longrightarrow> verifies now ExtKeyUsageServerAuth ca sc"
  using ensureCertificates_chain [OF assms(1) assms(2) assms(2) assms(3)] assms(2,4,5) by (auto simp: os_ReadFile_def)

text \<open>
  C7 (safety): an agent provisioned by a freshly set up server can open a mutually authenticated connection.
  If the command ends successfully with the key that an administrator created for the agent, then
  both sides can load the files they were told to use, the certificate the agent presents names it, and
  as long as the certificates are valid each side's certificate verifies against the authority that the other
  side trusts, where host names are not compared.  The key is used up.  The configured files must be different and
  none of them a file of the agent, and files must be readable on both sides.
\<close>

theorem mutual_tls_after_provisioning:
  assumes "config_ok s" "keys_valid ks" "\<And>p. \<not> os_read_err env p" "\<And>p. \<not> os_read_err aenv p"
    and "ensureCertificates env gCA gSrv s fs = (None, fs1)"
    and "\<not> (fileExists env (svc_CaCertPath s) fs \<and> fileExists env (svc_CaKeyPath s) fs)"
    and "\<not> (fileExists env (svc_ServerCertPath s) fs \<and> fileExists env (svc_ServerKeyPath s) fs)"
    and "CreateProvisionKey rnd t0 (Inr a) ks = ((201, Inr kr), ks1)"
    and "cert_loc s a \<notin> path_parts ` set (config_files s)" "key_loc s a \<notin> path_parts ` set (config_files s)"
    and "Provision env env g t1 (Some s) (Inr (cpk_Key kr)) ks1 fs1 = (resp, ks2, fs2)"
    and "flag_Parse args default_flags = Inr f" "pf_key f = cpk_Key kr"
    and "runProvision aenv (\<lambda>url insecure key. if key = cpk_Key kr then post_reply resp else NoConnection) args afs = (Inr st, afs')"
  shows "\<exists>ca c k sc sk cconf sconf. as_AgentID st = a \<and> n_CommonName (x_Subject c) = a \<and>
    LoadServerCredentials (fs_tls_env ke env fs2) (svc_ServerCertPath s) (svc_ServerKeyPath s) (svc_CaCertPath s)
      RequireAndVerifyClientCert = Inr sconf \<and>
    tls_Certificates sconf = [(sc, RSAKey sk)] \<and> tls_ClientCAs sconf = Some [ca] \<and>
    LoadClientCredentials (fs_tls_env ke aenv afs') (as_CertFile st) (as_KeyFile st) (as_CAFile st) name = Inr cconf \<and>
    tls_Certificates cconf = [(c, RSAKey k)] \<and> tls_RootCAs cconf = Some [ca] \<and>
    (\<forall>now. ge_notBefore gCA \<le> now \<and> now \<le> ge_notAfter gCA + 10 * 365 * 24 * hour \<longrightarrow>
       (x_NotBefore sc \<le> now \<and> now \<le> x_NotAfter sc \<longrightarrow> verifies now ExtKeyUsageServerAuth ca sc) \<and>
       (x_NotBefore c \<le> now \<and> now \<le> x_NotAfter c \<longrightarrow> verifies now ExtKeyUsageClientAuth ca c)) \<and>
    isl (Validate t2 (cpk_Key kr) ks2)"
proof -
  obtain pk where pk: "cpk_Key kr = pk_Key pk" "pk_AgentID pk = a" "map_of (ks_keys ks1) (cpk_Key kr) = Some pk"
    by (rule CreateProvisionKey_ok [OF assms(8)]) auto
  have valid: "keys_valid ks1" using keys_valid_ops(1) [OF assms(2)] assms(8) by (metis snd_conv)
  obtain body where run: "resp = (200, Inr body)" "save_response aenv (pf_certDir f) body afs = (Inr st, afs')"
    by (rule runProvision_reply [OF assms(11-14)])
  obtain c k where I: "issue_agent_cert env g s a fs1 = Inr (c, k)" "plain a" "ks2 = MarkUsed (cpk_Key kr) ks1"
      "body = \<lparr>pr_AgentID = a, pr_CertPEM = PEM ''CERTIFICATE'' (CertDER c), pr_KeyPEM = PEM ''PRIVATE KEY'' (PKCS8DER (RSAKey k)),
               pr_CACertPEM = the (os_ReadFile env (svc_CaCertPath s) fs1)\<rparr>"
      "\<And>p env'. p \<in> set (config_files s) \<Longrightarrow> os_ReadFile env' p fs2 = os_ReadFile env' p fs1"
    by (rule Provision_issue [OF valid assms(11) [unfolded run(1)] pk(3,2) assms(9,10)]) blast
  obtain ca caKey sc sk where S: "loadCA env (svc_CaCertPath s) (svc_CaKeyPath s) fs1 = Inr (ca, caKey)"
      "os_ReadFile env (svc_CaCertPath s) fs1 = Some (PEM ''CERTIFICATE'' (CertDER ca))"
      "\<forall>now. ge_notBefore gCA \<le> now \<and> now \<le> ge_notAfter gCA + 10 * 365 * 24 * hour \<longrightarrow> proper_ca now ca"
      "os_ReadFile env (svc_ServerCertPath s) fs1 = Some (PEM ''CERTIFICATE'' (CertDER sc))"
      "os_ReadFile env (svc_ServerKeyPath s) fs1 = Some (PEM ''PRIVATE KEY'' (PKCS8DER (RSAKey sk)))" "x_PublicKey sc = Some sk"
      "\<forall>now. proper_ca now ca \<and> x_NotBefore sc \<le> now \<and> now \<le> x_NotAfter sc \<longrightarrow> verifies now ExtKeyUsageServerAuth ca sc"
    by (rule ensureCertificates_fresh [OF assms(1,3,5-7)])
  have C: "n_CommonName (x_Subject c) = a" "x_PublicKey c = Some k"
      "\<forall>now. proper_ca now ca \<and> x_NotBefore c \<le> now \<and> now \<le> x_NotAfter c \<longrightarrow> verifies now ExtKeyUsageClientAuth ca c"
    using issue_agent_cert_ok [OF I(1)] S(1) by auto
  obtain r cs where d: "path_parts (pf_certDir f) = (r, cs)" by (cases "path_parts (pf_certDir f)")
  note A = save_response_ok [OF _ d run(2)]
  have files: "as_AgentID st = a" "os_ReadFile aenv (as_CertFile st) afs' = Some (PEM ''CERTIFICATE'' (CertDER c))"
    "os_ReadFile aenv (as_KeyFile st) afs' = Some (PEM ''PRIVATE KEY'' (PKCS8DER (RSAKey k)))"
    "os_ReadFile aenv (as_CAFile st) afs' = Some (PEM ''CERTIFICATE'' (CertDER ca))"
    using A(1,5-7) I(2,4) S(2) assms(4) by (simp_all add: os_ReadFile_def)
  have "isl (Validate t2 (cpk_Key kr) ks2)" using pk(3) I(3) by (simp add: Validate_def MarkUsed_def go_map)
  moreover note client_credentials_issued [OF files(2) C(2) files(3,4), of ke name]
  moreover have "\<exists>conf. LoadServerCredentials (fs_tls_env ke env fs2) (svc_ServerCertPath s) (svc_ServerKeyPath s) (svc_CaCertPath s)
      RequireAndVerifyClientCert = Inr conf \<and> tls_Certificates conf = [(sc, RSAKey sk)] \<and> tls_ClientCAs conf = Some [ca]"
    using server_credentials_issued [of env "svc_ServerCertPath s" fs2 sc sk "svc_ServerKeyPath s" "svc_CaCertPath s" ca ke
        RequireAndVerifyClientCert] S(2,4-6) I(5) by (auto simp: config_files_def)
  ultimately show ?thesis using files(1) C S(3,7) by blast
qed

definition example_keys :: key_env where
  "example_keys = \<lparr>ke_parse = \<lambda>_. None, ke_match = \<lambda>_ _. False\<rparr>"

theorem mutual_tls_after_provisioning_witness:
  "\<exists>resp ks2 fs2 st afs' sconf cconf ca sc sk.
     Provision os_fine os_fine (gen_example 3) 5 (Some example_service) (Inr ''sk_7879'') example_ks example_fs = (resp, ks2, fs2) \<and>
     runProvision os_fine (\<lambda>url insecure key. if key = ''sk_7879'' then post_reply resp else NoConnection)
       [''--server=https://silo'', ''-key'', ''sk_7879''] empty_fs = (Inr st, afs') \<and>
     LoadServerCredentials (fs_tls_env example_keys os_fine fs2) (svc_ServerCertPath example_service)
       (svc_ServerKeyPath example_service) (svc_CaCertPath example_service) RequireAndVerifyClientCert = Inr sconf \<and>
     LoadClientCredentials (fs_tls_env example_keys os_fine afs') (as_CertFile st) (as_KeyFile st) (as_CAFile st) '''' = Inr cconf \<and>
     tls_Certificates sconf = [(sc, sk)] \<and> tls_ClientCAs sconf = Some [ca] \<and> tls_RootCAs cconf = Some [ca]"
proof -
  let ?args = "[''--server=https://silo'', ''-key'', ''sk_7879'']" and ?f = "\<lparr>pf_server = ''https://silo'', pf_key = ''sk_7879'', pf_certDir = ''./certs'', pf_insecure = False\<rparr>"
  have ks: "keys_valid (NewKeyStore (24 * hour))" by simp
  have "fst (ensureCertificates os_fine (gen_example 1) (gen_example 2) example_service empty_fs) = None" by code_simp
  then have start: "ensureCertificates os_fine (gen_example 1) (gen_example 2) example_service empty_fs = (None, example_fs)"
    by (simp add: example_fs_def prod_eq_iff)
  have fresh: "\<not> (fileExists os_fine (svc_CaCertPath example_service) empty_fs \<and> fileExists os_fine (svc_CaKeyPath example_service) empty_fs)"
    "\<not> (fileExists os_fine (svc_ServerCertPath example_service) empty_fs \<and> fileExists os_fine (svc_ServerKeyPath example_service) empty_fs)"
    by code_simp+
  let ?create = "CreateProvisionKey (Some ''xy'') 0 (Inr ''agent-1'') (NewKeyStore (24 * hour))"
  have "case fst ?create of (n, Inr kr) \<Rightarrow> n = 201 \<and> cpk_Key kr = ''sk_7879'' | _ \<Rightarrow> False" by code_simp
  then obtain kr where create: "?create = ((201, Inr kr), example_ks)" and key: "cpk_Key kr = ''sk_7879''"
    by (cases ?create; cases "snd (fst ?create)") (auto simp: example_ks_def)
  have locs: "cert_loc example_service ''agent-1'' \<notin> path_parts ` set (config_files example_service)"
    "key_loc example_service ''agent-1'' \<notin> path_parts ` set (config_files example_service)" by code_simp+
  have flags: "flag_Parse ?args default_flags = Inr ?f" "pf_key ?f = cpk_Key kr" by code_simp (simp add: key)
  obtain resp ks2 fs2 where prov: "Provision os_fine os_fine (gen_example 3) 5 (Some example_service) (Inr (cpk_Key kr)) example_ks example_fs
      = (resp, ks2, fs2)" by (metis surj_pair)
  let ?run = "\<lambda>resp. runProvision os_fine (\<lambda>url insecure key. if key = ''sk_7879'' then post_reply resp else NoConnection) ?args empty_fs"
  have "\<not> isl (fst (?run (fst (Provision os_fine os_fine (gen_example 3) 5 (Some example_service) (Inr ''sk_7879'') example_ks example_fs))))"
    by code_simp
  then have "\<not> isl (fst (?run resp))" unfolding prov [unfolded key] fst_conv .
  then obtain st afs' where run: "?run resp = (Inr st, afs')"
    by (cases "?run resp"; cases "fst (?run resp)") auto
  then have "runProvision os_fine (\<lambda>url insecure key. if key = cpk_Key kr then post_reply resp else NoConnection) ?args empty_fs = (Inr st, afs')"
    unfolding key .
  from mutual_tls_after_provisioning [OF example_config ks _ _ start fresh create locs prov flags this]
  obtain ca sc sk cconf sconf where
    "LoadServerCredentials (fs_tls_env example_keys os_fine fs2) (svc_ServerCertPath example_service)
       (svc_ServerKeyPath example_service) (svc_CaCertPath example_service) RequireAndVerifyClientCert = Inr sconf"
    "LoadClientCredentials (fs_tls_env example_keys os_fine afs') (as_CertFile st) (as_KeyFile st) (as_CAFile st) [] = Inr cconf"
    "tls_Certificates sconf = [(sc, RSAKey sk)]" "tls_ClientCAs sconf = Some [ca]" "tls_RootCAs cconf = Some [ca]"
    by force
  with prov [unfolded key] run show ?thesis by blast
qed

text \<open>
  The command does not validate the agent identifier of the answer: a server, or whoever answers in its
  place when \<^verbatim>\<open>--insecure\<close> is given, can make it write outside the certificate directory.
\<close>

theorem reply_escapes_certificate_directory:
  "let resp = \<lparr>pr_AgentID = ''../../x'', pr_CertPEM = Raw ''c'', pr_KeyPEM = Raw ''k'', pr_CACertPEM = Raw ''ca''\<rparr>
   in case runProvision os_fine (\<lambda>url insecure key. Reply 200 (Some resp)) [''-server=s'', ''-key=k''] empty_fs of
        (Inr st, fs') \<Rightarrow> path_parts (as_CertFile st) = (False, [''..'', ''x-cert.pem'']) \<and>
          \<not> loc_under (path_parts ''./certs'') (path_parts (as_CertFile st)) \<and>
          map_of (fs_files fs') (path_parts (as_CertFile st)) = Some (Raw ''c'')
      | _ \<Rightarrow> False"
  by code_simp

end
