(* ===== verification/User_Service.thy ===== *)
theory User_Service
  imports Http_Text Key_Store "HOL-Library.Multiset"
begin

text \<open>
  Accounts: the queries of \<^verbatim>\<open>internal/db/sqlc/users.sql.go\<close> on the table of
  \<^verbatim>\<open>internal/db/migrations\<close>, \<^verbatim>\<open>internal/users\<close> and \<^verbatim>\<open>internal/auth\<close>.

  The table is the list of its rows.  PostgreSQL decides about failures and about the order of rows with
  the same creation time; bcrypt and the JWT library are parameters.  What the properties rely on
  is stated as \<open>order_ok\<close>, \<open>bcrypt_ok\<close> and \<open>jwt_ok\<close>.
\<close>

section \<open>The users table\<close>

datatype UserRole = UserRoleAdmin | UserRoleUser

fun role_string :: "UserRole \<Rightarrow> string" where
  "role_string UserRoleAdmin = ''Admin''"
| "role_string UserRoleUser = ''User''"

text \<open>
  How a role is read from and written to the database: a role is a string in Go, and the column is an enumeration
  of the two values.  The scanned variable keeps its value if the scan fails.
\<close>

datatype sql_value = SqlBytes string | SqlString string | SqlNil | SqlOther string

fun Scan_role :: "sql_value \<Rightarrow> string \<Rightarrow> string option \<times> string" where
  "Scan_role (SqlBytes s) e = (None, s)"
| "Scan_role (SqlString s) e = (None, s)"
| "Scan_role SqlNil e = (Some ''unsupported scan type for UserRole: <nil>'', e)"
| "Scan_role (SqlOther t) e = (Some (''unsupported scan type for UserRole: '' @ t), e)"

record NullUserRole =
  nr_UserRole :: string
  nr_Valid :: bool

definition Scan_null :: "sql_value \<Rightarrow> NullUserRole \<Rightarrow> string option \<times> NullUserRole" where
  "Scan_null v ns =
     (if v = SqlNil then (None, ns\<lparr>nr_UserRole := '''', nr_Valid := False\<rparr>)
      else
        let (err, role) = Scan_role v (nr_UserRole ns) in (err, ns\<lparr>nr_UserRole := role, nr_Valid := True\<rparr>))"

definition Value_null :: "NullUserRole \<Rightarrow> sql_value" where
  "Value_null ns = (if \<not> nr_Valid ns then SqlNil else SqlString (nr_UserRole ns))"

lemma Scan_Value_null:
  "Scan_null (Value_null ns) ns0 = (None, if nr_Valid ns then ns else \<lparr>nr_UserRole = '''', nr_Valid = False\<rparr>)"
  by (cases ns; cases ns0) (simp add: Scan_null_def Value_null_def)

text \<open>An identifier is its 16 bytes.\<close>

record User =
  u_ID :: string
  u_Username :: string
  u_PasswordHash :: string
  u_Role :: UserRole
  u_CreatedAt :: gotime
  u_UpdatedAt :: gotime

datatype db_error = NoRows | PgError string | DbFailure

record db_env =
  de_fail :: bool
  de_uuid :: string
  de_now :: gotime
  de_varchar :: "string \<Rightarrow> bool"
  de_order :: "User list \<Rightarrow> User list"

definition CountUsers :: "db_env \<Rightarrow> User list \<Rightarrow> db_error + int" where
  "CountUsers env tab = (if de_fail env then Inl DbFailure else Inr (int (length tab)))"

text \<open>
  \<^verbatim>\<open>INSERT\<close> fills in the defaults of the table.  A value that does not fit its column is refused, and so
  is a second row with the same identifier or name.
\<close>

definition CreateUser :: "db_env \<Rightarrow> string \<Rightarrow> string \<Rightarrow> UserRole \<Rightarrow> User list \<Rightarrow> (db_error + User) \<times> User list" where
  "CreateUser env username passwordHash role tab =
     (if de_fail env then (Inl DbFailure, tab)
      else if \<not> de_varchar env username \<or> \<not> de_varchar env passwordHash then (Inl (PgError ''22001''), tab)
      else if de_uuid env \<in> u_ID ` set tab \<or> username \<in> u_Username ` set tab then (Inl (PgError ''23505''), tab)
      else
        let user = \<lparr>u_ID = de_uuid env, u_Username = username, u_PasswordHash = passwordHash, u_Role = role,
                    u_CreatedAt = de_now env, u_UpdatedAt = de_now env\<rparr>
        in (Inr user, tab @ [user]))"

definition DeleteUser_query :: "db_env \<Rightarrow> string \<Rightarrow> User list \<Rightarrow> db_error option \<times> User list" where
  "DeleteUser_query env uid tab =
     (if de_fail env then (Some DbFailure, tab) else (None, filter (\<lambda>u. u_ID u \<noteq> uid) tab))"

definition GetUser :: "db_env \<Rightarrow> string \<Rightarrow> User list \<Rightarrow> db_error + User" where
  "GetUser env uid tab =
     (if de_fail env then Inl DbFailure
      else case find (\<lambda>u. u_ID u = uid) tab of None \<Rightarrow> Inl NoRows | Some u \<Rightarrow> Inr u)"

definition GetUserByUsername :: "db_env \<Rightarrow> string \<Rightarrow> User list \<Rightarrow> db_error + User" where
  "GetUserByUsername env username tab =
     (if de_fail env then Inl DbFailure
      else case find (\<lambda>u. u_Username u = username) tab of None \<Rightarrow> Inl NoRows | Some u \<Rightarrow> Inr u)"

definition ListUsersPaginated :: "db_env \<Rightarrow> int \<Rightarrow> int \<Rightarrow> User list \<Rightarrow> db_error + User list" where
  "ListUsersPaginated env limit offset tab =
     (if de_fail env then Inl DbFailure
      else if limit < 0 then Inl (PgError ''2201W'')
      else if offset < 0 then Inl (PgError ''2201X'')
      else Inr (take (nat limit) (drop (nat offset) (de_order env tab))))"

text \<open>The table after the first migration.\<close>

definition migrated_users :: "db_env \<Rightarrow> User list" where
  "migrated_users env =
     [\<lparr>u_ID = de_uuid env, u_Username = ''root'',
       u_PasswordHash = ''$2a$10$uejoNCSLZ9YkKOZriLlSGeg0pm/nuGVS3nRuSPyYuk/Z7HJHKBhGO'',
       u_Role = UserRoleAdmin, u_CreatedAt = de_now env, u_UpdatedAt = de_now env\<rparr>]"

text \<open>
  What \<^verbatim>\<open>ORDER BY created_at DESC\<close> promises.  Each query has a \<open>db_env\<close> of its own: rows with the same creation time may
  come in another order the next time.
\<close>

definition order_ok :: "db_env \<Rightarrow> bool" where
  "order_ok env \<longleftrightarrow> (\<forall>tab. mset (de_order env tab) = mset tab \<and>
     sorted_wrt (\<lambda>u v. u_CreatedAt v \<le> u_CreatedAt u) (de_order env tab))"

section \<open>Passwords and tokens\<close>

record bcrypt_lib =
  GenerateFromPassword :: "string \<Rightarrow> string option"
  CompareHashAndPassword :: "string \<Rightarrow> string \<Rightarrow> bool"

definition HashPassword :: "bcrypt_lib \<Rightarrow> string \<Rightarrow> string option" where
  "HashPassword bc password = GenerateFromPassword bc password"

definition CheckPassword :: "bcrypt_lib \<Rightarrow> string \<Rightarrow> string \<Rightarrow> bool" where
  "CheckPassword bc password hash = CompareHashAndPassword bc hash password"

text \<open>A generated hash accepts its own password, and passwords of more than 72 bytes are refused.\<close>

definition bcrypt_ok :: "bcrypt_lib \<Rightarrow> bool" where
  "bcrypt_ok bc \<longleftrightarrow> (\<forall>p h. GenerateFromPassword bc p = Some h \<longrightarrow> CompareHashAndPassword bc h p) \<and>
     (\<forall>p. 72 < length p \<longrightarrow> GenerateFromPassword bc p = None)"

record Claims =
  c_UserID :: string
  c_Username :: string
  c_Role :: string
  c_ExpiresAt :: "gotime option"
  c_IssuedAt :: "gotime option"

record Config =
  cfg_Secret :: string
  cfg_ExpirationMinutes :: int

datatype signing_method = SigningMethodHMAC nat | OtherMethod string

text \<open>
  The JWT library: signing, parsing with a function that selects the key by the signing method of the
  token, and whether a token carries a signature made with a method and a key.  Dates are cut to the
  precision of the library.
\<close>

record jwt_lib =
  SignedString :: "signing_method \<Rightarrow> Claims \<Rightarrow> string \<Rightarrow> string option"
  ParseWithClaims :: "gotime \<Rightarrow> string \<Rightarrow> (signing_method \<Rightarrow> string option) \<Rightarrow> Claims option"
  jwt_signed :: "string \<Rightarrow> signing_method \<Rightarrow> string \<Rightarrow> bool"
  NewNumericDate :: "gotime \<Rightarrow> gotime"

definition expiration :: "Config \<Rightarrow> duration" where
  "expiration c = wrap64 (cfg_ExpirationMinutes c * minute)"

definition GenerateToken :: "jwt_lib \<Rightarrow> gotime \<Rightarrow> Config \<Rightarrow> string \<Rightarrow> string \<Rightarrow> string \<Rightarrow> string option" where
  "GenerateToken jl now cfg userID username role =
     (let claims = \<lparr>c_UserID = userID, c_Username = username, c_Role = role,
                    c_ExpiresAt = Some (NewNumericDate jl (time_add now (expiration cfg))),
                    c_IssuedAt = Some (NewNumericDate jl now)\<rparr>
      in SignedString jl (SigningMethodHMAC 256) claims (cfg_Secret cfg))"

fun token_key :: "string \<Rightarrow> signing_method \<Rightarrow> string option" where
  "token_key secret (SigningMethodHMAC _) = Some secret"
| "token_key secret (OtherMethod _) = None"

definition ValidateToken :: "jwt_lib \<Rightarrow> gotime \<Rightarrow> string \<Rightarrow> string \<Rightarrow> Claims option" where
  "ValidateToken jl now secret tokenString = ParseWithClaims jl now tokenString (token_key secret)"

text \<open>
  What the library documents.  A signed token parses to its claims as long as they have not expired
  and the key function returns the key it was signed with.  Conversely, whatever parses was signed with the
  key that the key function returns for its method, and has not expired.
\<close>

definition jwt_ok :: "jwt_lib \<Rightarrow> bool" where
  "jwt_ok jl \<longleftrightarrow>
     (\<forall>m c k t e now kf. SignedString jl m c k = Some t \<longrightarrow> kf m = Some k \<longrightarrow> c_ExpiresAt c = Some e \<longrightarrow>
        ParseWithClaims jl now t kf = (if now < e then Some c else None)) \<and>
     (\<forall>t now kf c. ParseWithClaims jl now t kf = Some c \<longrightarrow>
        (\<forall>e. c_ExpiresAt c = Some e \<longrightarrow> now < e) \<and> (\<exists>m k. kf m = Some k \<and> jwt_signed jl t m k)) \<and>
     (\<forall>t. t - second < NewNumericDate jl t \<and> NewNumericDate jl t \<le> t)"

section \<open>Services\<close>

text \<open>\<^verbatim>\<open>uuidToString\<close>: hexadecimal digits in groups of 8, 4, 4, 4 and 12.\<close>

definition uuidToString :: "string \<Rightarrow> string" where
  "uuidToString i =
     EncodeToString (take 4 i) @ ''-'' @ EncodeToString (take 2 (drop 4 i)) @ ''-'' @ EncodeToString (take 2 (drop 6 i)) @ ''-'' @
     EncodeToString (take 2 (drop 8 i)) @ ''-'' @ EncodeToString (take 6 (drop 10 i))"

datatype auth_error = ErrUsernameExists | ErrInvalidCredentials | ErrUserNotFound | AuthInternal string

record RegisterResult =
  rr_ID :: string
  rr_Username :: string
  rr_Role :: string

definition Register_auth :: "db_env \<Rightarrow> bcrypt_lib \<Rightarrow> string \<Rightarrow> string \<Rightarrow> User list \<Rightarrow>
    (auth_error + RegisterResult) \<times> User list" where
  "Register_auth env bc username password tab =
     (case HashPassword bc password of
        None \<Rightarrow> (Inl (AuthInternal ''hash password''), tab)
      | Some hash \<Rightarrow>
          (case CreateUser env username hash UserRoleUser tab of
             (Inl e, tab') \<Rightarrow>
               (Inl (if e = PgError ''23505'' then ErrUsernameExists else AuthInternal ''create user''), tab')
           | (Inr user, tab') \<Rightarrow>
               (Inr \<lparr>rr_ID = uuidToString (u_ID user), rr_Username = u_Username user, rr_Role = role_string (u_Role user)\<rparr>, tab')))"

definition Login :: "db_env \<Rightarrow> bcrypt_lib \<Rightarrow> jwt_lib \<Rightarrow> gotime \<Rightarrow> Config \<Rightarrow> string \<Rightarrow> string \<Rightarrow> User list \<Rightarrow> auth_error + string" where
  "Login env bc jl now cfg username password tab =
     (case GetUserByUsername env username tab of
        Inl e \<Rightarrow> Inl (if e = NoRows then ErrInvalidCredentials else AuthInternal ''query user'')
      | Inr user \<Rightarrow>
          if \<not> CheckPassword bc password (u_PasswordHash user) then Inl ErrInvalidCredentials
          else
            case GenerateToken jl now cfg (uuidToString (u_ID user)) (u_Username user) (role_string (u_Role user)) of
              None \<Rightarrow> Inl (AuthInternal ''generate token'')
            | Some token \<Rightarrow> Inr token)"

text \<open>\<open>parse\<close> is \<^verbatim>\<open>uuid.Parse\<close>.\<close>

definition DeleteUser :: "db_env \<Rightarrow> (string \<Rightarrow> string option) \<Rightarrow> string \<Rightarrow> User list \<Rightarrow> auth_error option \<times> User list" where
  "DeleteUser env parse userID tab =
     (case parse userID of
        None \<Rightarrow> (Some ErrUserNotFound, tab)
      | Some parsed \<Rightarrow>
          (case DeleteUser_query env parsed tab of
             (Some e, tab') \<Rightarrow> (Some (AuthInternal ''delete user''), tab')
           | (None, tab') \<Rightarrow> (None, tab')))"

record UserInfo =
  ui_ID :: string
  ui_Username :: string
  ui_Role :: string
  ui_CreatedAt :: gotime

definition user_info :: "User \<Rightarrow> UserInfo" where
  "user_info u = \<lparr>ui_ID = uuidToString (u_ID u), ui_Username = u_Username u, ui_Role = role_string (u_Role u), ui_CreatedAt = u_CreatedAt u\<rparr>"

definition ListUsers :: "db_env \<Rightarrow> db_env \<Rightarrow> int \<Rightarrow> int \<Rightarrow> User list \<Rightarrow> auth_error + UserInfo list \<times> int" where
  "ListUsers env env2 limit offset tab =
     (case ListUsersPaginated env (wrap32 limit) (wrap32 offset) tab of
        Inl e \<Rightarrow> Inl (AuthInternal ''list users'')
      | Inr dbUsers \<Rightarrow>
          (case CountUsers env2 tab of
             Inl e \<Rightarrow> Inl (AuthInternal ''count users'')
           | Inr n \<Rightarrow> Inr (map user_info dbUsers, n)))"

section \<open>Identifiers\<close>

lemma length_EncodeToString [simp]: "length (EncodeToString b) = 2 * length b"
  by (induction b) (simp_all add: EncodeToString_def hex_byte_def)

lemma uuidToString_inj:
  assumes "length i = 16" "length j = 16" "uuidToString i = uuidToString j"
  shows "i = j"
proof -
  have parts: "take 4 i = take 4 j" "take 2 (drop 4 i) = take 2 (drop 4 j)" "take 2 (drop 6 i) = take 2 (drop 6 j)"
    "take 2 (drop 8 i) = take 2 (drop 8 j)" "take 6 (drop 10 i) = take 6 (drop 10 j)"
    using assms by (auto simp: uuidToString_def dest!: EncodeToString_inj)
  have split: "x = take 4 x @ take 2 (drop 4 x) @ take 2 (drop 6 x) @ take 2 (drop 8 x) @ take 6 (drop 10 x)" if "length x = 16" for x :: string
  proof -
    have "x = take 4 x @ take 2 (drop 4 x) @ take 2 (drop 2 (drop 4 x)) @ take 2 (drop 2 (drop 2 (drop 4 x))) @ drop 2 (drop 2 (drop 2 (drop 4 x)))"
      by (metis append_take_drop_id)
    then show ?thesis using that by simp
  qed
  show ?thesis using split [OF assms(1)] split [OF assms(2)] parts by simp
qed

section \<open>The table as an invariant\<close>

definition users_ok :: "User list \<Rightarrow> bool" where
  "users_ok tab \<longleftrightarrow> distinct (map u_ID tab) \<and> distinct (map u_Username tab)"

lemma users_ok_migrated [simp]: "users_ok (migrated_users env)"
  by (simp add: users_ok_def migrated_users_def)

lemma CreateUser_ok:
  assumes "CreateUser env n h r tab = (res, tab')" "users_ok tab"
  shows "users_ok tab'"
    and "res = Inr u \<Longrightarrow> tab' = tab @ [u] \<and> u_Username u = n \<and> u_PasswordHash u = h \<and> u_Role u = r \<and> u_ID u = de_uuid env \<and>
      u_CreatedAt u = de_now env \<and> u_ID u \<notin> u_ID ` set tab \<and> n \<notin> u_Username ` set tab"
    and "isl res \<Longrightarrow> tab' = tab"
  using assms by (auto simp: CreateUser_def users_ok_def Let_def split: if_splits)

section \<open>What the queries promise\<close>

text \<open>
  The Go interface \<^verbatim>\<open>Querier\<close> of \<^verbatim>\<open>querier.go\<close> as far as single rows are concerned, with what the services rely on: the set of
  rows, in which identifiers and names are unique, and a failed query that changes nothing.
\<close>

locale querier =
  fixes create :: "db_env \<Rightarrow> string \<Rightarrow> string \<Rightarrow> UserRole \<Rightarrow> 't \<Rightarrow> (db_error + User) \<times> 't"
    and delete :: "db_env \<Rightarrow> string \<Rightarrow> 't \<Rightarrow> db_error option \<times> 't"
    and by_id :: "db_env \<Rightarrow> string \<Rightarrow> 't \<Rightarrow> db_error + User"
    and by_name :: "db_env \<Rightarrow> string \<Rightarrow> 't \<Rightarrow> db_error + User"
    and inv :: "'t \<Rightarrow> bool"
    and rows :: "'t \<Rightarrow> User set"
  assumes create_inv: "inv t \<Longrightarrow> inv (snd (create env n h r t))"
    and create_row: "create env n h r t = (Inr u, t') \<Longrightarrow>
      rows t' = insert u (rows t) \<and> u_ID u = de_uuid env \<and> u_Username u = n \<and> u_PasswordHash u = h \<and> u_Role u = r \<and>
      u_ID u \<notin> u_ID ` rows t \<and> n \<notin> u_Username ` rows t"
    and create_fails: "create env n h r t = (Inl e, t') \<Longrightarrow> t' = t"
    and delete_inv: "inv t \<Longrightarrow> inv (snd (delete env i t))"
    and delete_rows: "delete env i t = (None, t') \<Longrightarrow> rows t' = {u \<in> rows t. u_ID u \<noteq> i}"
    and delete_fails: "delete env i t = (Some e, t') \<Longrightarrow> t' = t"
    and by_id_row: "inv t \<Longrightarrow> \<not> de_fail env \<Longrightarrow> by_id env i t = Inr u \<longleftrightarrow> u \<in> rows t \<and> u_ID u = i"
    and by_id_none: "\<not> de_fail env \<Longrightarrow> i \<notin> u_ID ` rows t \<Longrightarrow> by_id env i t = Inl NoRows"
    and by_name_row: "inv t \<Longrightarrow> \<not> de_fail env \<Longrightarrow> by_name env n t = Inr u \<longleftrightarrow> u \<in> rows t \<and> u_Username u = n"
    and by_name_none: "\<not> de_fail env \<Longrightarrow> n \<notin> u_Username ` rows t \<Longrightarrow> by_name env n t = Inl NoRows"
begin

lemma created_found:
  assumes "inv t" "create env n h r t = (Inr u, t')" "\<not> de_fail env'"
  shows "by_id env' (u_ID u) t' = Inr u" "by_name env' n t' = Inr u"
proof -
  have "inv t'" using create_inv [OF assms(1), of env n h r] assms(2) by simp
  with create_row [OF assms(2)] assms(3) show "by_id env' (u_ID u) t' = Inr u" "by_name env' n t' = Inr u"
    by (simp_all add: by_id_row by_name_row)
qed

lemma created_deleted:
  assumes "create env n h r t = (Inr u, t1)" "delete env1 (u_ID u) t1 = (None, t2)"
  shows "rows t2 = rows t"
proof -
  have "rows t1 = insert u (rows t)" "u_ID u \<notin> u_ID ` rows t" using create_row [OF assms(1)] by blast+
  moreover from this(2) have "u_ID v \<noteq> u_ID u" if "v \<in> rows t" for v using that by (metis imageI)
  ultimately show ?thesis unfolding delete_rows [OF assms(2)] by auto
qed

lemma deleted_gone:
  assumes "delete env i t = (None, t')" "\<not> de_fail env'"
  shows "by_id env' i t' = Inl NoRows"
  by (rule by_id_none [OF assms(2)]) (auto simp: delete_rows [OF assms(1)])

text \<open>No operation changes a row, and a role appears only by being asked for.\<close>

lemma create_roles:
  assumes "create env n h r t = (res, t')" "u \<in> rows t'"
  shows "u \<in> rows t \<or> u_Role u = r"
  using assms create_row [of env n h r t] create_fails [of env n h r t] by (cases res) auto

lemma delete_subset:
  assumes "delete env i t = (res, t')"
  shows "rows t' \<subseteq> rows t"
  using assms delete_rows [of env i t] delete_fails [of env i t] by (cases res) auto

end

interpretation q: querier CreateUser DeleteUser_query GetUser GetUserByUsername users_ok set
proof (unfold_locales, goal_cases)
  case (7 t env i u)
  then show ?case using find_unique [of u_ID t i u] by (cases "find (\<lambda>u. u_ID u = i) t") (simp_all add: GetUser_def users_ok_def)
next
  case (8 env i t)
  then show ?case by (simp add: GetUser_def find_absent)
next
  case (9 t env n u)
  then show ?case using find_unique [of u_Username t n u] by (cases "find (\<lambda>u. u_Username u = n) t") (simp_all add: GetUserByUsername_def users_ok_def)
next
  case (10 env n t)
  then show ?case by (simp add: GetUserByUsername_def find_absent)
qed (auto simp: CreateUser_def DeleteUser_query_def users_ok_def Let_def split: if_splits)

section \<open>The services\<close>

lemma Register_auth_cases:
  assumes "Register_auth env bc n p tab = (res, tab')"
  shows "isl res \<and> tab' = tab \<or> (\<exists>h u. GenerateFromPassword bc p = Some h \<and> CreateUser env n h UserRoleUser tab = (Inr u, tab') \<and>
    res = Inr \<lparr>rr_ID = uuidToString (u_ID u), rr_Username = n, rr_Role = ''User''\<rparr>)"
  using assms
  by (auto simp: Register_auth_def HashPassword_def CreateUser_def Let_def split: option.splits if_splits)

lemma Register_auth_ok:
  assumes "Register_auth env bc n p tab = (res, tab')" "users_ok tab"
  shows "users_ok tab'"
  using Register_auth_cases [OF assms(1)] assms(2) CreateUser_ok(1) by blast

lemma DeleteUser_eq:
  "DeleteUser env parse uid tab =
     (case parse uid of None \<Rightarrow> (Some ErrUserNotFound, tab)
      | Some i \<Rightarrow> if de_fail env then (Some (AuthInternal ''delete user''), tab) else (None, filter (\<lambda>u. u_ID u \<noteq> i) tab))"
  by (simp add: DeleteUser_def DeleteUser_query_def split: option.split)

lemma DeleteUser_ok: "users_ok tab \<Longrightarrow> users_ok (snd (DeleteUser env parse uid tab))"
  by (simp add: DeleteUser_eq users_ok_def split: option.split)

section \<open>Pages\<close>

text \<open>The pages of a given size, one after the other, are the whole list.\<close>

lemma concat_pages: "concat (map (\<lambda>p. take z (drop (p * z) xs)) [0..<k]) = take (k * z) xs"
proof (induction k)
  case (Suc k)
  have "take (Suc k * z) xs = take (k * z) xs @ take z (drop (k * z) xs)"
    by (simp add: take_add [symmetric] add.commute)
  with Suc show ?case by simp
qed simp

lemma ListUsers_page:
  assumes "\<not> de_fail env" "\<not> de_fail env2" "0 \<le> limit" "limit < 2 ^ 31" "0 \<le> offset" "offset < 2 ^ 31"
  shows "ListUsers env env2 limit offset tab =
    Inr (map user_info (take (nat limit) (drop (nat offset) (de_order env tab))), int (length tab))"
  using assms by (simp add: ListUsers_def ListUsersPaginated_def CountUsers_def wrap32_id)

section \<open>Properties\<close>

text \<open>The operations that change the table, with any outcome of the database and of the libraries.\<close>

inductive account_step :: "User list \<Rightarrow> User list \<Rightarrow> bool" where
  register: "Register_auth env bc username password tab = (res, tab') \<Longrightarrow> account_step tab tab'"
| delete: "DeleteUser env parse userID tab = (res, tab') \<Longrightarrow> account_step tab tab'"

text \<open>
  C12 (invariant): whatever accounts are registered and deleted after the migration, names and identifiers
  stay unique, the only administrator is the one of the migration, and a failed operation changes nothing.
\<close>

theorem accounts_invariant:
  assumes "account_step\<^sup>*\<^sup>* (migrated_users env0) tab"
  shows "users_ok tab \<and> (\<forall>u\<in>set tab. u_Role u = UserRoleAdmin \<longrightarrow> u \<in> set (migrated_users env0)) \<and>
    (\<forall>env bc n p e tab'. Register_auth env bc n p tab = (Inl e, tab') \<longrightarrow> tab' = tab) \<and>
    (\<forall>env parse i e tab'. DeleteUser env parse i tab = (Some e, tab') \<longrightarrow> tab' = tab)"
proof -
  have "users_ok tab \<and> (\<forall>u\<in>set tab. u_Role u = UserRoleAdmin \<longrightarrow> u \<in> set (migrated_users env0))"
    using assms
  proof induction
    case base
    then show ?case by simp
  next
    case (step tab tab')
    from step.hyps(2) show ?case
    proof cases
      case (register env bc username password res)
      from Register_auth_cases [OF this] Register_auth_ok [OF this] step.IH show ?thesis
        by (auto dest: q.create_roles)
    next
      case (delete env parse userID res)
      with step.IH DeleteUser_ok [of tab env parse userID] show ?thesis
        by (auto simp: DeleteUser_eq split: option.splits if_splits)
    qed
  qed
  moreover have "tab' = tab" if "Register_auth env bc n p tab = (Inl e, tab')" for env bc n p e tab'
    using Register_auth_cases [OF that] by auto
  moreover have "tab' = tab" if "DeleteUser env parse i tab = (Some e, tab')" for env parse i e tab'
    using that by (auto simp: DeleteUser_eq split: option.splits if_splits)
  ultimately show ?thesis by blast
qed

theorem accounts_invariant_witness:
  "let bc = \<lparr>GenerateFromPassword = \<lambda>p. Some p, CompareHashAndPassword = \<lambda>h p. h = p\<rparr>;
       env = (\<lambda>i. \<lparr>de_fail = False, de_uuid = i, de_now = 0, de_varchar = \<lambda>_. True, de_order = \<lambda>t. t\<rparr>);
       tab = snd (Register_auth (env ''b'') bc ''bob'' ''password'' (migrated_users (env ''a'')))
   in length tab = 2 \<and> users_ok tab"
proof -
  define bc where "bc = \<lparr>GenerateFromPassword = \<lambda>p. Some p, CompareHashAndPassword = \<lambda>h (p :: string). h = p\<rparr>"
  define env where "env = (\<lambda>i. \<lparr>de_fail = False, de_uuid = i, de_now = 0, de_varchar = \<lambda>_. True, de_order = \<lambda>t. t\<rparr>)"
  define tab where "tab = snd (Register_auth (env ''b'') bc ''bob'' ''password'' (migrated_users (env ''a'')))"
  have "length tab = 2" unfolding tab_def bc_def env_def by code_simp
  moreover have "account_step\<^sup>*\<^sup>* (migrated_users (env ''a'')) tab"
    using account_step.register [of "env ''b''" bc "''bob''" "''password''" "migrated_users (env ''a'')" _ tab]
    by (metis tab_def prod.collapse r_into_rtranclp)
  ultimately show ?thesis
    using accounts_invariant [of "env ''a''" tab] unfolding Let_def tab_def bc_def env_def by blast
qed

end
