(* ===== verification/Http_Api.thy ===== *)
theory Http_Api
  imports User_Service Cert_Handler Connection_Manager
begin

text \<open>
  The HTTP interface of the server: \<^verbatim>\<open>internal/api/http/middleware\<close>, the remaining handlers of
  \<^verbatim>\<open>internal/api/http/handler\<close>, and the routes of \<^verbatim>\<open>router.go\<close>.

  A middleware looks at the gin context and either aborts with a status or passes the context on; a route
  is a method, a path, its chain of middleware and its handler; \<open>serve\<close> does what gin does with a request.
  The environment of one request, \<open>api_env\<close>, collects what its handler gets from outside: clock,
  random bytes, database, file system and what the binding made of the body.
\<close>

section \<open>Middleware\<close>

datatype gin_value = StringValue string | OtherValue

record gin_ctx =
  gc_Header :: http_header
  gc_Query :: "(string, string) gomap"
  gc_Params :: "(string, string) gomap"
  gc_Keys :: "(string, gin_value) gomap"

definition GetHeader :: "gin_ctx \<Rightarrow> string \<Rightarrow> string" where
  "GetHeader c key = (case map_of (gc_Header c) (CanonicalHeaderKey key) of Some (v # _) \<Rightarrow> v | _ \<Rightarrow> '''')"

definition ctx_set :: "string \<Rightarrow> string \<Rightarrow> gin_ctx \<Rightarrow> gin_ctx" where
  "ctx_set key v c = c\<lparr>gc_Keys := AList.update key (StringValue v) (gc_Keys c)\<rparr>"

definition JWTAuth :: "jwt_lib \<Rightarrow> gotime \<Rightarrow> string \<Rightarrow> gin_ctx \<Rightarrow> (int \<times> string) + gin_ctx" where
  "JWTAuth jl now secret c =
     (let header = GetHeader c ''Authorization'' in
      if header = '''' \<or> \<not> prefix ''Bearer '' header then Inl (401, ''missing or invalid authorization header'')
      else
        case ValidateToken jl now secret (drop 7 header) of
          None \<Rightarrow> Inl (401, ''invalid token'')
        | Some claims \<Rightarrow>
            Inr (ctx_set ''role'' (c_Role claims) (ctx_set ''username'' (c_Username claims) (ctx_set ''user_id'' (c_UserID claims) c))))"

definition RequireRole :: "string list \<Rightarrow> gin_ctx \<Rightarrow> (int \<times> string) + gin_ctx" where
  "RequireRole roles c =
     (case map_of (gc_Keys c) ''role'' of
        None \<Rightarrow> Inl (403, ''forbidden'')
      | Some OtherValue \<Rightarrow> Inl (403, ''forbidden'')
      | Some (StringValue userRole) \<Rightarrow> if userRole \<in> set roles then Inr c else Inl (403, ''forbidden''))"

definition APIKeyAuth :: "string \<Rightarrow> gin_ctx \<Rightarrow> (int \<times> string) + gin_ctx" where
  "APIKeyAuth apiKey c =
     (if apiKey = '''' then Inl (503, ''Admin API is not configured'')
      else
        let providedKey = GetHeader c ''X-API-Key'' in
        if providedKey = '''' then Inl (401, ''Missing API key'')
        else if providedKey \<noteq> apiKey then Inl (401, ''Invalid API key'')
        else Inr c)"

section \<open>Handlers\<close>

definition Register_handler :: "db_env \<Rightarrow> bcrypt_lib \<Rightarrow> string + string \<times> string \<Rightarrow> User list \<Rightarrow>
    RegisterResult api_response \<times> User list" where
  "Register_handler env bc req tab =
     (case req of
        Inl err \<Rightarrow> ((400, Inl err), tab)
      | Inr (username, password) \<Rightarrow>
          (case Register_auth env bc username password tab of
             (Inl e, tab') \<Rightarrow>
               ((if e = ErrUsernameExists then (409, Inl ''username already exists'') else (500, Inl ''failed to create user'')), tab')
           | (Inr result, tab') \<Rightarrow> ((201, Inr result), tab')))"

definition Login_handler :: "db_env \<Rightarrow> bcrypt_lib \<Rightarrow> jwt_lib \<Rightarrow> gotime \<Rightarrow> Config \<Rightarrow> string + string \<times> string \<Rightarrow> User list \<Rightarrow>
    string api_response" where
  "Login_handler env bc jl now cfg req tab =
     (case req of
        Inl err \<Rightarrow> (400, Inl err)
      | Inr (username, password) \<Rightarrow>
          (case Login env bc jl now cfg username password tab of
             Inl e \<Rightarrow> if e = ErrInvalidCredentials then (401, Inl ''invalid credentials'') else (500, Inl ''internal error'')
           | Inr token \<Rightarrow> (200, Inr token)))"

text \<open>The assertion that \<^verbatim>\<open>user_id\<close> is a string panics when it is missing.\<close>

definition DeleteUser_handler :: "db_env \<Rightarrow> (string \<Rightarrow> string option) \<Rightarrow> gin_ctx \<Rightarrow> User list \<Rightarrow>
    (unit api_response \<times> User list) outcome" where
  "DeleteUser_handler env parse c tab =
     (case map_of (gc_Keys c) ''user_id'' of
        Some (StringValue userID) \<Rightarrow>
          Ok (case DeleteUser env parse userID tab of
                (Some e, tab') \<Rightarrow>
                  ((if e = ErrUserNotFound then (404, Inl ''user not found'') else (500, Inl ''internal error'')), tab')
              | (None, tab') \<Rightarrow> ((204, Inr ()), tab'))
      | _ \<Rightarrow> Panic)"

text \<open>
  The value that \<^verbatim>\<open>strconv.Atoi\<close> returns next to an error: 0 for a syntax error, the nearest
  number of the type for one that is out of range.  The digits are read one by one, and reading stops at
  the first that makes the number too large for a \<^verbatim>\<open>uint64\<close>.
\<close>

fun uint_value :: "nat \<Rightarrow> string \<Rightarrow> nat option" where
  "uint_value acc [] = Some acc"
| "uint_value acc (c # cs) =
     (if \<not> is_digit c then None
      else
        let n = acc * 10 + (of_char c - 48) in
        if n \<ge> 2 ^ 64 then Some (2 ^ 64 - 1) else uint_value n cs)"

definition Atoi_value :: "string \<Rightarrow> int" where
  "Atoi_value s =
     (let neg = (s \<noteq> [] \<and> hd s = CHR ''-'');
          ds = (if s \<noteq> [] \<and> (hd s = CHR ''-'' \<or> hd s = CHR ''+'') then tl s else s) in
      if ds = [] then 0
      else
        case uint_value 0 ds of
          None \<Rightarrow> 0
        | Some n \<Rightarrow> if neg then max (- (2 ^ 63)) (- int n) else min (2 ^ 63 - 1) (int n))"

definition DefaultQuery :: "gin_ctx \<Rightarrow> string \<Rightarrow> string \<Rightarrow> string" where
  "DefaultQuery c key d = (case map_of (gc_Query c) key of Some v \<Rightarrow> v | None \<Rightarrow> d)"

text \<open>A creation time is printed in whole seconds.\<close>

record UserResponse =
  ur_ID :: string
  ur_Username :: string
  ur_Role :: string
  ur_CreatedAt :: int

record ListUsersResponse =
  lu_Users :: "UserResponse list"
  lu_Total :: int
  lu_Page :: int
  lu_PageSize :: int

definition user_response :: "UserInfo \<Rightarrow> UserResponse" where
  "user_response u = \<lparr>ur_ID = ui_ID u, ur_Username = ui_Username u, ur_Role = ui_Role u, ur_CreatedAt = ui_CreatedAt u div second\<rparr>"

definition ListUsers_handler :: "db_env \<Rightarrow> db_env \<Rightarrow> gin_ctx \<Rightarrow> User list \<Rightarrow> ListUsersResponse api_response" where
  "ListUsers_handler env env2 c tab =
     (let page0 = Atoi_value (DefaultQuery c ''page'' ''1'');
          pageSize0 = Atoi_value (DefaultQuery c ''page_size'' ''20'');
          page = (if page0 < 1 then 1 else page0);
          pageSize = (if pageSize0 < 1 \<or> pageSize0 > 100 then 20 else pageSize0);
          offset = wrap64 ((page - 1) * pageSize)
      in case ListUsers env env2 pageSize offset tab of
           Inl e \<Rightarrow> (500, Inl ''internal error'')
         | Inr (userList, n) \<Rightarrow>
             (200, Inr \<lparr>lu_Users = map user_response userList, lu_Total = n, lu_Page = page, lu_PageSize = pageSize\<rparr>))"

record AgentInfo =
  ai_AgentID :: string
  ai_Port :: int
  ai_LastSeen :: gotime

text \<open>
  \<^verbatim>\<open>ListAgents\<close> takes the lock once for the list and once for each agent; \<open>later\<close> is the table at the latter.
\<close>

definition ListAgents :: "'m ConnectionManager \<Rightarrow> (string \<Rightarrow> 'm ConnectionManager) \<Rightarrow> (AgentInfo list \<times> nat) api_response" where
  "ListAgents cm later =
     (let agents = concat (map (\<lambda>agentID.
            (case GetConnection agentID (later agentID) of
               Some r \<Rightarrow>
                 let conn = cm_heap (later agentID) ! r in
                 [\<lparr>ai_AgentID = ac_ID conn, ai_Port = ac_Port conn, ai_LastSeen = ac_LastSeen conn\<rparr>]
             | None \<Rightarrow> [])) (ListConnections cm))
      in (200, Inr (agents, length agents)))"

definition Check :: "string api_response" where
  "Check = (200, Inr ''ok'')"

section \<open>Routes\<close>

datatype guard = JWTGuard | RoleGuard "string list" | KeyGuard

datatype handler =
    HealthCheck | RegisterRoute | LoginRoute | DeleteMe | UserList | AgentList
  | CertCreate | CertGet | CertDelete | KeyCreate | KeyList | KeyRevoke | ProvisionRoute

datatype segment = Lit string | Param string

record route =
  rt_Method :: string
  rt_Path :: "segment list"
  rt_Guards :: "guard list"
  rt_Handler :: handler

definition route_of :: "string \<Rightarrow> segment list \<Rightarrow> guard list \<Rightarrow> handler \<Rightarrow> route" where
  "route_of m p gs h = \<lparr>rt_Method = m, rt_Path = p, rt_Guards = gs, rt_Handler = h\<rparr>"

text \<open>\<^verbatim>\<open>SetupRoute\<close>: \<open>grpc\<close> and \<open>keyStore\<close> say whether these services are not nil.\<close>

definition SetupRoute :: "bool \<Rightarrow> bool \<Rightarrow> route list" where
  "SetupRoute grpc keyStore =
     [route_of ''GET'' [Lit ''health''] [] HealthCheck,
      route_of ''POST'' [Lit ''auth'', Lit ''register''] [] RegisterRoute,
      route_of ''POST'' [Lit ''auth'', Lit ''login''] [] LoginRoute,
      route_of ''DELETE'' [Lit ''users'', Lit ''me''] [JWTGuard] DeleteMe,
      route_of ''GET'' [Lit ''users''] [JWTGuard, RoleGuard [''Admin'']] UserList] @
     (if grpc then [route_of ''GET'' [Lit ''agents''] [] AgentList] else []) @
     [route_of ''POST'' [Lit ''agents'', Param ''id'', Lit ''certificate''] [KeyGuard] CertCreate,
      route_of ''GET'' [Lit ''agents'', Param ''id'', Lit ''certificate''] [KeyGuard] CertGet,
      route_of ''DELETE'' [Lit ''agents'', Param ''id'', Lit ''certificate''] [KeyGuard] CertDelete] @
     (if keyStore then
        [route_of ''POST'' [Lit ''api'', Lit ''v1'', Lit ''provision-keys''] [KeyGuard] KeyCreate,
         route_of ''GET'' [Lit ''api'', Lit ''v1'', Lit ''provision-keys''] [KeyGuard] KeyList,
         route_of ''DELETE'' [Lit ''api'', Lit ''v1'', Lit ''provision-keys'', Param ''id''] [KeyGuard] KeyRevoke,
         route_of ''POST'' [Lit ''api'', Lit ''v1'', Lit ''provision''] [] ProvisionRoute]
      else [])"

fun match_path :: "segment list \<Rightarrow> string list \<Rightarrow> (string, string) gomap option" where
  "match_path [] [] = Some []"
| "match_path (Lit s # ps) (c # cs) = (if s = c then match_path ps cs else None)"
| "match_path (Param n # ps) (c # cs) = (if c = '''' then None else map_option (AList.update n c) (match_path ps cs))"
| "match_path _ _ = None"

fun find_route :: "route list \<Rightarrow> string \<Rightarrow> string list \<Rightarrow> (route \<times> (string, string) gomap) option" where
  "find_route [] m p = None"
| "find_route (r # rs) m p =
     (if rt_Method r = m then (case match_path (rt_Path r) p of Some ps \<Rightarrow> Some (r, ps) | None \<Rightarrow> find_route rs m p)
      else find_route rs m p)"

section \<open>Serving a request\<close>

record api_config =
  cf_GrpcServer :: bool
  cf_CertService :: "CertService option"
  cf_KeyStore :: bool
  cf_AdminAPIKey :: string
  cf_JWT :: Config

record api_env =
  ae_now :: gotime
  ae_jwt :: jwt_lib
  ae_bcrypt :: bcrypt_lib
  ae_db :: db_env
  ae_db2 :: db_env
  ae_uuid_Parse :: "string \<Rightarrow> string option"
  ae_os :: os_env
  ae_os2 :: os_env
  ae_gen :: gen_env
  ae_rand :: "string option"
  ae_credentials :: "string + string \<times> string"
  ae_string :: "string + string"
  ae_unmatched :: "int \<times> string"

record 'm api_state =
  as_users :: "User list"
  as_keys :: KeyStore
  as_files :: file_system
  as_conns :: "'m ConnectionManager"

datatype reply =
    ReplyError int string
  | ReplyText "string api_response"
  | ReplyRegister "RegisterResult api_response"
  | ReplyDeleted "unit api_response"
  | ReplyUsers "ListUsersResponse api_response"
  | ReplyAgents "(AgentInfo list \<times> nat) api_response"
  | ReplyZip "CertZip api_response"
  | ReplyPaths "string list api_response"
  | ReplyKey "CreateProvisionKeyResponse api_response"
  | ReplyKeys "(ProvisionKeyInfo list \<times> nat) api_response"
  | ReplyProvision "ProvisionResponse api_response"

fun run_guard :: "api_env \<Rightarrow> api_config \<Rightarrow> guard \<Rightarrow> gin_ctx \<Rightarrow> (int \<times> string) + gin_ctx" where
  "run_guard env cfg JWTGuard c = JWTAuth (ae_jwt env) (ae_now env) (cfg_Secret (cf_JWT cfg)) c"
| "run_guard env cfg (RoleGuard roles) c = RequireRole roles c"
| "run_guard env cfg KeyGuard c = APIKeyAuth (cf_AdminAPIKey cfg) c"

fun run_guards :: "api_env \<Rightarrow> api_config \<Rightarrow> guard list \<Rightarrow> gin_ctx \<Rightarrow> (int \<times> string) + gin_ctx" where
  "run_guards env cfg [] c = Inr c"
| "run_guards env cfg (g # gs) c =
     (case run_guard env cfg g c of Inl e \<Rightarrow> Inl e | Inr c' \<Rightarrow> run_guards env cfg gs c')"

definition param :: "gin_ctx \<Rightarrow> string \<Rightarrow> string" where
  "param c n = (case map_of (gc_Params c) n of Some v \<Rightarrow> v | None \<Rightarrow> '''')"

fun run_handler :: "api_env \<Rightarrow> api_config \<Rightarrow> handler \<Rightarrow> gin_ctx \<Rightarrow> 'm api_state \<Rightarrow> (reply \<times> 'm api_state) outcome" where
  "run_handler env cfg HealthCheck c st = Ok (ReplyText Check, st)"
| "run_handler env cfg RegisterRoute c st =
     (let (r, tab) = Register_handler (ae_db env) (ae_bcrypt env) (ae_credentials env) (as_users st)
      in Ok (ReplyRegister r, st\<lparr>as_users := tab\<rparr>))"
| "run_handler env cfg LoginRoute c st =
     Ok (ReplyText (Login_handler (ae_db env) (ae_bcrypt env) (ae_jwt env) (ae_now env) (cf_JWT cfg) (ae_credentials env) (as_users st)), st)"
| "run_handler env cfg DeleteMe c st =
     obind (DeleteUser_handler (ae_db env) (ae_uuid_Parse env) c (as_users st)) (\<lambda>(r, tab). Ok (ReplyDeleted r, st\<lparr>as_users := tab\<rparr>))"
| "run_handler env cfg UserList c st = Ok (ReplyUsers (ListUsers_handler (ae_db env) (ae_db2 env) c (as_users st)), st)"
| "run_handler env cfg AgentList c st = Ok (ReplyAgents (ListAgents (as_conns st) (\<lambda>_. as_conns st)), st)"
| "run_handler env cfg CertCreate c st =
     (let (r, fs) = CreateAgentCertificate (ae_os env) (ae_os2 env) (ae_gen env) (cf_CertService cfg) (param c ''id'') (as_files st)
      in Ok (ReplyZip r, st\<lparr>as_files := fs\<rparr>))"
| "run_handler env cfg CertGet c st =
     Ok (ReplyZip (GetAgentCertificate (ae_os env) (cf_CertService cfg) (param c ''id'') (as_files st)), st)"
| "run_handler env cfg CertDelete c st =
     (let (r, fs) = DeleteAgentCertificate (ae_os env) (cf_CertService cfg) (param c ''id'') (as_files st)
      in Ok (ReplyPaths r, st\<lparr>as_files := fs\<rparr>))"
| "run_handler env cfg KeyCreate c st =
     (let (r, ks) = CreateProvisionKey (ae_rand env) (ae_now env) (ae_string env) (as_keys st)
      in Ok (ReplyKey r, st\<lparr>as_keys := ks\<rparr>))"
| "run_handler env cfg KeyList c st = Ok (ReplyKeys (ListProvisionKeys (\<lambda>_. ae_now env) (as_keys st)), st)"
| "run_handler env cfg KeyRevoke c st =
     (let (r, ks) = RevokeProvisionKey (param c ''id'') (as_keys st) in Ok (ReplyText r, st\<lparr>as_keys := ks\<rparr>))"
| "run_handler env cfg ProvisionRoute c st =
     (let (r, ks, fs) = Provision (ae_os env) (ae_os2 env) (ae_gen env) (ae_now env) (cf_CertService cfg) (ae_string env) (as_keys st) (as_files st)
      in Ok (ReplyProvision r, st\<lparr>as_keys := ks, as_files := fs\<rparr>))"

text \<open>
  \<open>path\<close> is the decoded path of the request, split at its slashes.  If no route matches, gin answers with 404, or with a redirect
  if only a slash at the end is wrong.
\<close>

definition serve :: "api_env \<Rightarrow> api_config \<Rightarrow> string \<Rightarrow> string list \<Rightarrow> http_header \<Rightarrow> (string, string) gomap \<Rightarrow> 'm api_state \<Rightarrow>
    (reply \<times> 'm api_state) outcome" where
  "serve env cfg meth path header query st =
     (case find_route (SetupRoute (cf_GrpcServer cfg) (cf_KeyStore cfg)) meth path of
        None \<Rightarrow> Ok (ReplyError (fst (ae_unmatched env)) (snd (ae_unmatched env)), st)
      | Some (r, params) \<Rightarrow>
          (case run_guards env cfg (rt_Guards r) \<lparr>gc_Header = header, gc_Query = query, gc_Params = params, gc_Keys = []\<rparr> of
             Inl (code, err) \<Rightarrow> Ok (ReplyError code err, st)
           | Inr c \<Rightarrow> run_handler env cfg (rt_Handler r) c st))"

section \<open>Numbers in queries\<close>

lemma parse_digits_mono: "parse_digits acc s = Some n \<Longrightarrow> acc \<le> n"
proof (induction s arbitrary: acc)
  case (Cons c s)
  then have "acc * 10 + (of_char c - 48) \<le> n" by (auto split: if_splits)
  then show ?case by linarith
qed simp

lemma uint_value_parse: "parse_digits acc s = Some n \<Longrightarrow> n < 2 ^ 64 \<Longrightarrow> uint_value acc s = Some n"
proof (induction s arbitrary: acc)
  case (Cons c s)
  then have step: "is_digit c" "parse_digits (acc * 10 + (of_char c - 48)) s = Some n" by (auto split: if_splits)
  with parse_digits_mono [OF step(2)] Cons show ?case by (simp add: Let_def)
qed simp

lemma Atoi_value_Itoa:
  assumes "0 \<le> i" "i < 2 ^ 63"
  shows "Atoi_value (Itoa i) = i"
proof -
  obtain c cs where d: "digits (nat i) = c # cs" "is_digit c" using digits_head by blast
  have sign: "c \<noteq> CHR ''-''" "c \<noteq> CHR ''+''" using d(2) by (auto simp: is_digit_def)
  have "uint_value 0 (digits (nat i)) = Some (nat i)"
    using assms by (intro uint_value_parse parse_digits_digits) simp
  then show ?thesis using assms d(1) sign by (simp add: Atoi_value_def Itoa_def)
qed

section \<open>Middleware and routes\<close>

definition bearer_claims :: "jwt_lib \<Rightarrow> gotime \<Rightarrow> string \<Rightarrow> gin_ctx \<Rightarrow> Claims option" where
  "bearer_claims jl now secret c =
     (let header = GetHeader c ''Authorization'' in
      if prefix ''Bearer '' header then ValidateToken jl now secret (drop 7 header) else None)"

definition admin_key :: "api_config \<Rightarrow> gin_ctx \<Rightarrow> bool" where
  "admin_key cfg c \<longleftrightarrow> cf_AdminAPIKey cfg \<noteq> '''' \<and> GetHeader c ''X-API-Key'' = cf_AdminAPIKey cfg"

lemma JWTAuth_iff:
  "JWTAuth jl now secret c = Inr c' \<longleftrightarrow> (\<exists>claims. bearer_claims jl now secret c = Some claims \<and>
     c' = ctx_set ''role'' (c_Role claims) (ctx_set ''username'' (c_Username claims) (ctx_set ''user_id'' (c_UserID claims) c)))"
  by (auto simp: JWTAuth_def bearer_claims_def Let_def split: option.splits)

lemma APIKeyAuth_iff: "APIKeyAuth (cf_AdminAPIKey cfg) c = Inr c' \<longleftrightarrow> admin_key cfg c \<and> c' = c"
  by (auto simp: APIKeyAuth_def admin_key_def Let_def)

lemma ctx_keys [simp]:
  "map_of (gc_Keys (ctx_set k v c)) k' = (if k' = k then Some (StringValue v) else map_of (gc_Keys c) k')"
  by (simp add: ctx_set_def go_map)

lemma ctx_set_header [simp]: "gc_Header (ctx_set k v c) = gc_Header c" "GetHeader (ctx_set k v c) = GetHeader c"
  by (simp_all add: ctx_set_def GetHeader_def fun_eq_iff)

fun guards_of :: "handler \<Rightarrow> guard list" where
  "guards_of DeleteMe = [JWTGuard]"
| "guards_of UserList = [JWTGuard, RoleGuard [''Admin'']]"
| "guards_of h = (if h \<in> {HealthCheck, RegisterRoute, LoginRoute, AgentList, ProvisionRoute} then [] else [KeyGuard])"

lemma find_route_in: "find_route rs m p = Some (r, ps) \<Longrightarrow> r \<in> set rs \<and> rt_Method r = m \<and> match_path (rt_Path r) p = Some ps"
  by (induction rs) (auto split: if_splits option.splits)

lemma route_guards: "r \<in> set (SetupRoute g k) \<Longrightarrow> rt_Guards r = guards_of (rt_Handler r)"
  by (auto simp: SetupRoute_def route_of_def split: if_splits)

text \<open>A request is refused without an effect, or its guards pass and its handler runs.\<close>

lemma serve_cases:
  obtains (refused) code err where "serve env cfg m p hdr q st = Ok (ReplyError code err, st)"
  | (handled) h c ps where "run_guards env cfg (guards_of h) \<lparr>gc_Header = hdr, gc_Query = q, gc_Params = ps, gc_Keys = []\<rparr> = Inr c"
      "serve env cfg m p hdr q st = run_handler env cfg h c st"
proof (cases "find_route (SetupRoute (cf_GrpcServer cfg) (cf_KeyStore cfg)) m p")
  case None
  then show thesis using refused by (simp add: serve_def)
next
  case (Some rp)
  obtain r ps where rp: "rp = (r, ps)" by (cases rp)
  have g: "rt_Guards r = guards_of (rt_Handler r)" using find_route_in [OF Some [unfolded rp]] route_guards by blast
  let ?run = "run_guards env cfg (guards_of (rt_Handler r)) \<lparr>gc_Header = hdr, gc_Query = q, gc_Params = ps, gc_Keys = []\<rparr>"
  show thesis
  proof (cases ?run)
    case (Inl e)
    then show thesis using refused [of "fst e" "snd e"] Some rp g by (cases e) (simp add: serve_def)
  next
    case (Inr c)
    then show thesis using handled [of "rt_Handler r" ps c] Some rp g by (simp add: serve_def)
  qed
qed

section \<open>Properties\<close>

lemma Provision_needs_key:
  assumes "Provision env env2 g now svc req ks fs = (r, ks', fs')" "ks' \<noteq> ks \<or> fs' \<noteq> fs"
  shows "\<exists>key pk. req = Inr key \<and> Validate now key ks = Inr pk"
  using assms by (auto simp: Provision_def prov_validate_def split: sum.splits option.splits)

lemma Provision_replies:
  assumes "Provision env env2 g now svc req ks fs = ((n, Inr b), ks', fs')"
  shows "\<exists>key pk. req = Inr key \<and> Validate now key ks = Inr pk \<and> pr_AgentID b = pk_AgentID pk"
proof (cases "prov_validate now svc req ks")
  case (Inl resp)
  then have "isl (snd resp)" by (auto simp: prov_validate_def split: option.splits sum.splits)
  with Inl assms show ?thesis by (auto simp: Provision_def)
next
  case (Inr x)
  then obtain s key pk where x: "x = (s, key, pk_AgentID pk)" "req = Inr key" "Validate now key ks = Inr pk"
    by (auto simp: prov_validate_def split: option.splits sum.splits)
  obtain res fs1 where g: "prov_generate env g s (pk_AgentID pk) fs = (res, fs1)" by (metis surj_pair)
  have "isl (snd resp)" if "res = Inl resp" for resp
    using g that by (auto simp: prov_generate_def split: prod.splits sum.splits option.splits)
  with assms Inr x g obtain pair where "prov_finish env2 s key (pk_AgentID pk) pair fs1 ks = ((n, Inr b), ks')"
    by (cases res) (auto simp: Provision_def split: prod.splits)
  with x show ?thesis by (auto simp: prov_finish_def CertToPEM_def KeyToPEM_def split: sum.splits)
qed

lemma ctx_get_header [simp]: "GetHeader \<lparr>gc_Header = h, gc_Query = q, gc_Params = ps, gc_Keys = ks\<rparr> k =
    (case map_of h (CanonicalHeaderKey k) of Some (v # _) \<Rightarrow> v | _ \<Rightarrow> '''')"
  by (simp add: GetHeader_def)

text \<open>The context of a request before any middleware, as far as authorisation looks at it.\<close>

abbreviation header_ctx :: "http_header \<Rightarrow> gin_ctx" where
  "header_ctx h \<equiv> \<lparr>gc_Header = h, gc_Query = [], gc_Params = [], gc_Keys = []\<rparr>"

lemma guards_authorise:
  assumes "run_guards env cfg (guards_of h) \<lparr>gc_Header = hdr, gc_Query = q, gc_Params = ps, gc_Keys = []\<rparr> = Inr c"
  defines "claims \<equiv> bearer_claims (ae_jwt env) (ae_now env) (cfg_Secret (cf_JWT cfg)) (header_ctx hdr)"
  shows "h \<in> {CertCreate, CertGet, CertDelete, KeyCreate, KeyList, KeyRevoke} \<Longrightarrow> admin_key cfg (header_ctx hdr)"
    and "h = DeleteMe \<Longrightarrow> \<exists>cl. claims = Some cl \<and> map_of (gc_Keys c) ''user_id'' = Some (StringValue (c_UserID cl))"
    and "h = UserList \<Longrightarrow> \<exists>cl. claims = Some cl \<and> c_Role cl = ''Admin''"
proof -
  let ?c = "\<lparr>gc_Header = hdr, gc_Query = q, gc_Params = ps, gc_Keys = []\<rparr>"
  have same: "bearer_claims jl now secret ?c = bearer_claims jl now secret (header_ctx hdr)"
    "admin_key cfg ?c = admin_key cfg (header_ctx hdr)" for jl now secret
    by (simp_all add: bearer_claims_def admin_key_def)
  show "admin_key cfg (header_ctx hdr)" if "h \<in> {CertCreate, CertGet, CertDelete, KeyCreate, KeyList, KeyRevoke}"
    using assms(1) that same(2) by (auto simp: APIKeyAuth_iff split: sum.splits)
  show "\<exists>cl. claims = Some cl \<and> map_of (gc_Keys c) ''user_id'' = Some (StringValue (c_UserID cl))" if "h = DeleteMe"
    using assms(1) that unfolding claims_def by (auto simp: JWTAuth_iff same(1) split: sum.splits)
  show "\<exists>cl. claims = Some cl \<and> c_Role cl = ''Admin''" if "h = UserList"
    using assms(1) that unfolding claims_def
    by (auto simp: JWTAuth_iff same(1) RequireRole_def split: sum.splits if_splits)
qed

lemma bearer_signed:
  assumes "jwt_ok jl" "bearer_claims jl now secret c = Some cl"
  shows "\<exists>t n. GetHeader c ''Authorization'' = ''Bearer '' @ t \<and> jwt_signed jl t (SigningMethodHMAC n) secret"
proof -
  obtain t where t: "GetHeader c ''Authorization'' = ''Bearer '' @ t" "ValidateToken jl now secret t = Some cl"
    using assms(2) by (auto simp: bearer_claims_def Let_def prefix_def split: if_splits)
  then obtain mth k where "token_key secret mth = Some k" "jwt_signed jl t mth k"
    using assms(1) unfolding jwt_ok_def ValidateToken_def by blast
  with t(1) show ?thesis by (cases mth) auto
qed

lemma Register_handler_adds:
  assumes "Register_handler env bc req tab = (r, tab')"
  shows "tab' = tab \<or> (\<exists>u. tab' = tab @ [u] \<and> u_Role u = UserRoleUser \<and> u_Username u \<notin> u_Username ` set tab)"
proof (cases req)
  case (Inl e)
  with assms show ?thesis by (simp add: Register_handler_def)
next
  case (Inr np)
  obtain n p where np: "np = (n, p)" by (cases np)
  obtain res where run: "Register_auth env bc n p tab = (res, tab')"
    using assms Inr np by (auto simp: Register_handler_def split: prod.splits sum.splits)
  from Register_auth_cases [OF run] show ?thesis
    by (auto simp: CreateUser_def Let_def split: if_splits)
qed

lemma serve_effects:
  fixes st :: "'m api_state"
  assumes "jwt_ok (ae_jwt env)"
  shows "\<exists>r st'. serve env cfg m p hdr q st = Ok (r, st') \<and> as_conns st' = as_conns st \<and>
    (as_files st' \<noteq> as_files st \<or> as_keys st' \<noteq> as_keys st \<longrightarrow> admin_key cfg (header_ctx hdr) \<or>
       (\<exists>key pk. ae_string env = Inr key \<and> Validate (ae_now env) key (as_keys st) = Inr pk)) \<and>
    (\<forall>n z. r = ReplyZip (n, Inr z) \<longrightarrow> admin_key cfg (header_ctx hdr)) \<and>
    (\<forall>n l. r = ReplyKeys (n, Inr l) \<longrightarrow> admin_key cfg (header_ctx hdr)) \<and>
    (\<forall>n k. r = ReplyKey (n, Inr k) \<longrightarrow> admin_key cfg (header_ctx hdr)) \<and>
    (\<forall>n b. r = ReplyProvision (n, Inr b) \<longrightarrow>
       (\<exists>key pk. ae_string env = Inr key \<and> Validate (ae_now env) key (as_keys st) = Inr pk \<and> pr_AgentID b = pk_AgentID pk)) \<and>
    (as_users st' \<noteq> as_users st \<longrightarrow>
       (\<exists>u. as_users st' = as_users st @ [u] \<and> u_Role u = UserRoleUser \<and> u_Username u \<notin> u_Username ` set (as_users st)) \<or>
       (\<exists>cl n t i. bearer_claims (ae_jwt env) (ae_now env) (cfg_Secret (cf_JWT cfg)) (header_ctx hdr) = Some cl \<and>
          jwt_signed (ae_jwt env) t (SigningMethodHMAC n) (cfg_Secret (cf_JWT cfg)) \<and> GetHeader (header_ctx hdr) ''Authorization'' = ''Bearer '' @ t \<and>
          ae_uuid_Parse env (c_UserID cl) = Some i \<and> as_users st' = filter (\<lambda>u. u_ID u \<noteq> i) (as_users st))) \<and>
    (\<forall>n l. r = ReplyUsers (n, Inr l) \<longrightarrow>
       (\<exists>cl. bearer_claims (ae_jwt env) (ae_now env) (cfg_Secret (cf_JWT cfg)) (header_ctx hdr) = Some cl \<and> c_Role cl = ''Admin''))"
    (is "\<exists>r st'. _ = Ok (r, st') \<and> ?ok r st'")
proof (cases rule: serve_cases [of env cfg m p hdr q st])
  case refused
  then show ?thesis by simp
next
  case (handled h c ps)
  have "\<exists>r st'. run_handler env cfg h c st = Ok (r, st') \<and> ?ok r st'"
  proof (cases "h \<in> {DeleteMe, RegisterRoute, ProvisionRoute}")
    case False
    with guards_authorise [OF handled(1)] show ?thesis
      by (cases h) (simp_all add: split_beta Let_def)
  next
    case True
    then consider "h = DeleteMe" | "h = RegisterRoute" | "h = ProvisionRoute" by blast
    then show ?thesis
    proof cases
      case 1
      then obtain cl where cl: "bearer_claims (ae_jwt env) (ae_now env) (cfg_Secret (cf_JWT cfg)) (header_ctx hdr) = Some cl"
        and k: "map_of (gc_Keys c) ''user_id'' = Some (StringValue (c_UserID cl))"
        using guards_authorise(2) [OF handled(1)] by blast
      obtain n t where t: "GetHeader (header_ctx hdr) ''Authorization'' = ''Bearer '' @ t"
        "jwt_signed (ae_jwt env) t (SigningMethodHMAC n) (cfg_Secret (cf_JWT cfg))"
        using bearer_signed [OF assms cl] by blast
      show ?thesis
        using 1 k cl t by (auto simp: DeleteUser_handler_def DeleteUser_eq split: option.split)
    next
      case 2
      obtain r tab where run: "Register_handler (ae_db env) (ae_bcrypt env) (ae_credentials env) (as_users st) = (r, tab)"
        by (metis surj_pair)
      from Register_handler_adds [OF this] 2 run show ?thesis by auto
    next
      case 3
      obtain r ks fs where run: "Provision (ae_os env) (ae_os2 env) (ae_gen env) (ae_now env) (cf_CertService cfg) (ae_string env)
          (as_keys st) (as_files st) = (r, ks, fs)" by (metis surj_pair)
      have "\<exists>key pk. ae_string env = Inr key \<and> Validate (ae_now env) key (as_keys st) = Inr pk \<and> pr_AgentID b = pk_AgentID pk"
        if "r = (n, Inr b)" for n b using Provision_replies run that by blast
      with Provision_needs_key [OF run] 3 run show ?thesis by auto
    qed
  qed
  then show ?thesis unfolding handled(2) .
qed

text \<open>
  C5 (safety): no request changes anything it is not entitled to, and none panics.  Certificates and
  provision keys change only with the administrator's key, or by exchanging a valid provision key; archives with
  private keys, new provision keys and the list of provision keys are handed out only with the administrator's
  key; the one other answer with a private key goes to the holder of a valid provision key and is for the agent
  of this key; accounts
  change only by registering an ordinary user or with a bearer token signed with the configured secret, which
  deletes just the account it names; and only a token of an administrator lists the accounts.
\<close>

theorem requests_need_authorisation:
  fixes st :: "'m api_state"
  assumes "jwt_ok (ae_jwt env)"
  shows "\<exists>r st'. serve env cfg m p hdr q st = Ok (r, st') \<and> as_conns st' = as_conns st \<and>
    (as_files st' \<noteq> as_files st \<or> as_keys st' \<noteq> as_keys st \<longrightarrow> admin_key cfg (header_ctx hdr) \<or>
       (\<exists>key pk. ae_string env = Inr key \<and> Validate (ae_now env) key (as_keys st) = Inr pk)) \<and>
    (\<forall>n z. r = ReplyZip (n, Inr z) \<longrightarrow> admin_key cfg (header_ctx hdr)) \<and>
    (\<forall>n l. r = ReplyKeys (n, Inr l) \<longrightarrow> admin_key cfg (header_ctx hdr)) \<and>
    (\<forall>n k. r = ReplyKey (n, Inr k) \<longrightarrow> admin_key cfg (header_ctx hdr)) \<and>
    (\<forall>n b. r = ReplyProvision (n, Inr b) \<longrightarrow>
       (\<exists>key pk. ae_string env = Inr key \<and> Validate (ae_now env) key (as_keys st) = Inr pk \<and> pr_AgentID b = pk_AgentID pk)) \<and>
    (as_users st' \<noteq> as_users st \<longrightarrow>
       (\<exists>u. as_users st' = as_users st @ [u] \<and> u_Role u = UserRoleUser \<and> u_Username u \<notin> u_Username ` set (as_users st)) \<or>
       (\<exists>cl n t i. bearer_claims (ae_jwt env) (ae_now env) (cfg_Secret (cf_JWT cfg)) (header_ctx hdr) = Some cl \<and>
          jwt_signed (ae_jwt env) t (SigningMethodHMAC n) (cfg_Secret (cf_JWT cfg)) \<and> GetHeader (header_ctx hdr) ''Authorization'' = ''Bearer '' @ t \<and>
          ae_uuid_Parse env (c_UserID cl) = Some i \<and> as_users st' = filter (\<lambda>u. u_ID u \<noteq> i) (as_users st))) \<and>
    (\<forall>n l. r = ReplyUsers (n, Inr l) \<longrightarrow>
       (\<exists>cl. bearer_claims (ae_jwt env) (ae_now env) (cfg_Secret (cf_JWT cfg)) (header_ctx hdr) = Some cl \<and> c_Role cl = ''Admin''))"
  by (rule serve_effects [OF assms])

text \<open>Libraries for examples: one token, and hashes that are the password itself.\<close>

definition example_jwt :: "Claims \<Rightarrow> string \<Rightarrow> jwt_lib" where
  "example_jwt cl secret =
     \<lparr>SignedString = \<lambda>m c k. if m = SigningMethodHMAC 256 \<and> c = cl \<and> k = secret then Some ''tok'' else None,
      ParseWithClaims = \<lambda>now t kf.
        if t = ''tok'' \<and> kf (SigningMethodHMAC 256) = Some secret \<and> (case c_ExpiresAt cl of Some e \<Rightarrow> now < e | None \<Rightarrow> True) then Some cl else None,
      jwt_signed = \<lambda>t m k. t = ''tok'' \<and> m = SigningMethodHMAC 256 \<and> k = secret,
      NewNumericDate = \<lambda>t. t\<rparr>"

lemma example_jwt_ok: "jwt_ok (example_jwt cl secret)"
  by (auto simp: jwt_ok_def example_jwt_def second_def split: if_splits)

definition example_bcrypt :: bcrypt_lib where
  "example_bcrypt = \<lparr>GenerateFromPassword = \<lambda>p. if length p \<le> 72 then Some p else None, CompareHashAndPassword = \<lambda>h p. h = p\<rparr>"

lemma example_bcrypt_ok: "bcrypt_ok example_bcrypt"
  by (auto simp: bcrypt_ok_def example_bcrypt_def split: if_splits)

definition example_db :: "string \<Rightarrow> db_env" where
  "example_db i = \<lparr>de_fail = False, de_uuid = i, de_now = 0, de_varchar = \<lambda>s. length s \<le> 255, de_order = rev \<circ> sort_key u_CreatedAt\<rparr>"

lemma example_order_ok: "order_ok (example_db i)"
proof -
  have "sorted_wrt (\<lambda>u v. u_CreatedAt v \<le> u_CreatedAt u) (rev (sort_key u_CreatedAt tab))" for tab :: "User list"
    using sorted_sort_key [of u_CreatedAt tab] by (simp add: sorted_wrt_rev sorted_map)
  then show ?thesis by (simp add: order_ok_def example_db_def)
qed

definition example_claims :: Claims where
  "example_claims = \<lparr>c_UserID = uuidToString (replicate 16 CHR ''u''), c_Username = ''bob'', c_Role = ''User'',
     c_ExpiresAt = Some (60 * minute), c_IssuedAt = Some 0\<rparr>"

definition example_env :: api_env where
  "example_env =
     \<lparr>ae_now = 0, ae_jwt = example_jwt example_claims ''secret'', ae_bcrypt = example_bcrypt, ae_db = example_db ''id'', ae_db2 = example_db ''id'',
      ae_uuid_Parse = \<lambda>_. None, ae_os = os_fine, ae_os2 = os_fine, ae_gen = gen_example 3, ae_rand = Some ''r'',
      ae_credentials = Inl ''no body'', ae_string = Inl ''no body'', ae_unmatched = (404, ''404 page not found'')\<rparr>"

definition example_cfg :: api_config where
  "example_cfg = \<lparr>cf_GrpcServer = True, cf_CertService = Some example_service, cf_KeyStore = True, cf_AdminAPIKey = ''admin'',
     cf_JWT = \<lparr>cfg_Secret = ''secret'', cfg_ExpirationMinutes = 60\<rparr>\<rparr>"

theorem requests_need_authorisation_witness:
  "let st = \<lparr>as_users = [], as_keys = NewKeyStore hour, as_files = example_fs, as_conns = NewConnectionManager (None :: unit option)\<rparr>
   in \<exists>r st'. serve example_env example_cfg ''POST'' [''agents'', ''a'', ''certificate''] [(''X-Api-Key'', [''guess''])] [] st = Ok (r, st') \<and>
        as_files st' = example_fs"
proof -
  define st where "st = \<lparr>as_users = [], as_keys = NewKeyStore hour, as_files = example_fs, as_conns = NewConnectionManager (None :: unit option)\<rparr>"
  have ok: "jwt_ok (ae_jwt example_env)" by (simp add: example_env_def example_jwt_ok)
  have no: "\<not> admin_key example_cfg (header_ctx [(''X-Api-Key'', [''guess''])])" by code_simp
  have body: "ae_string example_env = Inl ''no body''" by (simp add: example_env_def)
  from requests_need_authorisation [OF ok, of example_cfg "''POST''" "[''agents'', ''a'', ''certificate'']" "[(''X-Api-Key'', [''guess''])]" "[]" st] no body
  obtain r st' where "serve example_env example_cfg ''POST'' [''agents'', ''a'', ''certificate''] [(''X-Api-Key'', [''guess''])] [] st = Ok (r, st')"
    "as_files st' = as_files st" by auto
  then show ?thesis unfolding Let_def st_def [symmetric] by (auto simp: st_def)
qed

lemma Register_handler_created:
  assumes "Register_handler env bc (Inr (n, p)) tab = ((201, Inr rr), tab1)" "users_ok tab"
  obtains h u where "GenerateFromPassword bc p = Some h" "tab1 = tab @ [u]" "users_ok tab1" "u_Username u = n" "u_PasswordHash u = h"
    "u_Role u = UserRoleUser" "u_ID u = de_uuid env" "u_ID u \<notin> u_ID ` set tab" "n \<notin> u_Username ` set tab"
proof -
  have run: "Register_auth env bc n p tab = (Inr rr, tab1)"
    using assms(1) by (auto simp: Register_handler_def split: prod.splits sum.splits if_splits)
  then obtain h u where h: "GenerateFromPassword bc p = Some h" "CreateUser env n h UserRoleUser tab = (Inr u, tab1)"
    using Register_auth_cases [OF run] by auto
  from CreateUser_ok(1,2) [OF h(2) assms(2)] that [OF h(1)] show thesis by blast
qed

lemma Login_issues:
  assumes "users_ok tab" "u \<in> set tab" "CompareHashAndPassword bc (u_PasswordHash u) p"
    and "Login_handler env bc jl now cfg (Inr (u_Username u, p)) tab = (st, body)"
  shows "if de_fail env \<or> GenerateToken jl now cfg (uuidToString (u_ID u)) (u_Username u) (role_string (u_Role u)) = None
    then st = 500 \<and> isl body
    else st = 200 \<and> (\<exists>token. body = Inr token \<and>
      GenerateToken jl now cfg (uuidToString (u_ID u)) (u_Username u) (role_string (u_Role u)) = Some token)"
proof (cases "de_fail env")
  case True
  with assms(4) show ?thesis by (auto simp: Login_handler_def Login_def GetUserByUsername_def)
next
  case False
  have "GetUserByUsername env (u_Username u) tab = Inr u" using q.by_name_row [OF assms(1) False] assms(2) by simp
  with assms(3,4) False show ?thesis
    by (auto simp: Login_handler_def Login_def CheckPassword_def split: option.splits)
qed

lemma JWTAuth_signed:
  assumes "jwt_ok jl" "SignedString jl (SigningMethodHMAC 256) cl secret = Some token" "c_ExpiresAt cl = Some e"
    and "GetHeader c ''Authorization'' = ''Bearer '' @ token"
  shows "JWTAuth jl t secret c = (if t < e
    then Inr (ctx_set ''role'' (c_Role cl) (ctx_set ''username'' (c_Username cl) (ctx_set ''user_id'' (c_UserID cl) c)))
    else Inl (401, ''invalid token''))"
proof -
  have "ParseWithClaims jl t token (token_key secret) = (if t < e then Some cl else None)"
    using assms(1-3) unfolding jwt_ok_def by (metis token_key.simps(1))
  with assms(4) show ?thesis by (simp add: JWTAuth_def ValidateToken_def)
qed

text \<open>
  C11 (roundtrip): the life of an account.  Who registered can log in with the same name and password, unless
  the database or the signing fails, which gives status 500; the token identifies the account until the configured
  time has passed, to within a second, and not afterwards; it does not open the routes of administrators; and it
  deletes exactly this account, after which the login is refused.
\<close>

theorem account_lifecycle:
  assumes "jwt_ok jl" "bcrypt_ok bc" "users_ok tab" "parse (uuidToString (de_uuid env)) = Some (de_uuid env)"
    and "Register_handler env bc (Inr (n, p)) tab = ((201, Inr rr), tab1)"
    and "Login_handler env2 bc jl now cfg (Inr (n, p)) tab1 = (st, body)" "\<not> de_fail env3"
  shows "if de_fail env2 \<or> GenerateToken jl now cfg (uuidToString (de_uuid env)) n ''User'' = None
    then st = 500 \<and> isl body
    else st = 200 \<and>
    (\<exists>token e. body = Inr token \<and> now + expiration cfg - second < e \<and> e \<le> now + expiration cfg \<and>
       (\<forall>t c. GetHeader c ''Authorization'' = ''Bearer '' @ token \<longrightarrow>
          (if t < e then \<exists>c'. JWTAuth jl t (cfg_Secret cfg) c = Inr c' \<and>
             map_of (gc_Keys c') ''username'' = Some (StringValue n) \<and> RequireRole [''Admin''] c' = Inl (403, ''forbidden'') \<and>
             DeleteUser_handler env3 parse c' tab1 = Ok ((204, Inr ()), tab)
           else JWTAuth jl t (cfg_Secret cfg) c = Inl (401, ''invalid token''))) \<and>
       Login_handler env3 bc jl t2 cfg (Inr (n, p)) tab = (401, Inl ''invalid credentials''))"
proof -
  obtain h u where R: "GenerateFromPassword bc p = Some h" "tab1 = tab @ [u]" "users_ok tab1" "u_Username u = n" "u_PasswordHash u = h"
      "u_Role u = UserRoleUser" "u_ID u = de_uuid env" "u_ID u \<notin> u_ID ` set tab" "n \<notin> u_Username ` set tab"
    by (rule Register_handler_created [OF assms(5,3)])
  have cmp: "CompareHashAndPassword bc (u_PasswordHash u) p" using assms(2) R(1,5) by (simp add: bcrypt_ok_def)
  have mem: "u \<in> set tab1" by (simp add: R(2))
  let ?e = "NewNumericDate jl (now + expiration cfg)" and ?gen = "GenerateToken jl now cfg (uuidToString (de_uuid env)) n ''User''"
  let ?cl = "\<lparr>c_UserID = uuidToString (u_ID u), c_Username = n, c_Role = ''User'', c_ExpiresAt = Some ?e, c_IssuedAt = Some (NewNumericDate jl now)\<rparr>"
  have issued: "if de_fail env2 \<or> ?gen = None then st = 500 \<and> isl body else st = 200 \<and> (\<exists>token. body = Inr token \<and> ?gen = Some token)"
    using Login_issues [OF R(3) mem cmp, unfolded R(4,6,7) role_string.simps, OF assms(6)] .
  show ?thesis
  proof (cases "de_fail env2 \<or> ?gen = None")
    case False
    with issued obtain token where tok: "st = 200" "body = Inr token" "?gen = Some token" by auto
    then have signed: "SignedString jl (SigningMethodHMAC 256) ?cl (cfg_Secret cfg) = Some token"
      by (simp add: GenerateToken_def Let_def time_add_def R(7))
    have gone: "filter (\<lambda>v. u_ID v \<noteq> u_ID u) tab1 = tab"
      using R(2,8) by (auto simp: image_iff intro!: filter_True)
    have "GetUserByUsername env3 n tab = Inl NoRows" by (rule q.by_name_none [OF assms(7) R(9)])
    then have login: "Login_handler env3 bc jl t2 cfg (Inr (n, p)) tab = (401, Inl ''invalid credentials'')"
      by (simp add: Login_handler_def Login_def)
    have e: "now + expiration cfg - second < ?e" "?e \<le> now + expiration cfg" using assms(1) unfolding jwt_ok_def by blast+
    have "if t < ?e then \<exists>c'. JWTAuth jl t (cfg_Secret cfg) c = Inr c' \<and>
             map_of (gc_Keys c') ''username'' = Some (StringValue n) \<and> RequireRole [''Admin''] c' = Inl (403, ''forbidden'') \<and>
             DeleteUser_handler env3 parse c' tab1 = Ok ((204, Inr ()), tab)
           else JWTAuth jl t (cfg_Secret cfg) c = Inl (401, ''invalid token'')"
      if "GetHeader c ''Authorization'' = ''Bearer '' @ token" for t c
      using JWTAuth_signed [OF assms(1) signed _ that, of ?e t] assms(4,7) gone R(7)
      by (auto simp: RequireRole_def DeleteUser_handler_def DeleteUser_eq)
    with tok(1,2) e login show ?thesis unfolding if_not_P [OF False] by blast
  qed (use issued in simp)
qed

theorem account_lifecycle_witness:
  "let db = example_db (replicate 16 CHR ''u''); jl = example_jwt example_claims ''secret''; cfg = cf_JWT example_cfg in
   \<exists>rr tab1 token. Register_handler db example_bcrypt (Inr (''bob'', ''password'')) [] = ((201, Inr rr), tab1) \<and>
     Login_handler db example_bcrypt jl 0 cfg (Inr (''bob'', ''password'')) tab1 = (200, Inr token) \<and>
     (\<exists>c'. JWTAuth jl 5 ''secret'' (header_ctx [(''Authorization'', [''Bearer '' @ token])]) = Inr c' \<and>
       DeleteUser_handler db (\<lambda>_. Some (replicate 16 CHR ''u'')) c' tab1 = Ok ((204, Inr ()), []))"
proof -
  define db where "db = example_db (replicate 16 CHR ''u'')"
  define jl where "jl = example_jwt example_claims ''secret''"
  let ?reg = "Register_handler db example_bcrypt (Inr (''bob'', ''password'')) []"
  let ?login = "Login_handler db example_bcrypt jl 0 (cf_JWT example_cfg) (Inr (''bob'', ''password'')) (snd ?reg)"
  have ok: "jwt_ok jl" "bcrypt_ok example_bcrypt" "users_ok []" "\<not> de_fail db"
    by (simp_all add: jl_def example_jwt_ok example_bcrypt_ok users_ok_def db_def example_db_def)
  have "case fst ?reg of (st, Inr rr) \<Rightarrow> st = 201 | _ \<Rightarrow> False" unfolding db_def by code_simp
  then obtain rr tab1 where reg: "?reg = ((201, Inr rr), tab1)" by (cases ?reg; cases "snd (fst ?reg)") auto
  have "?login = (200, Inr ''tok'')" unfolding db_def jl_def by code_simp
  then have login: "Login_handler db example_bcrypt jl 0 (cf_JWT example_cfg) (Inr (''bob'', ''password'')) tab1 = (200, Inr ''tok'')"
    using reg by simp
  have exp: "expiration (cf_JWT example_cfg) - second > 5" "cfg_Secret (cf_JWT example_cfg) = ''secret''" by code_simp+
  have hdr: "GetHeader (header_ctx [(''Authorization'', [''Bearer '' @ ''tok''])]) ''Authorization'' = ''Bearer '' @ ''tok''" by code_simp
  have "(\<lambda>_. Some (replicate 16 CHR ''u'')) (uuidToString (de_uuid db)) = Some (de_uuid db)" by (simp add: db_def example_db_def)
  note life = account_lifecycle [OF ok(1-3) this reg login ok(4), of 0]
  have no: "\<not> (de_fail db \<or> GenerateToken jl 0 (cf_JWT example_cfg) (uuidToString (de_uuid db)) ''bob'' ''User'' = None)"
    unfolding db_def jl_def by code_simp
  from life [unfolded if_not_P [OF no]] obtain e where e: "0 + expiration (cf_JWT example_cfg) - second < e"
    "\<forall>t c. GetHeader c ''Authorization'' = ''Bearer '' @ ''tok'' \<longrightarrow>
       (if t < e then \<exists>c'. JWTAuth jl t (cfg_Secret (cf_JWT example_cfg)) c = Inr c' \<and> map_of (gc_Keys c') ''username'' = Some (StringValue ''bob'') \<and>
          RequireRole [''Admin''] c' = Inl (403, ''forbidden'') \<and>
          DeleteUser_handler db (\<lambda>_. Some (replicate 16 CHR ''u'')) c' tab1 = Ok ((204, Inr ()), [])
        else JWTAuth jl t (cfg_Secret (cf_JWT example_cfg)) c = Inl (401, ''invalid token''))"
    by blast
  from e(2) [unfolded exp(2), rule_format, OF hdr, of 5] e(1) exp(1) obtain c' where
    "JWTAuth jl 5 ''secret'' (header_ctx [(''Authorization'', [''Bearer '' @ ''tok''])]) = Inr c'"
    "DeleteUser_handler db (\<lambda>_. Some (replicate 16 CHR ''u'')) c' tab1 = Ok ((204, Inr ()), [])"
    by auto
  with reg login show ?thesis unfolding Let_def db_def [symmetric] jl_def [symmetric] by blast
qed

lemma ListUsers_handler_page:
  assumes "map_of (gc_Query c) ''page'' = Some (Itoa p)" "map_of (gc_Query c) ''page_size'' = Some (Itoa z)"
    and "1 \<le> p" "p < 2 ^ 63" "1 \<le> z" "z \<le> 100"
  shows "ListUsers_handler env env2 c tab =
    (case ListUsers env env2 z (wrap64 ((p - 1) * z)) tab of
       Inl e \<Rightarrow> (500, Inl ''internal error'')
     | Inr (userList, n) \<Rightarrow> (200, Inr \<lparr>lu_Users = map user_response userList, lu_Total = n, lu_Page = p, lu_PageSize = z\<rparr>))"
proof -
  have "Atoi_value (DefaultQuery c ''page'' ''1'') = p" "Atoi_value (DefaultQuery c ''page_size'' ''20'') = z"
    using assms by (simp_all add: DefaultQuery_def Atoi_value_Itoa)
  moreover have "\<not> p < 1" "\<not> (z < 1 \<or> z > 100)" using assms(3,5,6) by auto
  ultimately show ?thesis unfolding ListUsers_handler_def Let_def by (simp only: if_False)
qed

text \<open>
  One page.  Every request is a query of its own, and PostgreSQL may order the rows of the same creation time
  differently for each: \<open>env\<close> is that of this query.
\<close>

lemma listed_page:
  assumes "\<not> de_fail env" "\<not> de_fail env2" "1 \<le> z" "z \<le> 100" "k * z < 2 ^ 31" "p \<in> {1..k}"
    and "map_of (gc_Query c) ''page'' = Some (Itoa (int p))" "map_of (gc_Query c) ''page_size'' = Some (Itoa (int z))"
  shows "ListUsers_handler env env2 c tab =
    (200, Inr \<lparr>lu_Users = map (user_response \<circ> user_info) (take z (drop ((p - 1) * z) (de_order env tab))),
      lu_Total = int (length tab), lu_Page = int p, lu_PageSize = int z\<rparr>)"
proof -
  have off: "(int p - 1) * int z = int ((p - 1) * z)" using assms(6) by (simp add: of_nat_diff)
  have small: "int ((p - 1) * z) < 2 ^ 31"
  proof -
    have "(p - 1) * z \<le> k * z" using assms(6) by (intro mult_le_mono1) auto
    then have "(p - 1) * z < 2 ^ 31" using assms(5) by (rule le_less_trans)
    then show ?thesis by (simp only: of_nat_less_numeral_power_cancel_iff)
  qed
  have "p \<le> p * z" "p * z \<le> k * z" using assms(3,6) by simp_all
  with assms(5) have "p < 2 ^ 31" by linarith
  then have "int p < 2 ^ 31" by (simp only: of_nat_less_numeral_power_cancel_iff)
  then have "int p < 2 ^ 63" by simp
  then have "ListUsers_handler env env2 c tab = (case ListUsers env env2 (int z) (wrap64 ((int p - 1) * int z)) tab of
       Inl e \<Rightarrow> (500, Inl ''internal error'')
     | Inr (userList, n) \<Rightarrow> (200, Inr \<lparr>lu_Users = map user_response userList, lu_Total = n, lu_Page = int p, lu_PageSize = int z\<rparr>))"
    using assms(3,4,6-8) by (intro ListUsers_handler_page) auto
  also have "wrap64 ((int p - 1) * int z) = int ((p - 1) * z)"
    unfolding off by (rule wrap64_id) (use small in \<open>simp_all del: of_nat_mult\<close>)
  also have "ListUsers env env2 (int z) (int ((p - 1) * z)) tab =
      Inr (map user_info (take z (drop ((p - 1) * z) (de_order env tab))), int (length tab))"
    using assms(1,2,4) small ListUsers_page [of env env2 "int z" "int ((p - 1) * z)" tab] by (simp del: of_nat_mult)
  finally show ?thesis by simp
qed

text \<open>Without equal creation times there is one way to put the newest first.\<close>

definition newest_first :: "User list \<Rightarrow> User list" where
  "newest_first tab = rev (sort_key u_CreatedAt tab)"

lemma order_unique:
  assumes "order_ok env" "distinct (map u_CreatedAt tab)"
  shows "de_order env tab = newest_first tab"
proof -
  let ?r = "rev (de_order env tab)" and ?s = "sort_key u_CreatedAt tab"
  have perm: "mset ?r = mset tab" "sorted_wrt (\<lambda>u v. u_CreatedAt v \<le> u_CreatedAt u) (de_order env tab)"
    using assms(1) by (simp_all add: order_ok_def)
  have set: "set ?r = set tab" using perm(1) by (rule mset_eq_setD)
  have "mset (map u_CreatedAt ?r) = mset (map u_CreatedAt tab)" "mset (map u_CreatedAt ?s) = mset (map u_CreatedAt tab)"
    using perm(1) by simp_all
  from this [THEN mset_eq_imp_distinct_iff] assms(2)
  have "distinct (map u_CreatedAt ?r)" "distinct (map u_CreatedAt ?s)" by blast+
  moreover have "sorted (map u_CreatedAt ?r)" using perm(2) by (simp add: sorted_wrt_rev sorted_wrt_map)
  moreover have "inj_on u_CreatedAt (set ?r \<union> set ?s)" using assms(2) set by (simp add: distinct_map)
  ultimately have "?r = ?s" by (intro map_sorted_distinct_set_unique [where f = u_CreatedAt]) (use set in simp_all)
  then show ?thesis by (metis newest_first_def rev_rev_ident)
qed

text \<open>
  C24 (refinement): as long as the offset fits 32 bits, the listing of accounts implements its specification.  Every
  page reports the total and is the corresponding part of all accounts, newest first, in the order that the
  database chose for this query.  If no two accounts have the same creation time this order is always the same, so
  that the pages one after the other list every account exactly once.
\<close>

theorem pages_list_every_account:
  fixes tab :: "User list"
  assumes "\<And>p. order_ok (env p) \<and> \<not> de_fail (env p) \<and> \<not> de_fail (env2 p)" "1 \<le> z" "z \<le> 100" "k * z < 2 ^ 31"
    and "\<And>p. map_of (gc_Query (c p)) ''page'' = Some (Itoa (int p))" "\<And>p. map_of (gc_Query (c p)) ''page_size'' = Some (Itoa (int z))"
  defines "page \<equiv> \<lambda>p. ListUsers_handler (env p) (env2 p) (c p) tab"
  shows "(\<forall>p\<in>{1..k}. page p = (200, Inr \<lparr>lu_Users = map (user_response \<circ> user_info) (take z (drop ((p - 1) * z) (de_order (env p) tab))),
      lu_Total = int (length tab), lu_Page = int p, lu_PageSize = int z\<rparr>)) \<and>
    (distinct (map u_CreatedAt tab) \<longrightarrow>
      concat (map (\<lambda>p. lu_Users (projr (snd (page p)))) [1..<Suc k]) = map (user_response \<circ> user_info) (take (k * z) (newest_first tab)) \<and>
      (length tab \<le> k * z \<longrightarrow>
         mset (concat (map (\<lambda>p. lu_Users (projr (snd (page p)))) [1..<Suc k])) = image_mset (user_response \<circ> user_info) (mset tab)))"
proof (intro conjI ballI impI)
  show one: "page p = (200, Inr \<lparr>lu_Users = map (user_response \<circ> user_info) (take z (drop ((p - 1) * z) (de_order (env p) tab))),
      lu_Total = int (length tab), lu_Page = int p, lu_PageSize = int z\<rparr>)" if "p \<in> {1..k}" for p
    unfolding page_def using assms(1) [of p] listed_page [OF _ _ assms(2-4) that assms(5,6)] by blast
  assume times: "distinct (map u_CreatedAt tab)"
  then have ord: "de_order (env p) tab = newest_first tab" for p using assms(1) [of p] order_unique by blast
  have "concat (map (\<lambda>p. lu_Users (projr (snd (page p)))) [1..<Suc k]) =
      concat (map (\<lambda>p. map (user_response \<circ> user_info) (take z (drop ((p - 1) * z) (newest_first tab)))) [1..<Suc k])"
    by (intro arg_cong [where f = concat] map_cong refl) (auto simp: one ord)
  also have "\<dots> = concat (map (\<lambda>p. map (user_response \<circ> user_info) (take z (drop (p * z) (newest_first tab)))) [0..<k])"
    by (simp add: map_Suc_upt [symmetric] comp_def del: upt_Suc)
  also have "\<dots> = map (user_response \<circ> user_info) (concat (map (\<lambda>p. take z (drop (p * z) (newest_first tab))) [0..<k]))"
    by (simp add: map_concat comp_def)
  finally show all: "concat (map (\<lambda>p. lu_Users (projr (snd (page p)))) [1..<Suc k]) =
      map (user_response \<circ> user_info) (take (k * z) (newest_first tab))" by (simp only: concat_pages)
  assume "length tab \<le> k * z"
  then show "mset (concat (map (\<lambda>p. lu_Users (projr (snd (page p)))) [1..<Suc k])) = image_mset (user_response \<circ> user_info) (mset tab)"
    unfolding all by (simp add: newest_first_def)
qed

theorem pages_list_every_account_witness:
  "let db = example_db ''i''; tab = migrated_users db;
       c = (\<lambda>p. \<lparr>gc_Header = [], gc_Query = [(''page'', Itoa (int p)), (''page_size'', Itoa (int 1))], gc_Params = [], gc_Keys = []\<rparr>)
   in length (concat (map (\<lambda>p. lu_Users (projr (snd (ListUsers_handler db db (c p) tab)))) [1..<Suc 2])) = 1"
proof -
  let ?db = "example_db ''i''" and ?tab = "migrated_users (example_db ''i'')"
  let ?c = "\<lambda>p. \<lparr>gc_Header = [], gc_Query = [(''page'', Itoa (int p)), (''page_size'', Itoa (int 1))], gc_Params = [], gc_Keys = []\<rparr>"
  have db: "order_ok ?db \<and> \<not> de_fail ?db \<and> \<not> de_fail ?db" using example_order_ok by (simp add: example_db_def)
  have "mset (concat (map (\<lambda>p. lu_Users (projr (snd (ListUsers_handler ?db ?db (?c p) ?tab)))) [1..<Suc 2]))
      = image_mset (user_response \<circ> user_info) (mset ?tab)"
    by (rule pages_list_every_account [OF db, of 1, THEN conjunct2, rule_format, THEN conjunct2, rule_format])
      (simp_all add: migrated_users_def)
  then have "size (mset (concat (map (\<lambda>p. lu_Users (projr (snd (ListUsers_handler ?db ?db (?c p) ?tab)))) [1..<Suc 2]))) = 1"
    by (simp only: size_image_mset size_mset) (simp add: migrated_users_def)
  then show ?thesis unfolding Let_def size_mset .
qed

text \<open>
  A database that puts one table in a chosen order, as far as \<^verbatim>\<open>ORDER BY created_at DESC\<close> allows it.
\<close>

definition ordered_db :: "User list \<Rightarrow> db_env" where
  "ordered_db l = \<lparr>de_fail = False, de_uuid = '''', de_now = 0, de_varchar = \<lambda>_. True,
     de_order = \<lambda>t. if mset t = mset l then l else newest_first t\<rparr>"

lemma ordered_db_ok:
  assumes "sorted_wrt (\<lambda>u v. u_CreatedAt v \<le> u_CreatedAt u) l"
  shows "order_ok (ordered_db l)" "\<not> de_fail (ordered_db l)" "mset t = mset l \<Longrightarrow> de_order (ordered_db l) t = l"
proof -
  have "sorted_wrt (\<lambda>u v. u_CreatedAt v \<le> u_CreatedAt u) (newest_first t)" for t
    using sorted_sort_key [of u_CreatedAt t] by (simp add: newest_first_def sorted_wrt_rev sorted_wrt_map)
  with assms show "order_ok (ordered_db l)" by (simp add: order_ok_def ordered_db_def newest_first_def)
qed (simp_all add: ordered_db_def)

text \<open>Accounts with the same creation time can stand next to each other, either way round.\<close>

lemma tied_orders:
  fixes tab :: "User list"
  assumes "distinct tab" "u \<in> set tab" "v \<in> set tab" "u \<noteq> v" "u_CreatedAt u = u_CreatedAt v"
  obtains xs ys where "mset (xs @ u # v # ys) = mset tab"
    "sorted_wrt (\<lambda>u v. u_CreatedAt v \<le> u_CreatedAt u) (xs @ u # v # ys)" "sorted_wrt (\<lambda>u v. u_CreatedAt v \<le> u_CreatedAt u) (xs @ v # u # ys)"
proof -
  let ?R = "\<lambda>u v. u_CreatedAt v \<le> u_CreatedAt u" and ?rest = "newest_first (remove1 v (remove1 u tab))"
  let ?new = "\<lambda>w. u_CreatedAt u < u_CreatedAt w"
  define xs ys where "xs = filter ?new ?rest" and "ys = filter (\<lambda>w. \<not> ?new w) ?rest"
  have "mset xs + mset ys = mset ?rest" unfolding xs_def ys_def mset_filter by (rule multiset_partition [symmetric])
  moreover have "mset ?rest = mset tab - {#u#} - {#v#}" by (simp add: newest_first_def)
  moreover have "v \<in># mset tab - {#u#}" using assms(3,4) by (simp add: in_diff_count)
  ultimately have "mset (xs @ u # v # ys) = mset tab" using assms(2)
    by (metis (no_types, lifting) add_mset_add_single insert_DiffM2 mset.simps(2) mset_append set_mset_mset union_assoc union_commute)
  moreover have "sorted_wrt ?R ?rest"
    using sorted_sort_key [of u_CreatedAt "remove1 v (remove1 u tab)"] by (simp add: newest_first_def sorted_wrt_rev sorted_wrt_map)
  then have "sorted_wrt ?R xs" "sorted_wrt ?R ys" unfolding xs_def ys_def by (simp_all add: sorted_wrt_filter)
  then have "sorted_wrt ?R (xs @ u # v # ys)" "sorted_wrt ?R (xs @ v # u # ys)"
    unfolding sorted_wrt_append by (auto simp: xs_def ys_def assms(5) [symmetric] intro: less_imp_le order.trans)
  ultimately show thesis by (rule that)
qed

text \<open>
  C29 (error): the order by creation time alone does not make the pages fit together.  When two accounts
  have the same creation time, the database may list them one way for one page and the other way for the next; then
  the pages, taken one after the other on an unchanged table, show one of the accounts twice and the other not at all.
\<close>

theorem tied_pages_repeat:
  assumes "users_ok tab" "u \<in> set tab" "v \<in> set tab" "u \<noteq> v" "u_CreatedAt u = u_CreatedAt v" "length tab < 2 ^ 31"
    and "\<And>p. map_of (gc_Query (c p)) ''page'' = Some (Itoa (int p))" "\<And>p. map_of (gc_Query (c p)) ''page_size'' = Some (Itoa (int 1))"
  shows "\<exists>env. (\<forall>p. order_ok (env p) \<and> \<not> de_fail (env p)) \<and>
    (let shown = concat (map (\<lambda>p. lu_Users (projr (snd (ListUsers_handler (env p) (env p) (c p) tab)))) [1..<Suc (length tab)])
     in length shown = length tab \<and> 2 \<le> count_list shown (user_response (user_info u)) \<and> user_response (user_info v) \<notin> set shown)"
proof -
  let ?f = "user_response \<circ> user_info"
  have dist: "distinct (map u_Username tab)" using assms(1) by (simp add: users_ok_def)
  then have "distinct tab" by (simp add: distinct_map)
  from tied_orders [OF this assms(2-5)] obtain xs ys where l: "mset (xs @ u # v # ys) = mset tab"
    "sorted_wrt (\<lambda>u v. u_CreatedAt v \<le> u_CreatedAt u) (xs @ u # v # ys)" "sorted_wrt (\<lambda>u v. u_CreatedAt v \<le> u_CreatedAt u) (xs @ v # u # ys)" .
  define env where "env p = (if p \<le> Suc (length xs) then ordered_db (xs @ u # v # ys) else ordered_db (xs @ v # u # ys))" for p
  have ok: "order_ok (env p) \<and> \<not> de_fail (env p)" for p using ordered_db_ok(1,2) [OF l(2)] ordered_db_ok(1,2) [OF l(3)] by (simp add: env_def)
  have len: "length tab = length xs + length ys + 2" using arg_cong [OF l(1), of size] by simp
  have page: "lu_Users (projr (snd (ListUsers_handler (env p) (env p) (c p) tab))) = [?f ((xs @ u # u # ys) ! (p - 1))]"
    if p: "p \<in> {1..length tab}" for p
  proof -
    have ord: "de_order (env p) tab = (if p \<le> Suc (length xs) then xs @ u # v # ys else xs @ v # u # ys)" (is "_ = ?o")
      using ordered_db_ok(3) [OF l(2), of tab] ordered_db_ok(3) [OF l(3), of tab] l(1) by (simp add: env_def add_mset_commute [of u v])
    have "p - 1 < length ?o" using p len by auto
    then have "take 1 (drop (p - 1) ?o) = [?o ! (p - 1)]" by (metis Cons_nth_drop_Suc One_nat_def take_Suc_Cons take_0)
    also have "?o ! (p - 1) = (xs @ u # u # ys) ! (p - 1)" using p by (auto simp: nth_append nth_Cons split: nat.split)
    finally show ?thesis
      using listed_page [of "env p" "env p" 1 "length tab" p "c p" tab] ok [of p] assms(6-8) p by (simp add: ord)
  qed
  let ?shown = "concat (map (\<lambda>p. lu_Users (projr (snd (ListUsers_handler (env p) (env p) (c p) tab)))) [1..<Suc (length tab)])"
  have "?shown = concat (map (\<lambda>p. [?f ((xs @ u # u # ys) ! (p - 1))]) [1..<Suc (length tab)])"
    by (intro arg_cong [where f = concat] map_cong refl page) auto
  also have "\<dots> = map (\<lambda>p. ?f ((xs @ u # u # ys) ! p)) [0..<length tab]"
    by (simp add: map_Suc_upt [symmetric] comp_def del: upt_Suc)
  also have "\<dots> = map ?f (map ((!) (xs @ u # u # ys)) [0..<length (xs @ u # u # ys)])" by (simp add: len del: upt_Suc)
  also have "\<dots> = map ?f (xs @ u # u # ys)" by (simp only: map_nth)
  finally have shown: "?shown = map ?f (xs @ u # u # ys)" .
  have "mset (map u_Username (xs @ u # v # ys)) = mset (map u_Username tab)" using l(1) by (metis mset_map)
  from mset_eq_imp_distinct_iff [OF this] dist have names: "u_Username v \<notin> u_Username ` set (xs @ u # u # ys)" by auto
  have "?f v \<notin> set (map ?f (xs @ u # u # ys))"
  proof
    assume "?f v \<in> set (map ?f (xs @ u # u # ys))"
    then obtain w where "w \<in> set (xs @ u # u # ys)" "?f v = ?f w" by auto
    then have w: "w \<in> set (xs @ u # u # ys)" "u_Username v = u_Username w"
      using arg_cong [of "?f v" "?f w" ur_Username] by (simp_all add: user_response_def user_info_def)
    with names imageI [OF w(1), of u_Username] show False by metis
  qed
  then show ?thesis using ok shown len by (intro exI [of _ env]) (simp add: Let_def del: upt_Suc)
qed

theorem tied_pages_repeat_witness:
  "let u = \<lparr>u_ID = ''1'', u_Username = ''ann'', u_PasswordHash = ''h'', u_Role = UserRoleUser, u_CreatedAt = 7, u_UpdatedAt = 7\<rparr>;
       v = u\<lparr>u_ID := ''2'', u_Username := ''bob''\<rparr>;
       c = (\<lambda>p. \<lparr>gc_Header = [], gc_Query = [(''page'', Itoa (int p)), (''page_size'', Itoa (int 1))], gc_Params = [], gc_Keys = []\<rparr>)
   in \<exists>env. (\<forall>p. order_ok (env p) \<and> \<not> de_fail (env p)) \<and>
     user_response (user_info v) \<notin>
       set (concat (map (\<lambda>p. lu_Users (projr (snd (ListUsers_handler (env p) (env p) (c p) [u, v])))) [1..<Suc (length [u, v])]))"
proof -
  let ?u = "\<lparr>u_ID = ''1'', u_Username = ''ann'', u_PasswordHash = ''h'', u_Role = UserRoleUser, u_CreatedAt = 7, u_UpdatedAt = 7\<rparr>"
  let ?v = "?u\<lparr>u_ID := ''2'', u_Username := ''bob''\<rparr>"
  let ?c = "\<lambda>p. \<lparr>gc_Header = [], gc_Query = [(''page'', Itoa (int p)), (''page_size'', Itoa (int 1))], gc_Params = [], gc_Keys = []\<rparr>"
  have "users_ok [?u, ?v]" "?u \<in> set [?u, ?v]" "?v \<in> set [?u, ?v]" "?u \<noteq> ?v" "u_CreatedAt ?u = u_CreatedAt ?v"
    "length [?u, ?v] < 2 ^ 31" by (simp_all add: users_ok_def)
  from tied_pages_repeat [OF this, of ?c] obtain env where "\<forall>p. order_ok (env p) \<and> \<not> de_fail (env p)"
    "user_response (user_info ?v) \<notin>
       set (concat (map (\<lambda>p. lu_Users (projr (snd (ListUsers_handler (env p) (env p) (?c p) [?u, ?v])))) [1..<Suc (length [?u, ?v])]))"
    unfolding Let_def by (auto simp del: upt_Suc)
  then show ?thesis unfolding Let_def by blast
qed

text \<open>
  Page numbers are not bounded, and the offset is cut to 32 bits.  From an offset of
  \<open>2\<^sup>3\<^sup>1\<close> on, a request for a page past the end fails with an internal error instead of
  returning an empty page, and at multiples of \<open>2\<^sup>3\<^sup>2\<close> it returns the first page under another number.
\<close>

theorem large_page_wraps:
  assumes "\<not> de_fail env" "\<not> de_fail env2" "1 \<le> p" "p < 2 ^ 63" "1 \<le> z" "z \<le> 100" "(p - 1) * z < 2 ^ 63"
    and "map_of (gc_Query c) ''page'' = Some (Itoa p)" "map_of (gc_Query c) ''page_size'' = Some (Itoa z)"
  shows "(2 ^ 31 \<le> ((p - 1) * z) mod 2 ^ 32 \<longrightarrow> ListUsers_handler env env2 c tab = (500, Inl ''internal error'')) \<and>
    (((p - 1) * z) mod 2 ^ 32 = 0 \<longrightarrow> ListUsers_handler env env2 c tab =
       (200, Inr \<lparr>lu_Users = map (user_response \<circ> user_info) (take (nat z) (de_order env tab)),
                  lu_Total = int (length tab), lu_Page = p, lu_PageSize = z\<rparr>))"
proof -
  define x where "x = (p - 1) * z"
  have "0 \<le> x" unfolding x_def using assms(3,5) by simp
  then have w: "wrap64 x = x" using assms(7) unfolding x_def [symmetric] by (intro wrap64_id) simp_all
  have z: "wrap32 z = z" using assms(5,6) by (intro wrap32_id) simp_all
  have neg: "wrap32 x < 0" if "2 ^ 31 \<le> x mod 2 ^ 32"
    unfolding wrap32_mod using that pos_mod_bound [of "2 ^ 32" x] by simp
  have zero: "wrap32 x = 0" if "x mod 2 ^ 32 = 0"
    unfolding wrap32_mod that by simp
  note H = ListUsers_handler_page [OF assms(8,9,3-6), of env env2 tab, folded x_def, unfolded w]
  have "ListUsers_handler env env2 c tab = (500, Inl ''internal error'')" if "2 ^ 31 \<le> x mod 2 ^ 32"
    unfolding H using neg [OF that] assms(1,5) z by (simp add: ListUsers_def ListUsersPaginated_def)
  moreover have "ListUsers_handler env env2 c tab = (200, Inr \<lparr>lu_Users = map (user_response \<circ> user_info) (take (nat z) (de_order env tab)),
      lu_Total = int (length tab), lu_Page = p, lu_PageSize = z\<rparr>)" if "x mod 2 ^ 32 = 0"
    unfolding H using zero [OF that] assms(1,2,5) z by (simp add: ListUsers_def ListUsersPaginated_def CountUsers_def)
  ultimately show ?thesis unfolding x_def by blast
qed

theorem large_page_wraps_witness:
  "let db = example_db ''i'' in
   \<forall>tab. ListUsers_handler db db \<lparr>gc_Header = [], gc_Query = [(''page'', Itoa (2 ^ 31 + 1)), (''page_size'', Itoa 1)], gc_Params = [], gc_Keys = []\<rparr> tab
     = (500, Inl ''internal error'')"
proof -
  have db: "\<not> de_fail (example_db ''i'')" by (simp add: example_db_def)
  let ?c = "\<lparr>gc_Header = [], gc_Query = [(''page'', Itoa (2 ^ 31 + 1)), (''page_size'', Itoa 1)], gc_Params = [], gc_Keys = []\<rparr>"
  have "ListUsers_handler (example_db ''i'') (example_db ''i'') ?c tab = (500, Inl ''internal error'')" for tab
    using large_page_wraps [OF db db, of "2 ^ 31 + 1" 1 ?c tab] by simp
  then show ?thesis by (simp add: Let_def)
qed

end
