(* ===== verification/Process_Config.thy ===== *)
theory Process_Config
  imports Http_Text
begin

text \<open>
  What both commands do first: reading the configuration (\<^verbatim>\<open>InitConfig\<close> of \<^verbatim>\<open>cmd/silo-proxy-server/config.go\<close> and
  \<^verbatim>\<open>cmd/silo-proxy-agent/config.go\<close>) and setting up the log (\<^verbatim>\<open>initLogger\<close> of their \<^verbatim>\<open>logger.go\<close>); and the middleware that
  logs HTTP requests (\<^verbatim>\<open>internal/api/http/middleware/logger.go\<close>).  The packages adder and godotenv are parameters.
\<close>

section \<open>Log levels\<close>

datatype slog_level = LevelDebug | LevelInfo | LevelWarn | LevelError

fun severity :: "slog_level \<Rightarrow> int" where
  "severity LevelDebug = - 4"
| "severity LevelInfo = 0"
| "severity LevelWarn = 4"
| "severity LevelError = 8"

text \<open>
  \<^verbatim>\<open>strings.ToUpper\<close> as far as it matters for the comparison with ASCII text: of the letters that are not ASCII only
  the dotless i (bytes C4 B1) and the long s (C5 BF) have an ASCII letter as their upper case.
\<close>

fun ToUpper :: "string \<Rightarrow> string" where
  "ToUpper (c # d # s) =
     (if of_char c = (196 :: nat) \<and> of_char d = (177 :: nat) then CHR ''I'' # ToUpper s
      else if of_char c = (197 :: nat) \<and> of_char d = (191 :: nat) then CHR ''S'' # ToUpper s
      else to_upper c # ToUpper (d # s))"
| "ToUpper [c] = [to_upper c]"
| "ToUpper [] = []"

definition LOG_LEVEL_ERROR :: string where "LOG_LEVEL_ERROR = ''ERROR''"
definition LOG_LEVEL_WARNING :: string where "LOG_LEVEL_WARNING = ''WARNING''"
definition LOG_LEVEL_INFO :: string where "LOG_LEVEL_INFO = ''INFO''"
definition LOG_LEVEL_DEBUG :: string where "LOG_LEVEL_DEBUG = ''DEBUG''"

text \<open>The level of the default logger after \<^verbatim>\<open>initLogger\<close>; the file is the same in both commands.\<close>

definition initLogger :: "string \<Rightarrow> slog_level" where
  "initLogger logLevel =
     (let l = ToUpper logLevel in
      if l = LOG_LEVEL_ERROR then LevelError
      else if l = LOG_LEVEL_WARNING then LevelWarn
      else if l = LOG_LEVEL_INFO then LevelInfo
      else if l = LOG_LEVEL_DEBUG then LevelDebug
      else LevelInfo)"

section \<open>Configuration\<close>

text \<open>
  How \<^verbatim>\<open>InitConfig\<close> sets up adder.  The two commands differ in the second directory.
\<close>

record adder_setup =
  ad_ConfigName :: string
  ad_ConfigPath :: "string list"
  ad_ConfigType :: string
  ad_EnvKeyReplacer :: "(string \<times> string) list"
  ad_AutomaticEnv :: bool
  ad_BindEnv :: "(string \<times> string) list"

definition adder_settings :: "string \<Rightarrow> adder_setup" where
  "adder_settings dir =
     \<lparr>ad_ConfigName = ''application'', ad_ConfigPath = [''.'', dir], ad_ConfigType = ''yaml'',
      ad_EnvKeyReplacer = [(''.'', ''_'')], ad_AutomaticEnv = True,
      ad_BindEnv = [(''telegram.token'', ''TELEGRAM_TOKEN''), (''openrouter.apiKey'', ''OPENROUTER_API_KEY'')]\<rparr>"

text \<open>
  The packages: \<open>cfg_Load\<close> is what \<^verbatim>\<open>godotenv.Load\<close> makes of the environment (its error is ignored),
  \<open>cfg_ReadInConfig\<close> whether a file is found and can be read, \<open>cfg_Unmarshal\<close> the configuration if it has the right
  form, and \<open>cfg_Marshal\<close> its JSON text.
\<close>

type_synonym environ = "(string \<times> string) list"

record 'cfg config_lib =
  cfg_Load :: "environ \<Rightarrow> environ"
  cfg_ReadInConfig :: "adder_setup \<Rightarrow> environ \<Rightarrow> bool"
  cfg_Unmarshal :: "adder_setup \<Rightarrow> environ \<Rightarrow> 'cfg option"
  cfg_Marshal :: "'cfg \<Rightarrow> string option"
  cfg_LogLevel :: "'cfg \<Rightarrow> string"

text \<open>The configuration, the level of the logger and what is printed.\<close>

definition init_config :: "string \<Rightarrow> 'cfg config_lib \<Rightarrow> environ \<Rightarrow> ('cfg \<times> slog_level \<times> string list) outcome" where
  "init_config dir lib env =
     (let env' = cfg_Load lib env; setup = adder_settings dir in
      if \<not> cfg_ReadInConfig lib setup env' then Panic
      else
        case cfg_Unmarshal lib setup env' of
          None \<Rightarrow> Panic
        | Some config \<Rightarrow>
            let level = initLogger (cfg_LogLevel lib config);
                out = (if ToUpper (cfg_LogLevel lib config) = LOG_LEVEL_DEBUG then
                         (case cfg_Marshal lib config of
                            Some configJSON \<Rightarrow> [''Config loaded:'', configJSON]
                          | None \<Rightarrow> [])
                       else [])
            in Ok (config, level, out))"

definition InitConfig_server :: "'cfg config_lib \<Rightarrow> environ \<Rightarrow> ('cfg \<times> slog_level \<times> string list) outcome" where
  "InitConfig_server = init_config ''./cmd/silo-proxy-server''"

definition InitConfig_agent :: "'cfg config_lib \<Rightarrow> environ \<Rightarrow> ('cfg \<times> slog_level \<times> string list) outcome" where
  "InitConfig_agent = init_config ''./cmd/silo-proxy-agent''"

section \<open>Log of requests\<close>

datatype log_value = LogText string | LogInt int | LogDuration duration

record log_entry =
  lg_Level :: slog_level
  lg_Message :: string
  lg_Attrs :: "(string \<times> log_value) list"

text \<open>What a logger of the given level writes of the entries it is handed.\<close>

definition slog_output :: "slog_level \<Rightarrow> log_entry list \<Rightarrow> log_entry list" where
  "slog_output level = filter (\<lambda>e. severity level \<le> severity (lg_Level e))"

record logged_request =
  lq_Method :: string
  lq_Path :: string
  lq_RawQuery :: string
  lq_ClientIP :: string

definition status_level :: "int \<Rightarrow> slog_level" where
  "status_level statusCode =
     (if statusCode \<ge> 500 then LevelError else if statusCode \<ge> 400 then LevelWarn else LevelDebug)"

text \<open>
  \<open>nxt\<close> stands for the handlers behind the middleware, with the status they write; if they panic nothing is
  logged after them.
\<close>

definition RequestLogger :: "gotime \<Rightarrow> gotime \<Rightarrow> logged_request \<Rightarrow> ('s \<Rightarrow> (int \<times> 's) outcome) \<Rightarrow> 's \<Rightarrow>
    log_entry list \<times> (int \<times> 's) outcome" where
  "RequestLogger start stop req nxt s =
     (if lq_Path req = ''/health'' then ([], nxt s)
      else
        let incoming = \<lparr>lg_Level = LevelDebug, lg_Message = ''Incoming request'',
              lg_Attrs = [(''method'', LogText (lq_Method req)), (''path'', LogText (lq_Path req)),
                          (''query'', LogText (lq_RawQuery req)), (''client_ip'', LogText (lq_ClientIP req))]\<rparr>
        in case nxt s of
             Ok (statusCode, s') \<Rightarrow>
               ([incoming,
                 \<lparr>lg_Level = status_level statusCode, lg_Message = ''Request completed'',
                  lg_Attrs = [(''method'', LogText (lq_Method req)), (''path'', LogText (lq_Path req)),
                              (''status'', LogInt statusCode), (''latency'', LogDuration (time_sub stop start)),
                              (''client_ip'', LogText (lq_ClientIP req))]\<rparr>], Ok (statusCode, s'))
           | Block \<Rightarrow> ([incoming], Block)
           | Panic \<Rightarrow> ([incoming], Panic))"

section \<open>Lemmas\<close>

lemma init_config_cases:
  "init_config dir lib env = Panic \<or> (\<exists>config level out. init_config dir lib env = Ok (config, level, out))"
  by (auto simp: init_config_def Let_def split: option.split)

lemma init_config_ok:
  assumes "init_config dir lib env = Ok (config, level, out)"
  shows "cfg_ReadInConfig lib (adder_settings dir) (cfg_Load lib env)"
    and "cfg_Unmarshal lib (adder_settings dir) (cfg_Load lib env) = Some config"
    and "level = initLogger (cfg_LogLevel lib config)"
  using assms by (auto simp: init_config_def Let_def split: if_splits option.splits)

text \<open>The names of the levels are recognised whatever their case, and everything else means \<^verbatim>\<open>INFO\<close>.\<close>

lemma initLogger_upper:
  "ToUpper s = ToUpper t \<Longrightarrow> initLogger s = initLogger t"
  by (simp add: initLogger_def)

lemma initLogger_default:
  "initLogger s = LevelInfo \<longleftrightarrow>
     ToUpper s \<notin> {LOG_LEVEL_ERROR, LOG_LEVEL_WARNING, LOG_LEVEL_DEBUG}"
  by (auto simp: initLogger_def Let_def LOG_LEVEL_ERROR_def LOG_LEVEL_WARNING_def LOG_LEVEL_INFO_def LOG_LEVEL_DEBUG_def)

lemma initLogger_examples:
  "initLogger ''debug'' = LevelDebug" "initLogger ''Warning'' = LevelWarn" "initLogger ''warn'' = LevelInfo" "initLogger '''' = LevelInfo"
  by code_simp+

text \<open>
  Printing and logging go together: the whole configuration is printed if and only if the log is at its most detailed level
  and the configuration has a JSON form.
\<close>

theorem config_printed_iff_debug:
  assumes "init_config dir lib env = Ok (config, level, out)"
  shows "out = (case cfg_Marshal lib config of
      Some configJSON \<Rightarrow> if level = LevelDebug then [''Config loaded:'', configJSON] else [] | None \<Rightarrow> [])"
proof -
  have "level = LevelDebug \<longleftrightarrow> ToUpper (cfg_LogLevel lib config) = LOG_LEVEL_DEBUG"
    unfolding init_config_ok(3) [OF assms]
    by (auto simp: initLogger_def Let_def LOG_LEVEL_ERROR_def LOG_LEVEL_WARNING_def LOG_LEVEL_INFO_def LOG_LEVEL_DEBUG_def)
  then show ?thesis using assms by (auto simp: init_config_def Let_def split: if_splits option.splits)
qed

text \<open>
  The middleware changes nothing, and at the level \<^verbatim>\<open>INFO\<close> the log shows exactly the requests that failed, health checks
  aside.
\<close>

theorem RequestLogger_transparent: "snd (RequestLogger start stop req nxt s) = nxt s"
  by (auto simp: RequestLogger_def Let_def split: outcome.split)

theorem RequestLogger_info:
  assumes "RequestLogger start stop req nxt s = (es, Ok (status, s'))"
  shows "slog_output LevelInfo es \<noteq> [] \<longleftrightarrow> status \<ge> 400 \<and> lq_Path req \<noteq> ''/health''"
  using assms
  by (auto simp: RequestLogger_def slog_output_def status_level_def Let_def split: if_splits outcome.splits prod.splits)

end
