(* ===== verification/Agent_Main.thy ===== *)
theory Agent_Main
  imports Agent_Provision Http_Api Process_Config
begin

text \<open>
  \<^verbatim>\<open>cmd/silo-proxy-agent/main.go\<close>: the choice between the provisioning command and the agent proper, the health
  endpoint of the agent, and how the agent runs until it is shut down.
\<close>

section \<open>Starting\<close>

record AgentConfig =
  ac_LogLevel :: string
  ac_HttpPort :: int
  ac_ServerAddress :: string
  ac_AgentID :: string
  ac_TLS :: ClientTLSConfig
  ac_ServiceURL :: string

text \<open>
  Either the exit status of the process, or the configuration and the client, whose \<^verbatim>\<open>Start\<close> cannot fail.  The
  configuration is read only if the agent proper is run.
\<close>

definition agent_main :: "AgentConfig config_lib \<Rightarrow> environ \<Rightarrow> os_env \<Rightarrow> (string \<Rightarrow> bool \<Rightarrow> string \<Rightarrow> post_result) \<Rightarrow> string list \<Rightarrow> file_system \<Rightarrow>
    ((int + AgentConfig \<times> Client) \<times> file_system) outcome" where
  "agent_main lib environ env post args fs =
     (if length args > 1 \<and> args ! 1 = ''provision'' then
        (case runProvision env post (drop 2 args) fs of
           (Inl (ProcessExit code), fs') \<Rightarrow> Ok (Inl code, fs')
         | (Inl _, fs') \<Rightarrow> Ok (Inl 1, fs')
         | (Inr _, fs') \<Rightarrow> Ok (Inl 0, fs'))
      else
        obind (InitConfig_agent lib environ) (\<lambda>(config, level, out).
          let tlsConfig = ac_TLS config;
              grpcClient = NewClient (ac_ServerAddress config) (ac_AgentID config) (ac_ServiceURL config) (Some tlsConfig)
          in Ok (Inr (config, grpcClient), fs)))"

section \<open>Health endpoint\<close>

text \<open>
  The agent's own HTTP server has one route, behind the logger of requests.  \<open>unmatched\<close> is gin's status for a request that
  matches no route: 404, or a redirect if only a slash at the end is wrong.
\<close>

definition agent_engine :: "int \<Rightarrow> gotime \<Rightarrow> gotime \<Rightarrow> logged_request \<Rightarrow> log_entry list \<times> int" where
  "agent_engine unmatched start stop req =
     (let nxt = (\<lambda>u. Ok (if lq_Method req = ''GET'' \<and> lq_Path req = ''/health'' then fst Check else unmatched, u)) in
      case RequestLogger start stop req nxt () of
        (log, Ok (status, u)) \<Rightarrow> (log, status)
      | (log, _) \<Rightarrow> (log, 500))"

section \<open>Running and shutting down\<close>

text \<open>
  \<^verbatim>\<open>main\<close> waits for a signal; an error of the HTTP server is turned into one.  Then it shuts down the HTTP server and stops the
  client, and returns when both are done.  The connection loop runs in a goroutine of its own:
  \<open>before\<close> are its iterations up to the signal, \<open>after\<close> those that follow it.  \<open>Block\<close> is an agent that keeps running.
\<close>

definition agent_serve :: "bool \<Rightarrow> bool \<Rightarrow> ('cert, 'pool, 'data) loop_event list \<Rightarrow> ('cert, 'pool, 'data) loop_event list \<Rightarrow> Client \<Rightarrow>
    Client outcome" where
  "agent_serve http_failed signalled before after grpcClient =
     (let c = snd (snd (connectionLoop before [] grpcClient)) in
      if http_failed \<or> signalled then Stop_client (\<lambda>c. snd (snd (connectionLoop after [] c))) c else Block)"

lemma connect_delay: "delay_ok (snd (connect env c)) = delay_ok c"
  by (auto simp: connect_def Let_def close_grpc_def delay_ok_def split: sum.split option.split)

lemma disconnect_delay: "delay_ok (disconnect c) = delay_ok c"
  by (simp add: delay_ok_def)

lemma connectionLoop_delay_ok: "delay_ok c \<Longrightarrow> delay_ok (snd (snd (connectionLoop evs waits c)))"
proof (induction evs arbitrary: waits c)
  case (Cons ev evs)
  obtain res c1 where con: "connect (le_connect ev) c = (res, c1)" by (cases "connect (le_connect ev) c")
  then have c1: "delay_ok c1" using connect_delay [of "le_connect ev" c] Cons.prems by simp
  then have c2: "delay_ok (disconnect (c1\<lparr>cl_reconnectDelay := initialDelay, cl_sendCh := le_sendCh ev\<rparr>))"
    by (simp add: disconnect_delay) (simp add: delay_ok_def client_delays)
  have done_ok: "delay_ok (x\<lparr>cl_doneCh := True\<rparr>) = delay_ok x" for x by (simp add: delay_ok_def)
  show ?case
    using con c1 c2 Cons.prems Cons.IH [OF increase_ok] by (cases res) (simp_all add: Let_def done_ok disconnect_delay)
qed simp

text \<open>The log shows every request to the agent's HTTP server that is not a health check and is refused, as a warning or an error.\<close>

lemma agent_engine_health:
  assumes "lq_Method req = ''GET''" "lq_Path req = ''/health''"
  shows "agent_engine unmatched start stop req = ([], 200)"
  using assms by (simp add: agent_engine_def RequestLogger_def Check_def)

lemma agent_engine_other:
  assumes "lq_Path req \<noteq> ''/health''" "400 \<le> unmatched"
  shows "snd (agent_engine unmatched start stop req) = unmatched" "length (slog_output LevelInfo (fst (agent_engine unmatched start stop req))) = 1"
  using assms by (simp_all add: agent_engine_def RequestLogger_def slog_output_def status_level_def Let_def)

section \<open>Properties\<close>

text \<open>
  C21 (termination): the life of an agent.  The command line decides whether a configuration is needed at all: the
  provisioning command never panics, whatever the configuration, and its exit status is 0 exactly if \<open>runProvision\<close>
  ended without an error, or was asked for help.  An agent that runs keeps running until a signal or an
  error of its HTTP server; then, as soon as its connection loop sees the stop channel closed, the process ends, the
  loop is finished and no gRPC connection is left open, whatever happened to its connections before.
\<close>

theorem agent_main_ends:
  assumes stop: "\<exists>ev\<in>set after. le_stop_top ev"
  shows "(length args > 1 \<and> args ! 1 = ''provision'' \<longrightarrow>
      (\<exists>code fs'. agent_main lib environ env post args fs = Ok (Inl code, fs') \<and>
         (code = 0 \<longleftrightarrow> \<not> isl (fst (runProvision env post (drop 2 args) fs)) \<or> fst (runProvision env post (drop 2 args) fs) = Inl (ProcessExit 0)))) \<and>
    (\<forall>config c fs'. agent_main lib environ env post args fs = Ok (Inr (config, c), fs') \<longrightarrow>
      fs' = fs \<and> cl_agentID c = ac_AgentID config \<and> cl_localURL c = ac_ServiceURL config \<and>
      agent_serve False False before after c = Block \<and>
      (http_failed \<or> signalled \<longrightarrow>
        (\<exists>c'. agent_serve http_failed signalled before after c = Ok c' \<and> cl_doneCh c' \<and> cl_open_conns c' = [] \<and>
           cl_conn c' = None \<and> cl_stream c' = None)))"
proof (intro conjI allI impI)
  assume "length args > 1 \<and> args ! 1 = ''provision''"
  then show "\<exists>code fs'. agent_main lib environ env post args fs = Ok (Inl code, fs') \<and>
         (code = 0 \<longleftrightarrow> \<not> isl (fst (runProvision env post (drop 2 args) fs)) \<or> fst (runProvision env post (drop 2 args) fs) = Inl (ProcessExit 0))"
    by (auto simp: agent_main_def split: prod.split sum.split provision_error.split)
next
  fix config c fs'
  assume run: "agent_main lib environ env post args fs = Ok (Inr (config, c), fs')"
  have c: "fs' = fs \<and> c = NewClient (ac_ServerAddress config) (ac_AgentID config) (ac_ServiceURL config) (Some (ac_TLS config))"
    using run by (auto simp: agent_main_def Let_def split: if_splits prod.splits sum.splits provision_error.splits)
  then show "fs' = fs" "cl_agentID c = ac_AgentID config" "cl_localURL c = ac_ServiceURL config" by (simp_all add: NewClient_def)
  show "agent_serve False False before after c = Block" by (simp add: agent_serve_def)
  assume sig: "http_failed \<or> signalled"
  let ?c1 = "snd (snd (connectionLoop before [] c))"
  have new: "idle c" "delay_ok c" "\<not> cl_stopCh c" using c by (simp_all add: idle_def delay_ok_def NewClient_def client_delays)
  obtain r w where "connectionLoop before [] c = (r, w, ?c1)" by (metis prod.collapse)
  from connectionLoop_safe [OF new(1,2) _ this] have "idle ?c1" by simp
  then have i: "idle (?c1\<lparr>cl_stopCh := True, cl_cancelled := True\<rparr>)" by (simp add: idle_def)
  have d: "delay_ok (?c1\<lparr>cl_stopCh := True, cl_cancelled := True\<rparr>)"
    using connectionLoop_delay_ok [OF new(2), of before "[]"] by (simp add: delay_ok_def)
  obtain w' c' where "connectionLoop after [] (?c1\<lparr>cl_stopCh := True, cl_cancelled := True\<rparr>) = (True, w', c')" "cl_doneCh c'"
    using connectionLoop_stops [OF stop] by blast
  with connectionLoop_safe [OF i d _ this(1)] connectionLoop_stopCh [of before "[]" c] new(3) sig
  show "\<exists>c'. agent_serve http_failed signalled before after c = Ok c' \<and> cl_doneCh c' \<and> cl_open_conns c' = [] \<and>
           cl_conn c' = None \<and> cl_stream c' = None"
    by (auto simp: agent_serve_def Stop_client_def Let_def idle_def)
qed

definition example_agent_lib :: "AgentConfig config_lib" where
  "example_agent_lib =
     \<lparr>cfg_Load = \<lambda>e. e, cfg_ReadInConfig = \<lambda>s e. True,
      cfg_Unmarshal = \<lambda>s e. Some \<lparr>ac_LogLevel = ''debug'', ac_HttpPort = 8081, ac_ServerAddress = ''localhost:9090'', ac_AgentID = ''agent-1'',
        ac_TLS = \<lparr>ct_Enabled = False, ct_CertFile = '''', ct_KeyFile = '''', ct_CAFile = '''', ct_ServerNameOverride = ''''\<rparr>,
        ac_ServiceURL = ''http://localhost:3000''\<rparr>,
      cfg_Marshal = \<lambda>c. Some ''{}'', cfg_LogLevel = ac_LogLevel\<rparr>"

theorem agent_main_ends_witness:
  "let env = \<lparr>cv_tls = \<lparr>LoadX509KeyPair = \<lambda>c k. None, ReadFile = \<lambda>f. None, AppendCertsFromPEM = \<lambda>p. None\<rparr>,
              cv_dial = True, cv_stream = True, cv_send = True, cv_uid = ''u''\<rparr> :: (nat, nat, string) connect_env;
       ev = \<lparr>le_stop_top = False, le_connect = env, le_stop_wait = False, le_sendCh = make_chan 100, le_stop_after = False\<rparr>
   in \<exists>config c c'. agent_main example_agent_lib [] os_fine (\<lambda>u i k. NoConnection) [''agent''] empty_fs = Ok (Inr (config, c), empty_fs) \<and>
        agent_serve False True [ev, ev] [ev\<lparr>le_stop_top := True\<rparr>] c = Ok c' \<and> cl_open_conns c' = []"
proof -
  define ev where "ev = \<lparr>le_stop_top = False, le_connect = \<lparr>cv_tls = \<lparr>LoadX509KeyPair = \<lambda>c k. None, ReadFile = \<lambda>f. None, AppendCertsFromPEM = \<lambda>p. None\<rparr>,
              cv_dial = True, cv_stream = True, cv_send = True, cv_uid = ''u''\<rparr> :: (nat, nat, string) connect_env,
              le_stop_wait = False, le_sendCh = make_chan 100, le_stop_after = False\<rparr>"
  have stop: "\<exists>ev\<in>set [ev\<lparr>le_stop_top := True\<rparr>]. le_stop_top ev" by simp
  obtain config c where run: "agent_main example_agent_lib [] os_fine (\<lambda>u i k. NoConnection) [''agent''] empty_fs = Ok (Inr (config, c), empty_fs)"
    by (simp add: agent_main_def InitConfig_agent_def init_config_def example_agent_lib_def Let_def)
  with agent_main_ends [OF stop, of "[''agent'']" example_agent_lib "[]" os_fine "\<lambda>u i k. NoConnection" empty_fs "[ev, ev]" False True]
  have "\<exists>c'. agent_serve False True [ev, ev] [ev\<lparr>le_stop_top := True\<rparr>] c = Ok c' \<and> cl_open_conns c' = []" by blast
  with run show ?thesis unfolding Let_def ev_def by blast
qed

end
