(* ===== verification/Database_Setup.thy ===== *)
theory Database_Setup
  imports Silo_Prelude "HOL-Library.Sublist"
begin

text \<open>
  \<^verbatim>\<open>internal/db\<close>: migrating the database (\<^verbatim>\<open>migration.go\<close>) and opening the pool of connections (\<^verbatim>\<open>db.go\<close>) when the server
  starts.  pgx, database/sql and goose are parameters that decide whether a call succeeds.  A \<^verbatim>\<open>*sql.DB\<close> is
  itself a pool: for each call it takes some connection, and settings of a session hold on that connection only.
\<close>

datatype setup_error =
    OpenError
  | UnableToConnect
  | ExecError string
  | DialectError
  | MigrationError
  | UnableToParseConfig
  | UnableToCreatePool
  | UnableToPing

section \<open>Migrations\<close>

text \<open>
  The calls that reach the database, each with the number of the connection it is made on.  A migration is what goose
  executes of the files in a directory.
\<close>

datatype sql_call = Ping | Exec string | Migrate string | CloseDB

text \<open>
  \<open>sq_conn\<close> is the connection that the pool takes for the call with the given number, and \<open>sq_up\<close> the connections on
  which goose executes migrations, and whether it succeeds.
\<close>

record sql_env =
  sq_Open :: "string \<Rightarrow> bool"
  sq_Ping :: bool
  sq_Exec :: "string \<Rightarrow> bool"
  sq_conn :: "nat \<Rightarrow> nat"
  sq_SetDialect :: "string \<Rightarrow> bool"
  sq_up :: "nat list \<times> bool"

type_synonym sql_log = "(nat \<times> sql_call) list"

definition sql_call_on :: "sql_env \<Rightarrow> sql_call \<Rightarrow> sql_log \<Rightarrow> sql_log" where
  "sql_call_on env call log = log @ [(sq_conn env (length log), call)]"

text \<open>\<open>sanitize\<close> is \<^verbatim>\<open>pgx.Identifier.Sanitize\<close> for one part.\<close>

definition ensureSchemaExists :: "sql_env \<Rightarrow> (string \<Rightarrow> string) \<Rightarrow> string \<Rightarrow> sql_log \<Rightarrow> setup_error option \<times> sql_log" where
  "ensureSchemaExists env sanitize schema log =
     (let query = ''CREATE SCHEMA IF NOT EXISTS '' @ sanitize schema;
          log1 = sql_call_on env (Exec query) log
      in if \<not> sq_Exec env query then (Some (ExecError query), log1)
         else
           let setPathQuery = ''SET search_path TO '' @ sanitize schema;
               log2 = sql_call_on env (Exec setPathQuery) log1
           in if \<not> sq_Exec env setPathQuery then (Some (ExecError setPathQuery), log2) else (None, log2))"

text \<open>The part of \<^verbatim>\<open>RunMigrations\<close> after the deferred \<^verbatim>\<open>db.Close\<close>.\<close>

definition migrate_open :: "sql_env \<Rightarrow> (string \<Rightarrow> string) \<Rightarrow> string \<Rightarrow> sql_log \<Rightarrow> setup_error option \<times> sql_log" where
  "migrate_open env sanitize schema log =
     (let log1 = sql_call_on env Ping log in
      if \<not> sq_Ping env then (Some UnableToConnect, log1)
      else
        case ensureSchemaExists env sanitize schema log1 of
          (Some err, log2) \<Rightarrow> (Some err, log2)
        | (None, log2) \<Rightarrow>
            if \<not> sq_SetDialect env ''postgres'' then (Some DialectError, log2)
            else
              let (conns, ok) = sq_up env;
                  log3 = log2 @ map (\<lambda>c. (c, Migrate ''migrations'')) conns
              in if \<not> ok then (Some MigrationError, log3) else (None, log3))"

definition RunMigrations :: "sql_env \<Rightarrow> (string \<Rightarrow> string) \<Rightarrow> string \<Rightarrow> string \<Rightarrow> setup_error option \<times> sql_log" where
  "RunMigrations env sanitize dbURL schema =
     (let schema' = (if schema = '''' then ''public'' else schema) in
      if \<not> sq_Open env dbURL then (Some OpenError, [])
      else
        let (res, log) = migrate_open env sanitize schema' []
        in (res, sql_call_on env CloseDB log))"

section \<open>The pool\<close>

text \<open>
  The settings of the pool that the program makes.  \<open>pl_AfterConnect\<close> is called on each new connection, before it joins the
  pool; its argument executes a statement on that connection.
\<close>

record pool_config =
  pl_ConnString :: string
  pl_MaxConns :: int
  pl_MinConns :: int
  pl_RuntimeParams :: "(string, string) gomap"
  pl_AfterConnect :: "((string \<Rightarrow> bool) \<Rightarrow> setup_error option) option"

record pool_env =
  pe_ParseConfig :: "string \<Rightarrow> pool_config option"
  pe_NewWithConfig :: "pool_config \<Rightarrow> bool"
  pe_Ping :: "pool_config \<Rightarrow> bool"

definition set_search_path :: "(string \<Rightarrow> string) \<Rightarrow> string \<Rightarrow> (string \<Rightarrow> bool) \<Rightarrow> setup_error option" where
  "set_search_path sanitize schema exec =
     (let query = ''SET search_path TO '' @ sanitize schema in if \<not> exec query then Some (ExecError query) else None)"

definition InitDB :: "pool_env \<Rightarrow> (string \<Rightarrow> string) \<Rightarrow> string \<Rightarrow> string \<Rightarrow> setup_error + pool_config" where
  "InitDB env sanitize url schema =
     (case pe_ParseConfig env url of
        None \<Rightarrow> Inl UnableToParseConfig
      | Some poolConfig \<Rightarrow>
          let cfg1 = poolConfig\<lparr>pl_MaxConns := 10, pl_MinConns := 2\<rparr>;
              cfg2 = (if schema \<noteq> '''' then
                        cfg1\<lparr>pl_RuntimeParams := AList.update ''search_path'' schema (pl_RuntimeParams cfg1),
                             pl_AfterConnect := Some (set_search_path sanitize schema)\<rparr>
                      else cfg1)
          in if \<not> pe_NewWithConfig env cfg2 then Inl UnableToCreatePool
             else if \<not> pe_Ping env cfg2 then Inl UnableToPing
             else Inr cfg2)"

text \<open>
  A connection of the pool: whether it joins the pool, and the statements that were executed on it before.
\<close>

definition pool_connect :: "pool_config \<Rightarrow> (string \<Rightarrow> bool) \<Rightarrow> bool" where
  "pool_connect cfg exec = (case pl_AfterConnect cfg of None \<Rightarrow> True | Some hook \<Rightarrow> hook exec = None)"

section \<open>Sessions\<close>

text \<open>
  The search path that holds on a connection after some calls: the text of the last \<^verbatim>\<open>SET\<close> on it, or \<open>None\<close> for the default
  of the database.
\<close>

definition session_path :: "nat \<Rightarrow> sql_log \<Rightarrow> string option" where
  "session_path c log =
     fold (\<lambda>(d, call) path.
             case call of
               Exec q \<Rightarrow> if d = c \<and> prefix ''SET search_path TO '' q then Some (drop 19 q) else path
             | _ \<Rightarrow> path) log None"

text \<open>The search paths under which migrations were executed.\<close>

definition migration_paths :: "sql_log \<Rightarrow> string option list" where
  "migration_paths log =
     map (\<lambda>i. session_path (fst (log ! i)) (take i log))
       (filter (\<lambda>i. case snd (log ! i) of Migrate d \<Rightarrow> True | _ \<Rightarrow> False) [0..<length log])"

lemma session_path_append [simp]:
  "session_path c (log @ [(d, call)]) =
     (case call of
        Exec q \<Rightarrow> if d = c \<and> prefix ''SET search_path TO '' q then Some (drop 19 q) else session_path c log
      | _ \<Rightarrow> session_path c log)"
  by (simp add: session_path_def split: sql_call.split)

lemma session_path_Nil [simp]: "session_path c [] = None"
  by (simp add: session_path_def)

lemma session_path_migrations [simp]:
  "session_path c (log @ map (\<lambda>d. (d, Migrate dir)) conns) = session_path c log"
  by (induction conns rule: rev_induct) (simp_all flip: append_assoc)

lemma migration_paths_append [simp]:
  "migration_paths (log @ [(c, call)]) =
     migration_paths log @ (case call of Migrate d \<Rightarrow> [session_path c log] | _ \<Rightarrow> [])"
proof -
  have "map (\<lambda>i. session_path (fst ((log @ [(c, call)]) ! i)) (take i (log @ [(c, call)])))
      (filter (\<lambda>i. case snd ((log @ [(c, call)]) ! i) of Migrate d \<Rightarrow> True | _ \<Rightarrow> False) [0..<length log]) = migration_paths log"
    unfolding migration_paths_def
    by (rule map_cong, rule filter_cong) (auto simp: nth_append)
  then show ?thesis by (auto simp: migration_paths_def split: sql_call.split)
qed

lemma migration_paths_Nil [simp]: "migration_paths [] = []"
  by (simp add: migration_paths_def)

lemma migration_paths_up [simp]:
  "migration_paths (log @ map (\<lambda>d. (d, Migrate dir)) conns) = migration_paths log @ map (\<lambda>c. session_path c log) conns"
  by (induction conns rule: rev_induct) (simp_all flip: append_assoc)

section \<open>Lemmas\<close>

definition schema_or_public :: "string \<Rightarrow> string" where
  "schema_or_public schema = (if schema = '''' then ''public'' else schema)"

text \<open>The two statements.\<close>

definition create_schema :: "(string \<Rightarrow> string) \<Rightarrow> string \<Rightarrow> string" where
  "create_schema sanitize schema = ''CREATE SCHEMA IF NOT EXISTS '' @ sanitize schema"

definition set_path :: "(string \<Rightarrow> string) \<Rightarrow> string \<Rightarrow> string" where
  "set_path sanitize schema = ''SET search_path TO '' @ sanitize schema"

lemma set_path_simps:
  "\<not> prefix ''SET search_path TO '' (create_schema sanitize schema)" "prefix ''SET search_path TO '' (set_path sanitize schema)"
  "drop 19 (set_path sanitize schema) = sanitize schema"
  by (simp_all add: create_schema_def set_path_def)

lemma ensureSchemaExists_eq:
  "ensureSchemaExists env sanitize schema log =
     (if \<not> sq_Exec env (create_schema sanitize schema)
      then (Some (ExecError (create_schema sanitize schema)), sql_call_on env (Exec (create_schema sanitize schema)) log)
      else (if sq_Exec env (set_path sanitize schema) then None else Some (ExecError (set_path sanitize schema)),
            sql_call_on env (Exec (set_path sanitize schema)) (sql_call_on env (Exec (create_schema sanitize schema)) log)))"
  by (simp add: ensureSchemaExists_def create_schema_def set_path_def Let_def)

text \<open>The error is that of the first call that fails.\<close>

lemma migrate_open_result:
  "fst (migrate_open env sanitize schema log) =
     (if \<not> sq_Ping env then Some UnableToConnect
      else if \<not> sq_Exec env (create_schema sanitize schema) then Some (ExecError (create_schema sanitize schema))
      else if \<not> sq_Exec env (set_path sanitize schema) then Some (ExecError (set_path sanitize schema))
      else if \<not> sq_SetDialect env ''postgres'' then Some DialectError
      else if \<not> snd (sq_up env) then Some MigrationError else None)"
  by (simp add: migrate_open_def ensureSchemaExists_eq Let_def split_def)

definition schema_ready :: "sql_env \<Rightarrow> (string \<Rightarrow> string) \<Rightarrow> string \<Rightarrow> bool" where
  "schema_ready env sanitize schema \<longleftrightarrow> sq_Ping env \<and> sq_Exec env (create_schema sanitize schema) \<and>
     sq_Exec env (set_path sanitize schema) \<and> sq_SetDialect env ''postgres''"

text \<open>The calls that are made, whether they succeed or not.\<close>

lemma migrate_open_log:
  "snd (migrate_open env sanitize schema []) =
     (let l1 = (sq_conn env 0, Ping); l2 = (sq_conn env 1, Exec (create_schema sanitize schema));
          l3 = (sq_conn env 2, Exec (set_path sanitize schema)) in
      if \<not> sq_Ping env then [l1]
      else if \<not> sq_Exec env (create_schema sanitize schema) then [l1, l2]
      else if \<not> schema_ready env sanitize schema then [l1, l2, l3]
      else [l1, l2, l3] @ map (\<lambda>c. (c, Migrate ''migrations'')) (fst (sq_up env)))"
  by (simp add: migrate_open_def ensureSchemaExists_eq sql_call_on_def schema_ready_def Let_def split_def numeral_2_eq_2)

lemma RunMigrations_eq:
  "RunMigrations env sanitize dbURL schema =
     (if \<not> sq_Open env dbURL then (Some OpenError, [])
      else (fst (migrate_open env sanitize (schema_or_public schema) []),
            sql_call_on env CloseDB (snd (migrate_open env sanitize (schema_or_public schema) []))))"
  by (simp add: RunMigrations_def schema_or_public_def Let_def split_def)

text \<open>A migration runs in the schema exactly if goose takes the connection on which the path was set.\<close>

lemma migration_paths_none:
  assumes "\<forall>(c, call)\<in>set log. \<forall>d. call \<noteq> Migrate d"
  shows "migration_paths log = []"
  using assms
proof (induction log rule: rev_induct)
  case (snoc e log)
  then show ?case by (cases e) (auto split: sql_call.split)
qed simp

lemma migrate_open_paths:
  "migration_paths (snd (migrate_open env sanitize schema [])) =
     (if schema_ready env sanitize schema
      then map (\<lambda>c. if c = sq_conn env 2 then Some (sanitize schema) else None) (fst (sq_up env)) else [])"
proof -
  let ?l = "[(sq_conn env 0, Ping), (sq_conn env 1, Exec (create_schema sanitize schema)), (sq_conn env 2, Exec (set_path sanitize schema))]"
  have path: "session_path c ?l = (if c = sq_conn env 2 then Some (sanitize schema) else None)" for c
    by (simp add: session_path_def set_path_simps)
  have up: "migration_paths (?l @ map (\<lambda>c. (c, Migrate ''migrations'')) conns) =
      map (\<lambda>c. if c = sq_conn env 2 then Some (sanitize schema) else None) conns" for conns
    unfolding migration_paths_up path by (subst migration_paths_none) simp_all
  show ?thesis
  proof (cases "schema_ready env sanitize schema")
    case True
    then show ?thesis using up by (simp add: migrate_open_log schema_ready_def Let_def)
  next
    case False
    then show ?thesis by (simp add: migrate_open_log migration_paths_none Let_def)
  qed
qed

section \<open>Properties\<close>

text \<open>
  A run of the migrations as a whole.  It succeeds if and only if every call does; the only statements of its own are the
  creation of the schema and the setting of the path, and goose is called only after both; a database that was opened is
  closed, once and at the end.
\<close>

theorem RunMigrations_spec:
  assumes "RunMigrations env sanitize dbURL schema = (res, log)"
  defines "sc \<equiv> schema_or_public schema"
  shows "res = None \<longleftrightarrow> sq_Open env dbURL \<and> schema_ready env sanitize sc \<and> snd (sq_up env)"
    and "Migrate d \<in> snd ` set log \<Longrightarrow> sq_Open env dbURL \<and> schema_ready env sanitize sc"
    and "Exec q \<in> snd ` set log \<Longrightarrow> q = create_schema sanitize sc \<or> q = set_path sanitize sc"
    and "if sq_Open env dbURL then \<exists>calls c. log = calls @ [(c, CloseDB)] \<and> CloseDB \<notin> snd ` set calls else log = []"
proof -
  let ?m = "snd (migrate_open env sanitize sc [])"
  have E: "res = (if sq_Open env dbURL then fst (migrate_open env sanitize sc []) else Some OpenError)"
    "log = (if sq_Open env dbURL then sql_call_on env CloseDB ?m else [])"
    using assms(1) by (auto simp: RunMigrations_eq sc_def split: if_splits)
  have calls: "Migrate d \<in> snd ` set ?m \<Longrightarrow> schema_ready env sanitize sc" "CloseDB \<notin> snd ` set ?m"
    "Exec q \<in> snd ` set ?m \<Longrightarrow> q = create_schema sanitize sc \<or> q = set_path sanitize sc"
    by (auto simp: migrate_open_log Let_def split: if_splits)
  show "res = None \<longleftrightarrow> sq_Open env dbURL \<and> schema_ready env sanitize sc \<and> snd (sq_up env)"
    unfolding E by (simp add: migrate_open_result schema_ready_def)
  show "Migrate d \<in> snd ` set log \<Longrightarrow> sq_Open env dbURL \<and> schema_ready env sanitize sc"
    "Exec q \<in> snd ` set log \<Longrightarrow> q = create_schema sanitize sc \<or> q = set_path sanitize sc"
    using calls(1,3) unfolding E(2) sql_call_on_def by (auto split: if_splits)
  show "if sq_Open env dbURL then \<exists>calls c. log = calls @ [(c, CloseDB)] \<and> CloseDB \<notin> snd ` set calls else log = []"
    using calls(2) unfolding E(2) sql_call_on_def by auto
qed

lemma InitDB_ok:
  assumes "InitDB env sanitize url schema = Inr cfg" "schema \<noteq> ''''"
  shows "pl_AfterConnect cfg = Some (set_search_path sanitize schema)"
    and "map_of (pl_RuntimeParams cfg) ''search_path'' = Some schema"
    and "pl_MaxConns cfg = 10" "pl_MinConns cfg = 2"
proof -
  obtain cfg0 where "pe_ParseConfig env url = Some cfg0" using assms(1) by (cases "pe_ParseConfig env url") (simp_all add: InitDB_def)
  with assms have "cfg = cfg0\<lparr>pl_MaxConns := 10, pl_MinConns := 2, pl_RuntimeParams := AList.update ''search_path'' schema (pl_RuntimeParams cfg0),
      pl_AfterConnect := Some (set_search_path sanitize schema)\<rparr>"
    by (simp add: InitDB_def Let_def split: if_split_asm)
  then show "pl_AfterConnect cfg = Some (set_search_path sanitize schema)"
    "map_of (pl_RuntimeParams cfg) ''search_path'' = Some schema" "pl_MaxConns cfg = 10" "pl_MinConns cfg = 2"
    by (simp_all add: update_conv')
qed

text \<open>
  C40 (safety): the server finds its tables.  If a schema is configured and the start succeeds, then every connection that
  joins the pool has executed the statement that sets its search path to the schema, and
  the migrations ran with the same path, provided that goose used the connection on which the
  program had set it.  The path is set through a \<^verbatim>\<open>*sql.DB\<close>, which does not promise to use one connection: on any other
  connection of it a migration runs with the default path of the database, although the start succeeds.
\<close>

theorem pool_and_migrations_agree:
  assumes mig: "RunMigrations env sanitize url schema = (None, log)" and pool: "InitDB penv sanitize url schema = Inr cfg"
    and schema: "schema \<noteq> ''''"
  shows "(\<forall>exec. pool_connect cfg exec \<longrightarrow> exec (''SET search_path TO '' @ sanitize schema)) \<and>
    map_of (pl_RuntimeParams cfg) ''search_path'' = Some schema \<and>
    length (migration_paths log) = length (fst (sq_up env)) \<and>
    (\<forall>i < length (fst (sq_up env)). migration_paths log ! i =
       (if fst (sq_up env) ! i = sq_conn env 2 then Some (sanitize schema) else None))"
proof -
  have sc: "schema_or_public schema = schema" using schema by (simp add: schema_or_public_def)
  have ok: "sq_Open env url" "schema_ready env sanitize schema" using RunMigrations_spec(1) [OF mig] by (simp_all add: sc)
  then have "log = sql_call_on env CloseDB (snd (migrate_open env sanitize schema []))"
    using mig by (simp add: RunMigrations_eq sc)
  then have paths: "migration_paths log = map (\<lambda>c. if c = sq_conn env 2 then Some (sanitize schema) else None) (fst (sq_up env))"
    using migrate_open_paths [of env sanitize schema] ok(2) by (simp add: sql_call_on_def)
  have "exec (''SET search_path TO '' @ sanitize schema)" if "pool_connect cfg exec" for exec
    using that by (simp add: pool_connect_def InitDB_ok(1) [OF pool schema] set_search_path_def Let_def split: if_split_asm)
  moreover have "length (migration_paths log) = length (fst (sq_up env))"
    "\<forall>i < length (fst (sq_up env)). migration_paths log ! i =
       (if fst (sq_up env) ! i = sq_conn env 2 then Some (sanitize schema) else None)"
    by (simp_all add: paths)
  ultimately show ?thesis using InitDB_ok(2) [OF pool schema] by blast
qed

definition example_sql :: "nat list \<Rightarrow> sql_env" where
  "example_sql conns = \<lparr>sq_Open = \<lambda>u. True, sq_Ping = True, sq_Exec = \<lambda>q. True, sq_conn = \<lambda>n. 0, sq_SetDialect = \<lambda>d. True,
     sq_up = (conns, True)\<rparr>"

definition example_pool_env :: pool_env where
  "example_pool_env = \<lparr>pe_ParseConfig = \<lambda>u. Some \<lparr>pl_ConnString = u, pl_MaxConns = 4, pl_MinConns = 0, pl_RuntimeParams = [],
     pl_AfterConnect = None\<rparr>, pe_NewWithConfig = \<lambda>c. True, pe_Ping = \<lambda>c. True\<rparr>"

definition quote_ident :: "string \<Rightarrow> string" where
  "quote_ident s = ''\"'' @ concat (map (\<lambda>c. if c = CHR 34 then [c, c] else [c]) s) @ ''\"''"

theorem pool_and_migrations_agree_witness:
  "let log = snd (RunMigrations (example_sql [0, 1]) quote_ident ''postgres://h/db'' ''silo'') in
   fst (RunMigrations (example_sql [0, 1]) quote_ident ''postgres://h/db'' ''silo'') = None \<and>
   migration_paths log ! 0 = Some ''\"silo\"'' \<and> migration_paths log ! 1 = None"
proof -
  let ?run = "RunMigrations (example_sql [0, 1]) quote_ident ''postgres://h/db'' ''silo''"
  have run: "?run = (None, snd ?run)" by (simp add: RunMigrations_eq migrate_open_result example_sql_def)
  moreover obtain cfg where "InitDB example_pool_env quote_ident ''postgres://h/db'' ''silo'' = Inr cfg"
    by (simp add: InitDB_def example_pool_env_def Let_def)
  ultimately have "\<forall>i < length (fst (sq_up (example_sql [0, 1]))). migration_paths (snd ?run) ! i =
       (if fst (sq_up (example_sql [0, 1])) ! i = sq_conn (example_sql [0, 1]) 2 then Some (quote_ident ''silo'') else None)"
    using pool_and_migrations_agree [OF run] by simp
  from this [rule_format, of 0] this [rule_format, of 1]
  have "migration_paths (snd ?run) ! 0 = Some ''\"silo\"'' \<and> migration_paths (snd ?run) ! 1 = None"
    by (simp add: example_sql_def quote_ident_def)
  moreover have "fst ?run = None" by (subst run) simp
  ultimately show ?thesis unfolding Let_def by blast
qed

end
