(* ===== verification/Server_Main.thy ===== *)
theory Server_Main
  imports Agent_Provision Http_Api Process_Config Database_Setup
begin

text \<open>
  \<^verbatim>\<open>cmd/silo-proxy-server/main.go\<close>: how the server reads its configuration, prepares the database and is put together from its
  parts, and how it runs until it is shut down.
\<close>

record ServerConfig =
  sc_LogLevel :: string
  sc_HttpPort :: int
  sc_AdminAPIKey :: string
  sc_DB_Url :: string
  sc_DB_Schema :: string
  sc_JWT :: Config
  sc_GrpcPort :: int
  sc_TLS :: TLSConfig
  sc_CAKeyFile :: string
  sc_DomainNames :: string
  sc_IPAddresses :: string
  sc_AgentCertDir :: string
  sc_PortStart :: int
  sc_PortEnd :: int
  sc_ProvisionEnabled :: bool
  sc_KeyTTLHours :: int
  sc_CleanupIntervalMinutes :: int

text \<open>What the start depends on outside of the program: the packages for the configuration and the database.\<close>

record start_env =
  se_config :: "ServerConfig config_lib"
  se_environ :: environ
  se_sql :: sql_env
  se_pool :: pool_env
  se_Sanitize :: "string \<Rightarrow> string"

record Services =
  sv_GrpcServer :: "AgentServerManager Server"
  sv_CertService :: "CertService option"
  sv_KeyStore :: "KeyStore option"

text \<open>The service for certificates; \<open>Inl\<close> is the exit status.\<close>

definition setup_certs :: "os_env \<Rightarrow> (string \<Rightarrow> string option) \<Rightarrow> gen_env \<Rightarrow> gen_env \<Rightarrow> ServerConfig \<Rightarrow> file_system \<Rightarrow>
    (int + CertService option) \<times> file_system" where
  "setup_certs env ParseIP gCA gSrv config fs =
     (if \<not> tc_Enabled (sc_TLS config) then (Inr None, fs)
      else
        case New env ParseIP gCA gSrv (tc_CAFile (sc_TLS config)) (sc_CAKeyFile config) (tc_CertFile (sc_TLS config))
               (tc_KeyFile (sc_TLS config)) (sc_AgentCertDir config) (sc_DomainNames config) (sc_IPAddresses config) fs of
          (Inl e, fs') \<Rightarrow> (Inl 1, fs')
        | (Inr s, fs') \<Rightarrow> (Inr (Some s), fs'))"

text \<open>
  The key store: its cleanup runs in a goroutine of its own, where a panic ends the process.
\<close>

definition setup_keys :: "ServerConfig \<Rightarrow> CertService option \<Rightarrow> (int + KeyStore option) outcome" where
  "setup_keys config certService =
     (if \<not> sc_ProvisionEnabled config then Ok (Inr None)
      else if certService = None then Ok (Inl 1)
      else
        let ks = NewKeyStore (wrap64 (sc_KeyTTLHours config * hour)) in
        obind (StartCleanup (wrap64 (sc_CleanupIntervalMinutes config * minute)) [] ks) (\<lambda>ks'. Ok (Inr (Some ks'))))"

definition server_services :: "os_env \<Rightarrow> (string \<Rightarrow> string option) \<Rightarrow> gen_env \<Rightarrow> gen_env \<Rightarrow> ServerConfig \<Rightarrow> file_system \<Rightarrow>
    ((int + Services) \<times> file_system) outcome" where
  "server_services env ParseIP gCA gSrv config fs =
     (case setup_certs env ParseIP gCA gSrv config fs of
        (Inl code, fs') \<Rightarrow> Ok (Inl code, fs')
      | (Inr certService, fs') \<Rightarrow>
          let grpcSrv = NewServer (sc_GrpcPort config) (Some (sc_TLS config)) in
          obind (NewPortManager (sc_PortStart config) (sc_PortEnd config)) (\<lambda>res.
            case res of
              Inl e \<Rightarrow> Ok (Inl 1, fs')
            | Inr pm \<Rightarrow>
                let agentServerManager = NewAgentServerManager pm;
                    grpcSrv' = SetAgentServerManager_srv agentServerManager grpcSrv in
                obind (setup_keys config certService) (\<lambda>keys.
                  case keys of
                    Inl code \<Rightarrow> Ok (Inl code, fs')
                  | Inr keyStore \<Rightarrow>
                      Ok (Inr \<lparr>sv_GrpcServer = grpcSrv', sv_CertService = certService, sv_KeyStore = keyStore\<rparr>, fs'))))"

text \<open>
  The first half of \<^verbatim>\<open>main\<close>: configuration, migrations, connection pool, services.  \<open>Inl\<close> is the exit status.
\<close>

definition server_main :: "start_env \<Rightarrow> os_env \<Rightarrow> (string \<Rightarrow> string option) \<Rightarrow> gen_env \<Rightarrow> gen_env \<Rightarrow> file_system \<Rightarrow>
    ((int + ServerConfig \<times> Services) \<times> file_system) outcome" where
  "server_main se env ParseIP gCA gSrv fs =
     obind (InitConfig_server (se_config se) (se_environ se)) (\<lambda>(config, level, out).
       case RunMigrations (se_sql se) (se_Sanitize se) (sc_DB_Url config) (sc_DB_Schema config) of
         (Some err, log) \<Rightarrow> Ok (Inl 1, fs)
       | (None, log) \<Rightarrow>
           case InitDB (se_pool se) (se_Sanitize se) (sc_DB_Url config) (sc_DB_Schema config) of
             Inl err \<Rightarrow> Ok (Inl 1, fs)
           | Inr dbPool \<Rightarrow>
               obind (server_services env ParseIP gCA gSrv config fs) (\<lambda>(res, fs').
                 case res of
                   Inl code \<Rightarrow> Ok (Inl code, fs')
                 | Inr services \<Rightarrow> Ok (Inr (config, services), fs')))"

text \<open>
  The HTTP interface that \<^verbatim>\<open>main\<close> sets up: \<^verbatim>\<open>SetupRoute\<close> gets the services, the administrator's key and the secret of
  the tokens.  Its state at the start has the accounts of the database.
\<close>

definition server_api :: "ServerConfig \<Rightarrow> Services \<Rightarrow> api_config" where
  "server_api config services =
     \<lparr>cf_GrpcServer = True, cf_CertService = sv_CertService services, cf_KeyStore = sv_KeyStore services \<noteq> None,
      cf_AdminAPIKey = sc_AdminAPIKey config, cf_JWT = sc_JWT config\<rparr>"

definition server_state :: "Services \<Rightarrow> User list \<Rightarrow> file_system \<Rightarrow> AgentServerManager api_state" where
  "server_state services tab fs =
     \<lparr>as_users = tab, as_keys = (case sv_KeyStore services of Some ks \<Rightarrow> ks | None \<Rightarrow> NewKeyStore 0), as_files = fs,
      as_conns = srv_connManager (sv_GrpcServer services)\<rparr>"

text \<open>
  The second half of \<^verbatim>\<open>main\<close>.  It waits for an error of one of the two servers or for a signal, and then
  stops both.  The servers run in goroutines of their own: \<open>began\<close> tells whether the one of the gRPC server has come to
  \<^verbatim>\<open>Start\<close> by then, \<open>work\<close> is what the streams of the agents have done meanwhile, and \<open>serve_failed\<close> tells whether
  \<^verbatim>\<open>Serve\<close> returned an error after a successful start.  \<open>Block\<close> is a server that keeps running.  The shutdown of the HTTP server has no effect on the gRPC server.
\<close>

definition server_serve :: "('m, 'e) AgentServerIface \<Rightarrow> ('cert, 'pool, 'data) tls_env \<Rightarrow> (int \<Rightarrow> bool) \<Rightarrow> ('m Server \<Rightarrow> 'm Server) \<Rightarrow>
    bool \<Rightarrow> bool \<Rightarrow> bool \<Rightarrow> bool \<Rightarrow> 'm Server \<Rightarrow> 'm Server outcome" where
  "server_serve I env listen work began serve_failed http_failed signalled s =
     (let (failed, s') = (if began then let (res, s1) = Start env listen s in if isl res then (True, s1) else (serve_failed, work s1)
                          else (False, s)) in
      if failed \<or> http_failed \<or> signalled then StopWithTimeout I (10 * second) s' else Block)"

section \<open>Lemmas\<close>

lemma setup_certs_ok:
  assumes "setup_certs env ParseIP gCA gSrv config fs = (Inr cs, fs')"
  shows "cs = None \<and> \<not> tc_Enabled (sc_TLS config) \<and> fs' = fs \<or>
    (\<exists>s. cs = Some s \<and> tc_Enabled (sc_TLS config) \<and> ensureCertificates env gCA gSrv s fs = (None, fs') \<and>
       svc_CaCertPath s = tc_CAFile (sc_TLS config) \<and> svc_ServerCertPath s = tc_CertFile (sc_TLS config) \<and>
       svc_ServerKeyPath s = tc_KeyFile (sc_TLS config))"
  using assms
  by (auto simp: setup_certs_def New_def Let_def split: if_splits prod.splits sum.splits option.splits)

lemma setup_keys_ok:
  assumes "setup_keys config cs = Ok (Inr ks)"
  shows "ks = None \<and> \<not> sc_ProvisionEnabled config \<or>
    cs \<noteq> None \<and> sc_ProvisionEnabled config \<and> (\<exists>ttl. ks = Some (NewKeyStore ttl))"
  using assms by (auto simp: setup_keys_def StartCleanup_def Let_def split: if_splits)

lemma case_sum_Ok_Inr:
  "(case x of Inl e \<Rightarrow> Ok (Inl (g e), h) | Inr y \<Rightarrow> f y) = Ok (Inr z, w) \<longleftrightarrow> (\<exists>y. x = Inr y \<and> f y = Ok (Inr z, w))"
  by (cases x) auto

lemma server_services_ok:
  assumes "server_services env ParseIP gCA gSrv config fs = Ok (Inr sv, fs')"
  obtains pm where "setup_certs env ParseIP gCA gSrv config fs = (Inr (sv_CertService sv), fs')"
    "setup_keys config (sv_CertService sv) = Ok (Inr (sv_KeyStore sv))"
    "NewPortManager (sc_PortStart config) (sc_PortEnd config) = Ok (Inr pm)"
    "sv_GrpcServer sv = SetAgentServerManager_srv (NewAgentServerManager pm) (NewServer (sc_GrpcPort config) (Some (sc_TLS config)))"
  using assms
  by (auto simp: server_services_def Let_def case_sum_Ok_Inr split: if_split_asm prod.split_asm)

lemma server_main_started:
  assumes "server_main se env ParseIP gCA gSrv fs = Ok (Inr (config, sv), fs')"
  shows "\<exists>level out. InitConfig_server (se_config se) (se_environ se) = Ok (config, level, out)"
    and "fst (RunMigrations (se_sql se) (se_Sanitize se) (sc_DB_Url config) (sc_DB_Schema config)) = None"
    and "\<not> isl (InitDB (se_pool se) (se_Sanitize se) (sc_DB_Url config) (sc_DB_Schema config))"
    and "server_services env ParseIP gCA gSrv config fs = Ok (Inr sv, fs')"
proof -
  obtain cfg level out where I: "InitConfig_server (se_config se) (se_environ se) = Ok (cfg, level, out)"
    using assms by (auto simp: server_main_def)
  obtain err log where M: "RunMigrations (se_sql se) (se_Sanitize se) (sc_DB_Url cfg) (sc_DB_Schema cfg) = (err, log)" by fastforce
  have "err = None" using assms I M by (cases err) (simp_all add: server_main_def)
  moreover from this obtain pool where D: "InitDB (se_pool se) (se_Sanitize se) (sc_DB_Url cfg) (sc_DB_Schema cfg) = Inr pool"
    using assms I M by (cases "InitDB (se_pool se) (se_Sanitize se) (sc_DB_Url cfg) (sc_DB_Schema cfg)") (simp_all add: server_main_def)
  moreover from this obtain res fs1 where S: "server_services env ParseIP gCA gSrv cfg fs = Ok (res, fs1)"
    using assms I M by (auto simp: server_main_def split: option.split_asm)
  ultimately have "cfg = config \<and> res = Inr sv \<and> fs1 = fs'"
    using assms I M by (cases res) (simp_all add: server_main_def)
  with I M D S \<open>err = None\<close>
  show "\<exists>level out. InitConfig_server (se_config se) (se_environ se) = Ok (config, level, out)"
    "fst (RunMigrations (se_sql se) (se_Sanitize se) (sc_DB_Url config) (sc_DB_Schema config)) = None"
    "\<not> isl (InitDB (se_pool se) (se_Sanitize se) (sc_DB_Url config) (sc_DB_Schema config))"
    "server_services env ParseIP gCA gSrv config fs = Ok (Inr sv, fs')"
    by auto
qed

lemma server_main_ok:
  assumes "server_main se env ParseIP gCA gSrv fs = Ok (Inr (config, sv), fs')"
  obtains pm where "setup_certs env ParseIP gCA gSrv config fs = (Inr (sv_CertService sv), fs')"
    "setup_keys config (sv_CertService sv) = Ok (Inr (sv_KeyStore sv))"
    "NewPortManager (sc_PortStart config) (sc_PortEnd config) = Ok (Inr pm)"
    "sv_GrpcServer sv = SetAgentServerManager_srv (NewAgentServerManager pm) (NewServer (sc_GrpcPort config) (Some (sc_TLS config)))"
  by (rule server_services_ok [OF server_main_started(4) [OF assms]])

section \<open>Properties\<close>

text \<open>
  C36 (functional): what the start of the server puts together fits.  It comes this far only if the database was migrated and
  the pool of connections answers.  The table of agents and the port pool start in
  order, provisioning is on only together with certificates, and the key store starts empty.
  If TLS is on and its files are new, different and readable, and the client authentication is one of the known
  kinds, then the gRPC server can start if its port is free: it loads the pair that was just written.
\<close>

theorem server_main_comes_up:
  assumes "server_main se env ParseIP gCA gSrv fs = Ok (Inr (config, sv), fs')"
  shows "fst (RunMigrations (se_sql se) (se_Sanitize se) (sc_DB_Url config) (sc_DB_Schema config)) = None \<and>
    \<not> isl (InitDB (se_pool se) (se_Sanitize se) (sc_DB_Url config) (sc_DB_Schema config)) \<and>
    conn_inv (srv_connManager (sv_GrpcServer sv)) \<and> srv_pendingRequests (sv_GrpcServer sv) = [] \<and>
    (sv_KeyStore sv \<noteq> None \<longrightarrow> sv_CertService sv \<noteq> None) \<and>
    (\<forall>ks. sv_KeyStore sv = Some ks \<longrightarrow> keys_valid ks \<and> ks_keys ks = []) \<and>
    (\<forall>s. sv_CertService sv = Some s \<and> config_ok s \<and> (\<forall>p. \<not> os_read_err env p) \<and> listen (sc_GrpcPort config) \<and>
       tc_ClientAuth (sc_TLS config) \<in> {''none'', ''request'', ''require''} \<and>
       \<not> (fileExists env (svc_CaCertPath s) fs \<and> fileExists env (svc_CaKeyPath s) fs) \<and>
       \<not> (fileExists env (svc_ServerCertPath s) fs \<and> fileExists env (svc_ServerKeyPath s) fs) \<longrightarrow>
       (\<exists>creds sc sk. fst (Start (fs_tls_env ke env fs') listen (sv_GrpcServer sv)) = Inr (Some creds) \<and>
          tls_Certificates creds = [(sc, RSAKey sk)] \<and> x_PublicKey sc = Some sk))"
proof -
  obtain pm where M: "setup_certs env ParseIP gCA gSrv config fs = (Inr (sv_CertService sv), fs')"
      "setup_keys config (sv_CertService sv) = Ok (Inr (sv_KeyStore sv))"
      "NewPortManager (sc_PortStart config) (sc_PortEnd config) = Ok (Inr pm)"
      "sv_GrpcServer sv = SetAgentServerManager_srv (NewAgentServerManager pm) (NewServer (sc_GrpcPort config) (Some (sc_TLS config)))"
    by (rule server_main_ok [OF assms])
  have cm: "srv_connManager (sv_GrpcServer sv) = NewConnectionManager (Some (NewAgentServerManager pm))"
    "srv_pendingRequests (sv_GrpcServer sv) = []" "srv_port (sv_GrpcServer sv) = sc_GrpcPort config"
    "srv_tlsConfig (sv_GrpcServer sv) = Some (sc_TLS config)"
    by (simp_all add: M(4) SetAgentServerManager_srv_def SetAgentServerManager_def NewServer_def NewConnectionManager_def)
  have "\<exists>creds sc sk. fst (Start (fs_tls_env ke env fs') listen (sv_GrpcServer sv)) = Inr (Some creds) \<and>
          tls_Certificates creds = [(sc, RSAKey sk)] \<and> x_PublicKey sc = Some sk"
    if s: "sv_CertService sv = Some s" "config_ok s" "\<And>p. \<not> os_read_err env p" "listen (sc_GrpcPort config)"
      "tc_ClientAuth (sc_TLS config) \<in> {''none'', ''request'', ''require''}"
      "\<not> (fileExists env (svc_CaCertPath s) fs \<and> fileExists env (svc_CaKeyPath s) fs)"
      "\<not> (fileExists env (svc_ServerCertPath s) fs \<and> fileExists env (svc_ServerKeyPath s) fs)" for s
  proof -
    from setup_certs_ok [OF M(1)] s(1) have E: "tc_Enabled (sc_TLS config)" "ensureCertificates env gCA gSrv s fs = (None, fs')"
        "svc_CaCertPath s = tc_CAFile (sc_TLS config)" "svc_ServerCertPath s = tc_CertFile (sc_TLS config)"
        "svc_ServerKeyPath s = tc_KeyFile (sc_TLS config)"
      by auto
    obtain auth where auth: "ParseClientAuthType (tc_ClientAuth (sc_TLS config)) = Inr auth"
      using s(5) by (auto simp: ParseClientAuthType_def)
    show ?thesis
    proof (rule ensureCertificates_fresh [OF s(2,3) E(2) s(6,7)])
      fix ca sc sk
      assume "os_ReadFile env (svc_CaCertPath s) fs' = Some (PEM ''CERTIFICATE'' (CertDER ca))" and
        "os_ReadFile env (svc_ServerCertPath s) fs' = Some (PEM ''CERTIFICATE'' (CertDER sc))"
        "os_ReadFile env (svc_ServerKeyPath s) fs' = Some (PEM ''PRIVATE KEY'' (PKCS8DER (RSAKey sk)))" and pub: "x_PublicKey sc = Some sk"
      then show ?thesis
        using server_credentials_issued [OF _ pub, of env "tc_CertFile (sc_TLS config)" fs' "tc_KeyFile (sc_TLS config)"
            "tc_CAFile (sc_TLS config)" ca ke auth] E s(4) cm(3,4) auth
        by (auto simp: Start_def Let_def)
    qed
  qed
  moreover have "conn_inv (srv_connManager (sv_GrpcServer sv))"
    using NewPortManager_inv [OF M(3)] conn_inv_new by (simp add: cm(1))
  ultimately show ?thesis
    using setup_keys_ok [OF M(2)] cm(2) server_main_started(2,3) [OF assms] by auto (simp_all add: NewKeyStore_def)
qed

text \<open>
  C37 (error): how the server ends.  A running server ends only after an error of one of its two parts or a signal.  If its gRPC part
  had started, the end is orderly: every connection of an agent is closed and no agent has an HTTP server.  If
  the gRPC part had failed to start, or an error of the HTTP server or a signal came first, then the process panics
  instead, because the gRPC server that is to be stopped does not exist.
\<close>

theorem server_serve_ends:
  fixes env :: "('cert, 'pool, 'data) tls_env" and listen :: "int \<Rightarrow> bool" and t :: gotime
    and os :: "nat \<Rightarrow> int \<Rightarrow> bool" and timed_out :: "string \<Rightarrow> bool"
  assumes up: "server_main se oenv ParseIP gCA gSrv fs = Ok (Inr (config, sv), fs')"
    and work: "\<And>s. conn_inv (srv_connManager s) \<and> \<not> cm_stopped (srv_connManager s) \<and> srv_grpcServer s \<Longrightarrow>
      conn_inv (srv_connManager (work s)) \<and> \<not> cm_stopped (srv_connManager (work s)) \<and> srv_grpcServer (work s)"
  defines "run \<equiv> \<lambda>began serve_failed http_failed signalled.
    server_serve (asm_iface os t timed_out) env listen work began serve_failed http_failed signalled (sv_GrpcServer sv)"
  shows "(\<not> isl (fst (Start env listen (sv_GrpcServer sv))) \<longrightarrow>
      run True False False False = Block \<and>
      (serve_failed \<or> http_failed \<or> signalled \<longrightarrow>
        (\<exists>s. run True serve_failed http_failed signalled = Ok s \<and> cm_agents (srv_connManager s) = [] \<and>
           served (srv_connManager s) = Map.empty \<and>
           (\<forall>c\<in>set (cm_heap (srv_connManager s)). ac_cancelled c \<and> chan_closed (ac_SendCh c))))) \<and>
    (isl (fst (Start env listen (sv_GrpcServer sv))) \<longrightarrow> run True serve_failed http_failed signalled = Panic) \<and>
    run False serve_failed False False = Block \<and>
    (http_failed \<or> signalled \<longrightarrow> run False serve_failed http_failed signalled = Panic)"
proof -
  obtain pm where M: "NewPortManager (sc_PortStart config) (sc_PortEnd config) = Ok (Inr pm)"
      "sv_GrpcServer sv = SetAgentServerManager_srv (NewAgentServerManager pm) (NewServer (sc_GrpcPort config) (Some (sc_TLS config)))"
    by (rule server_main_ok [OF up])
  let ?s = "sv_GrpcServer sv"
  obtain res s1 where S: "Start env listen ?s = (res, s1)" by fastforce
  have new: "\<not> srv_grpcServer ?s" "srv_connManager ?s = NewConnectionManager (Some (NewAgentServerManager pm))"
    by (simp_all add: M(2) SetAgentServerManager_srv_def SetAgentServerManager_def NewServer_def NewConnectionManager_def)
  have started: "srv_connManager s1 = srv_connManager ?s \<and> (srv_grpcServer s1 \<longleftrightarrow> \<not> isl res)"
    using S new(1) by (auto simp: Start_def Let_def split: if_splits option.splits sum.splits)
  have ok: "conn_inv (srv_connManager s1) \<and> \<not> cm_stopped (srv_connManager s1)"
    using NewPortManager_inv [OF M(1)] conn_inv_new started by (simp add: new(2)) (simp add: NewConnectionManager_def)
  have "\<exists>s. run True e h g = Ok s \<and> cm_agents (srv_connManager s) = [] \<and> served (srv_connManager s) = Map.empty \<and>
      (\<forall>c\<in>set (cm_heap (srv_connManager s)). ac_cancelled c \<and> chan_closed (ac_SendCh c))"
    if "\<not> isl res" "e \<or> h \<or> g" for e h g
  proof -
    have w: "conn_inv (srv_connManager (work s1))" "\<not> cm_stopped (srv_connManager (work s1))" "srv_grpcServer (work s1)"
      using work [of s1] ok started that(1) by blast+
    from Stop_cm_spec [OF w(1,2), of os t timed_out] obtain cm' where cm':
      "Stop_cm (asm_iface os t timed_out) (srv_connManager (work s1)) = Ok cm'" "cm_agents cm' = []" "served cm' = Map.empty"
      "\<forall>r < length (cm_heap cm'). ac_cancelled (cm_heap cm' ! r) \<and> chan_closed (ac_SendCh (cm_heap cm' ! r))" by blast
    then show ?thesis
      using that w(3) S by (auto simp: run_def server_serve_def StopWithTimeout_def Stop_srv_def in_set_conv_nth)
  qed
  then show ?thesis
    using S started new(1) by (auto simp: run_def server_serve_def StopWithTimeout_def Stop_srv_def)
qed

definition example_config :: ServerConfig where
  "example_config =
     \<lparr>sc_LogLevel = ''info'', sc_HttpPort = 8080, sc_AdminAPIKey = '''', sc_DB_Url = ''postgres://localhost/silo'', sc_DB_Schema = ''silo'',
      sc_JWT = \<lparr>cfg_Secret = ''secret'', cfg_ExpirationMinutes = 60\<rparr>, sc_GrpcPort = 9090,
      sc_TLS = \<lparr>tc_Enabled = True, tc_CertFile = ''./certs/server/server-cert.pem'', tc_KeyFile = ''./certs/server/server-key.pem'',
                tc_CAFile = ''./certs/ca/ca-cert.pem'', tc_ClientAuth = ''require''\<rparr>,
      sc_CAKeyFile = ''./certs/ca/ca-key.pem'', sc_DomainNames = ''localhost'', sc_IPAddresses = ''127.0.0.1'',
      sc_AgentCertDir = ''./certs/agents'', sc_PortStart = 8100, sc_PortEnd = 8102,
      sc_ProvisionEnabled = True, sc_KeyTTLHours = 24, sc_CleanupIntervalMinutes = 60\<rparr>"

definition example_start :: start_env where
  "example_start =
     \<lparr>se_config = \<lparr>cfg_Load = \<lambda>e. e, cfg_ReadInConfig = \<lambda>s e. True, cfg_Unmarshal = \<lambda>s e. Some example_config,
                   cfg_Marshal = \<lambda>c. Some ''{}'', cfg_LogLevel = sc_LogLevel\<rparr>,
      se_environ = [], se_sql = example_sql [0, 0], se_pool = example_pool_env, se_Sanitize = quote_ident\<rparr>"

lemma example_run:
  obtains sv fs' where "server_main example_start os_fine Some (gen_example 1) (gen_example 2) empty_fs = Ok (Inr (example_config, sv), fs')"
    "sv_CertService sv = Some example_service" "sv_KeyStore sv \<noteq> None"
proof -
  let ?run = "server_main example_start os_fine Some (gen_example 1) (gen_example 2) empty_fs"
  have "case ?run of Ok (Inr (config, sv), fs') \<Rightarrow> config = example_config \<and> sv_CertService sv = Some example_service \<and> sv_KeyStore sv \<noteq> None
    | _ \<Rightarrow> False" by code_simp
  then show thesis by (auto split: outcome.splits prod.splits sum.splits intro: that)
qed

theorem server_main_comes_up_witness:
  "\<exists>config sv fs' creds. server_main example_start os_fine Some (gen_example 1) (gen_example 2) empty_fs = Ok (Inr (config, sv), fs') \<and>
     sv_KeyStore sv \<noteq> None \<and> fst (Start (fs_tls_env example_keys os_fine fs') (\<lambda>p. True) (sv_GrpcServer sv)) = Inr (Some creds)"
proof -
  obtain sv fs' where run: "server_main example_start os_fine Some (gen_example 1) (gen_example 2) empty_fs = Ok (Inr (example_config, sv), fs')"
    and sv: "sv_CertService sv = Some example_service" "sv_KeyStore sv \<noteq> None" by (rule example_run)
  have new: "\<not> (fileExists os_fine (svc_CaCertPath example_service) empty_fs \<and> fileExists os_fine (svc_CaKeyPath example_service) empty_fs)"
    "\<not> (fileExists os_fine (svc_ServerCertPath example_service) empty_fs \<and> fileExists os_fine (svc_ServerKeyPath example_service) empty_fs)"
    by code_simp+
  have auth: "tc_ClientAuth (sc_TLS example_config) \<in> {''none'', ''request'', ''require''}" by (simp add: example_config_def)
  from server_main_comes_up [OF run, of "\<lambda>p. True" example_keys] sv(1) example_config new auth obtain creds where
    "fst (Start (fs_tls_env example_keys os_fine fs') (\<lambda>p. True) (sv_GrpcServer sv)) = Inr (Some creds)" by auto
  with run sv(2) show ?thesis by blast
qed

theorem server_serve_ends_witness:
  "\<exists>config sv fs'. server_main example_start os_fine Some (gen_example 1) (gen_example 2) empty_fs = Ok (Inr (config, sv), fs') \<and>
     server_serve (asm_iface (\<lambda>k p. True) 7 (\<lambda>a. False)) (fs_tls_env example_keys os_fine fs') (\<lambda>p. False) (\<lambda>s. s) True False False False
       (sv_GrpcServer sv) = Panic"
proof -
  obtain sv fs' where run: "server_main example_start os_fine Some (gen_example 1) (gen_example 2) empty_fs = Ok (Inr (example_config, sv), fs')"
    by (rule example_run)
  moreover have "isl (fst (Start (fs_tls_env example_keys os_fine fs') (\<lambda>p. False) (sv_GrpcServer sv)))" by (simp add: Start_def)
  ultimately show ?thesis
    using server_serve_ends [OF run, where work = "\<lambda>s. s" and env = "fs_tls_env example_keys os_fine fs'" and listen = "\<lambda>p. False"
        and http_failed = False and signalled = False and os = "\<lambda>k p. True" and t = 7 and timed_out = "\<lambda>a. False"]
    by blast
qed

section \<open>Requests to a new server\<close>

text \<open>Requests handled one after the other, each with what its environment does.\<close>

type_synonym api_request = "api_env \<times> string \<times> string list \<times> http_header \<times> (string, string) gomap"

fun serve_all :: "api_config \<Rightarrow> api_request list \<Rightarrow> 'm api_state \<Rightarrow> (reply list \<times> 'm api_state) outcome" where
  "serve_all cfg [] st = Ok ([], st)"
| "serve_all cfg ((env, meth, path, header, query) # reqs) st =
     obind (serve env cfg meth path header query st) (\<lambda>(r, st').
       obind (serve_all cfg reqs st') (\<lambda>(rs, st''). Ok (r # rs, st'')))"

text \<open>The answers that contain a private key or a provision key.\<close>

fun secret_reply :: "reply \<Rightarrow> bool" where
  "secret_reply (ReplyZip (n, Inr z)) = True"
| "secret_reply (ReplyKey (n, Inr k)) = True"
| "secret_reply (ReplyKeys (n, Inr l)) = True"
| "secret_reply (ReplyProvision (n, Inr b)) = True"
| "secret_reply _ = False"

lemma secret_replyE:
  assumes "secret_reply r"
  obtains (zip) n z where "r = ReplyZip (n, Inr z)" | (key) n k where "r = ReplyKey (n, Inr k)"
  | (list) n l where "r = ReplyKeys (n, Inr l)" | (provision) n b where "r = ReplyProvision (n, Inr b)"
  using assms by (cases r rule: secret_reply.cases) auto

text \<open>Without a key for the administrator and with no provision keys nobody gets past the guards.\<close>

lemma serve_locked:
  fixes st :: "'m api_state"
  assumes "jwt_ok (ae_jwt env)" "cf_AdminAPIKey cfg = ''''" "ks_keys (as_keys st) = []"
  obtains r st' where "serve env cfg meth path header query st = Ok (r, st')" "as_files st' = as_files st" "as_keys st' = as_keys st"
    "as_conns st' = as_conns st" "\<forall>u\<in>set (as_users st'). u \<in> set (as_users st) \<or> u_Role u = UserRoleUser"
    "\<not> secret_reply r"
proof -
  have no_key: "\<not> admin_key cfg c" for c using assms(2) by (simp add: admin_key_def)
  have no_pk: "Validate now key (as_keys st) \<noteq> Inr pk" for now key pk using assms(3) by (simp add: Validate_def)
  from serve_effects [OF assms(1), of cfg meth path header query st] obtain r st' where
    S: "serve env cfg meth path header query st = Ok (r, st')" "as_conns st' = as_conns st"
      "as_files st' = as_files st" "as_keys st' = as_keys st"
    and none: "\<forall>n z. r \<noteq> ReplyZip (n, Inr z)" "\<forall>n l. r \<noteq> ReplyKeys (n, Inr l)" "\<forall>n k. r \<noteq> ReplyKey (n, Inr k)" "\<forall>n b. r \<noteq> ReplyProvision (n, Inr b)"
    and users: "as_users st' \<noteq> as_users st \<longrightarrow>
       (\<exists>u. as_users st' = as_users st @ [u] \<and> u_Role u = UserRoleUser) \<or> (\<exists>i. as_users st' = filter (\<lambda>u. u_ID u \<noteq> i) (as_users st))"
    using no_key no_pk by (elim exE conjE) blast
  have "\<forall>u\<in>set (as_users st'). u \<in> set (as_users st) \<or> u_Role u = UserRoleUser" using users by auto
  moreover have "\<not> secret_reply r" using none by (blast elim: secret_replyE)
  ultimately show thesis using S by (intro that)
qed

text \<open>
  C13 (safety): a server that was started without a key for the administrator is locked.  Whatever requests come to it, in
  whatever order, it answers all of them without a panic, writes no file, issues and lists no provision key, hands out
  no private key, neither in an archive nor to an agent that provisions itself, and creates no administrator: every account that it ends up with was in the database or is an
  ordinary user.  So forgetting the key in the configuration closes the interface and does not open it.
\<close>

theorem keyless_server_locked:
  assumes up: "server_main se env ParseIP gCA gSrv fs = Ok (Inr (config, sv), fs')" and key: "sc_AdminAPIKey config = ''''"
    and jwt: "\<forall>req\<in>set reqs. jwt_ok (ae_jwt (fst req))"
  shows "\<exists>rs st'. serve_all (server_api config sv) reqs (server_state sv tab fs') = Ok (rs, st') \<and> length rs = length reqs \<and>
    as_files st' = fs' \<and> ks_keys (as_keys st') = [] \<and> as_conns st' = srv_connManager (sv_GrpcServer sv) \<and>
    (\<forall>u\<in>set (as_users st'). u \<in> set tab \<or> u_Role u = UserRoleUser) \<and>
    (\<forall>r\<in>set rs. \<not> secret_reply r)"
proof -
  have cfg: "cf_AdminAPIKey (server_api config sv) = ''''" using key by (simp add: server_api_def)
  have run: "\<exists>rs st'. serve_all (server_api config sv) reqs st = Ok (rs, st') \<and> length rs = length reqs \<and>
      as_files st' = as_files st \<and> as_keys st' = as_keys st \<and> as_conns st' = as_conns st \<and>
      (\<forall>u\<in>set (as_users st'). u \<in> set (as_users st) \<or> u_Role u = UserRoleUser) \<and>
      (\<forall>r\<in>set rs. \<not> secret_reply r)"
    if "ks_keys (as_keys st) = []" for st :: "AgentServerManager api_state"
    using that jwt
  proof (induction reqs arbitrary: st)
    case (Cons req reqs)
    obtain e m p h q where req: "req = (e, m, p, h, q)" by (cases req) auto
    then have ok: "jwt_ok (ae_jwt e)" "\<forall>req\<in>set reqs. jwt_ok (ae_jwt (fst req))" using Cons.prems(2) by simp_all
    obtain r st1 where S: "serve e (server_api config sv) m p h q st = Ok (r, st1)" "as_files st1 = as_files st" "as_keys st1 = as_keys st"
        "as_conns st1 = as_conns st" "\<forall>u\<in>set (as_users st1). u \<in> set (as_users st) \<or> u_Role u = UserRoleUser"
        "\<not> secret_reply r"
      by (rule serve_locked [OF ok(1) cfg Cons.prems(1)])
    from Cons.IH [of st1] S(3) Cons.prems(1) ok(2) obtain rs st2 where
      "serve_all (server_api config sv) reqs st1 = Ok (rs, st2)" "length rs = length reqs"
      "as_files st2 = as_files st1" "as_keys st2 = as_keys st1" "as_conns st2 = as_conns st1"
      "\<forall>u\<in>set (as_users st2). u \<in> set (as_users st1) \<or> u_Role u = UserRoleUser"
      "\<forall>r\<in>set rs. \<not> secret_reply r" by auto
    with S show ?case by (intro exI [of _ "r # rs"] exI [of _ st2]) (auto simp: req)
  qed simp
  obtain pm where "setup_keys config (sv_CertService sv) = Ok (Inr (sv_KeyStore sv))" by (rule server_main_ok [OF up])
  from setup_keys_ok [OF this] have "ks_keys (as_keys (server_state sv tab fs')) = []"
    by (auto simp: server_state_def NewKeyStore_def)
  from run [OF this] this show ?thesis by (fastforce simp: server_state_def)
qed

theorem keyless_server_locked_witness:
  "\<exists>config sv fs' rs st'. server_main example_start os_fine Some (gen_example 1) (gen_example 2) empty_fs = Ok (Inr (config, sv), fs') \<and>
     serve_all (server_api config sv)
       [(example_env, ''POST'', [''api'', ''v1'', ''provision-keys''], [(''X-Api-Key'', [''''])], []),
        (example_env, ''POST'', [''agents'', ''a'', ''certificate''], [], [])] (server_state sv [] fs') = Ok (rs, st') \<and>
     length rs = 2 \<and> as_files st' = fs' \<and> (\<forall>r\<in>set rs. \<not> secret_reply r)"
proof -
  let ?reqs = "[(example_env, ''POST'', [''api'', ''v1'', ''provision-keys''], [(''X-Api-Key'', [''''])], []),
    (example_env, ''POST'', [''agents'', ''a'', ''certificate''], [], [])] :: api_request list"
  obtain sv fs' where run: "server_main example_start os_fine Some (gen_example 1) (gen_example 2) empty_fs = Ok (Inr (example_config, sv), fs')"
    by (rule example_run)
  have key: "sc_AdminAPIKey example_config = ''''" by (simp add: example_config_def)
  have jwt: "\<forall>req\<in>set ?reqs. jwt_ok (ae_jwt (fst req))" by (simp add: example_env_def example_jwt_ok)
  from keyless_server_locked [OF run key jwt, of "[]"] obtain rs st' where
    "serve_all (server_api example_config sv) ?reqs (server_state sv [] fs') = Ok (rs, st')" "length rs = length ?reqs" "as_files st' = fs'"
    "\<forall>r\<in>set rs. \<not> secret_reply r" by blast
  moreover from this(2) have "length rs = 2" by simp
  ultimately show ?thesis using run by blast
qed

end
