(* ===== verification/Spec2Isabelle.thy ===== *)
theory Spec2Isabelle
  imports Proxy_System Agent_Main Server_Main
begin

text \<open>
  \<^bold>\<open>silo-proxy\<close>: agents behind firewalls open a gRPC stream to a public server; for every connected agent the
  server opens an HTTP port, and what arrives there is sent over the stream to the agent, which
  calls a local service and sends its response back.  This development models the server
  (\<^verbatim>\<open>cmd/silo-proxy-server\<close>), the agent (\<^verbatim>\<open>cmd/silo-proxy-agent\<close>) and the packages under \<^verbatim>\<open>internal/\<close>, and proves what makes them
  correct, together with the places where the code does not do what it means to.

  \<^bold>\<open>How Go is modelled\<close> (\<^verbatim>\<open>Silo_Prelude\<close>, \<^verbatim>\<open>Go_Chan\<close>, \<^verbatim>\<open>Go_Paths\<close>, \<^verbatim>\<open>Go_Files\<close>, \<^verbatim>\<open>Http_Text\<close>).
  A statement that can wait or panic has a value of type \<open>outcome\<close>: \<open>Ok\<close>, \<open>Block\<close> or \<open>Panic\<close>; where a \<^verbatim>\<open>select\<close> can
  choose, the result is the list of all outcomes.  Errors are values of sum types.  Go maps are association lists with
  distinct keys (\<open>gomap\<close>), pointers that several goroutines share are indices into a heap, \<^verbatim>\<open>int\<close>, \<^verbatim>\<open>int32\<close> and
  \<^verbatim>\<open>time.Duration\<close> wrap around where a value can leave their range.  What the environment decides is an argument: the clock, random
  bytes, which ports can be bound, which file operations fail, which messages arrive.  Loops that wait for
  events are recursions over the list of events, so no fuel is needed: a list of events is one finite
  prefix of a run, and the theorems hold for every list.  Files are addressed by the cleaned form of their path, and an
  operation on them that fails may have done a part of its work; keys and certificates are symbolic, and \<open>verifies\<close> is what \<^verbatim>\<open>x509.Certificate.Verify\<close> checks for a chain of length one.

  \<^bold>\<open>Ports and servers of agents.\<close>
  \<^item> \<^verbatim>\<open>Port_Manager\<close> (\<^verbatim>\<open>internal/api/http/port_manager.go\<close>): the pool.  Its contract is the locale \<open>port_pool\<close>; no
    history of allocations and releases loses or duplicates a port, also when calls overlap between the channel
    and the table (\<open>pool_step\<close>).
  \<^item> \<^verbatim>\<open>Agent_Server_Manager\<close> (\<^verbatim>\<open>agent_server_manager.go\<close>): starting and stopping the HTTP server of an agent, with the
    retries on a port that cannot be bound, with the exact result; proved against the interpretation of \<open>port_pool\<close>.
  \<^item> \<^verbatim>\<open>Agent_Server_Concurrency\<close>: the same operations cut where they release the mutex, as a step relation.  In every
    interleaving the owned ports are those of live servers, and cleaning up never blocks.
  \<^item> \<^verbatim>\<open>Agent_Server_Iface\<close>: the Go interface through which the connection manager uses the server manager, as the locale
    \<open>agent_server_iface\<close>, interpreted on \<open>AgentServerManager\<close>.

  \<^bold>\<open>The stream, server side.\<close>
  \<^item> \<^verbatim>\<open>Proxy_Message\<close> (\<^verbatim>\<open>proto/proxy.proto\<close>) and \<^verbatim>\<open>Grpc_TLS\<close> (\<^verbatim>\<open>internal/grpc/tls/credentials.go\<close>).
  \<^item> \<^verbatim>\<open>Connection_Manager\<close> (\<^verbatim>\<open>internal/grpc/server/connection_manager.go\<close>): the table of connections on a heap of
    connections, proved inside \<open>agent_server_iface\<close> and carried over to the server manager.  A message can be
    sent on a connection that was closed after it was looked up, which may panic.
  \<^item> \<^verbatim>\<open>Grpc_Server\<close> (\<^verbatim>\<open>server.go\<close>): matching of responses with requests, as functions and as a step relation over
    requesters and responses; TLS settings at the start.
  \<^item> \<^verbatim>\<open>Stream_Handler\<close> (\<^verbatim>\<open>stream_handler.go\<close>): the life of a stream, the loops, and every interleaving of streams with
    the removal of stale connections and the stop.  A reconnecting agent is torn down by its old stream.

  \<^bold>\<open>The way of a request.\<close>
  \<^item> \<^verbatim>\<open>Request_Handler\<close> and \<^verbatim>\<open>Grpc_Client\<close> (\<^verbatim>\<open>internal/grpc/client\<close>): the local call and the agent's connection loop with its
    backoff, its loops on the stream and its stop.
  \<^item> \<^verbatim>\<open>Proxy_Handler\<close> (\<^verbatim>\<open>internal/api/http/handler/proxy.go\<close>): the handler as the sequence of its calls on the gin context;
    one status for every request, and the reason for each.
  \<^item> \<^verbatim>\<open>proxy_end_to_end\<close> below joins these parts for one request: what the local service and the client get of each other.
  \<^item> \<^verbatim>\<open>Proxy_System\<close> joins them for any number of agents, connections and requests at once: a step relation whose rules are the
    operations above, with messages in transit that can be lost or delayed.  A response is that of the local service of
    an agent with the right identifier, to exactly this request, or says how the call of this service failed.

  \<^bold>\<open>Certificates and provisioning.\<close>
  \<^item> \<^verbatim>\<open>Cert_Service\<close> (\<^verbatim>\<open>internal/cert\<close>), \<^verbatim>\<open>Cert_Handler\<close> (\<^verbatim>\<open>handler/cert.go\<close>): the authority, the certificates of server and
    agents, their files and archives: confinement to the directory of the agent, chains that verify, the round
    trip of an archive, and two sequences that leave files which do not fit together.
  \<^item> \<^verbatim>\<open>Key_Store\<close> (\<^verbatim>\<open>internal/provision/key_store.go\<close>): refinement of a table of live keys.  The contract that the handlers rely
    on is the locale \<open>key_table\<close>, interpreted on the store.
  \<^item> \<^verbatim>\<open>Provision_Handler\<close> (\<^verbatim>\<open>handler/provision.go\<close>): the exchange of a key for a certificate and its private key, and its
    interleavings, where the file system may behave differently at every step.
  \<^item> \<^verbatim>\<open>Agent_Provision\<close> (\<^verbatim>\<open>cmd/silo-proxy-agent\<close>): the command that provisions an agent; with server and handler it
    gives two sides that accept each other's certificates.

  \<^bold>\<open>Accounts and the HTTP interface.\<close>
  \<^item> \<^verbatim>\<open>User_Service\<close> (\<^verbatim>\<open>internal/auth\<close>, \<^verbatim>\<open>internal/users\<close>, \<^verbatim>\<open>internal/db/sqlc\<close>): the table of users, passwords and tokens.
    Postgres, bcrypt and golang-jwt are parameters; \<open>order_ok\<close>, \<open>bcrypt_ok\<close> and \<open>jwt_ok\<close> state what is documented about
    them.  The Go interface \<^verbatim>\<open>Querier\<close> is the locale \<open>querier\<close>, interpreted on the queries.
  \<^item> \<^verbatim>\<open>Http_Api\<close> (\<^verbatim>\<open>internal/api/http\<close>: \<^verbatim>\<open>router.go\<close>, \<^verbatim>\<open>middleware/auth.go\<close> and the remaining handlers): the routes with their
    guards.  \<open>serve\<close> runs a whole request; nothing changes and no key is handed out without the key or token that it
    needs.  The pages of the listing fit together if creation times differ, and need not otherwise.

  \<^bold>\<open>The two processes.\<close>
  \<^item> \<^verbatim>\<open>Process_Config\<close> (\<^verbatim>\<open>config.go\<close> and \<^verbatim>\<open>logger.go\<close> of both commands, \<^verbatim>\<open>middleware/logger.go\<close>): reading the configuration, the level
    of the log and the log of requests.  The packages adder and godotenv are parameters.
  \<^item> \<^verbatim>\<open>Database_Setup\<close> (\<^verbatim>\<open>internal/db/db.go\<close>, \<^verbatim>\<open>migration.go\<close>): the calls that migrate the database and open the pool, with the
    connection each is made on.  pgx, database/sql and goose are parameters; the rows that the first
    migration leaves are \<open>migrated_users\<close>.
  \<^item> \<^verbatim>\<open>Server_Main\<close> (\<^verbatim>\<open>cmd/silo-proxy-server/main.go\<close>): how the server starts, is put together, runs and ends, and what
    a server without a key for the administrator lets anybody do.
  \<^item> \<^verbatim>\<open>Agent_Main\<close> (\<^verbatim>\<open>cmd/silo-proxy-agent/main.go\<close>): the choice of the command, the health endpoint, and the life of an agent.

  \<^bold>\<open>Not modelled.\<close>  gRPC, TLS, HTTP and Postgres themselves, gin beyond the matching of routes and the order of
  middleware, the wire format of messages (protobuf keeps a message up to the order of its metadata: \<open>same_message\<close>), CORS headers,
  what is logged apart from requests, generated protocol code, test support, scripts and the simulators of a frontend: they are
  input and output, code of others or no part of the proxy.  \<^verbatim>\<open>sqlc/db.go\<close> and \<^verbatim>\<open>querier.go\<close> only declare the handle through which
  queries reach the database, and the agent's \<^verbatim>\<open>logger.go\<close> is a copy of the server's.
\<close>

section \<open>A request through the proxy\<close>

text \<open>
  C1 (roundtrip): a request to the port of a connected agent, from the HTTP client to the local service and
  back.  If the agent answers in time, the service gets the client's method, body and first header values,
  in whatever order the message's metadata arrives, except that the content type is what gin reports, without its
  parameters; the URL it is called with is its own followed by the text of the decoded path and of the query.  The
  client gets the status, the body and the first header values of the service's response, apart from empty ones,
  and nothing else.  The request was
  queued for this agent, and nothing stays pending.
\<close>

theorem proxy_end_to_end:
  fixes s :: "AgentServerManager Server"
  assumes inv: "conn_inv (srv_connManager s)" and r: "map_of (cm_agents (srv_connManager s)) a = Some r"
    and room: "chan_room (ac_SendCh (cm_heap (srv_connManager s) ! r))"
    and new: "uid \<notin> keys (srv_pendingRequests s)"
    and body: "pc_Body c = Inr body" and hdr: "canonical_header (pc_Header c)"
    and there: "same_message (build_request uid c (pc_Path c) body) msg"
    and agent: "HandleRequest env localURL msg = Inr m0" "Do env (local_request localURL msg) = Inr resp"
    and wire: "same_message m0 m"
    and resp: "canonical_header (lp_Header resp)" "- (2 ^ 63) \<le> lp_StatusCode resp" "lp_StatusCode resp < 2 ^ 63"
  shows "\<exists>hs s' rbody. (createAgentEngine a False False False (\<lambda>s2. case HandleResponse m s2 of Ok s3 \<Rightarrow> s3 | _ \<Rightarrow> s2) uid c s
        :: (asm_error gin_call list \<times> AgentServerManager Server) outcome list)
      = [Ok (hs @ [GinStatus (lp_StatusCode resp), GinWrite rbody], s')] \<and>
    lp_Body resp = Inr rbody \<and>
    (\<forall>k. map_of (written_header hs []) k =
       (case map_of (lp_Header resp) k of Some (v # vs) \<Rightarrow> if v \<noteq> [] then Some [v] else None | _ \<Rightarrow> None)) \<and>
    lr_Method (local_request localURL msg) = (if pc_Method c = [] then ''GET'' else pc_Method c) \<and>
    lr_URL (local_request localURL msg) = localURL @ pc_Path c @ (if pc_RawQuery c = [] then [] else ''?'' @ pc_RawQuery c) \<and>
    lr_Body (local_request localURL msg) = body \<and>
    (\<forall>k. map_of (lr_Header (local_request localURL msg)) k =
       (if k = ''Content-Type'' \<and> pc_ContentType c \<noteq> [] then Some [pc_ContentType c]
        else case map_of (pc_Header c) k of Some (v # vs) \<Rightarrow> Some [v] | _ \<Rightarrow> None)) \<and>
    chan_buf (ac_SendCh (cm_heap (srv_connManager s') ! r)) =
      chan_buf (ac_SendCh (cm_heap (srv_connManager s) ! r)) @ [build_request uid c (pc_Path c) body] \<and>
    srv_pendingRequests s' = srv_pendingRequests s \<and> conn_inv (srv_connManager s')"
proof -
  let ?msg = "build_request uid c (pc_Path c) body"
  have wf: "cm_wf (srv_connManager s)" using inv by (simp add: cm_inv_def)
  have aid: "ac_ID (cm_heap (srv_connManager s) ! r) = a" by (rule cm_wf_entry(2) [OF wf r])
  obtain hs rbody where R: "(write_response m :: asm_error gin_call list) = hs @ [GinStatus (lp_StatusCode resp), GinWrite rbody]"
      "\<forall>call\<in>set hs. \<exists>k v. call = GinHeader k v" "lp_Body resp = Inr rbody" "msg_Id m = msg_Id msg"
      "\<forall>k. map_of (written_header (write_response m :: asm_error gin_call list) []) k =
       (case map_of (lp_Header resp) k of Some (v # vs) \<Rightarrow> if v \<noteq> [] then Some [v] else None | _ \<Rightarrow> None)"
    using forwarded_response [OF agent wire resp, where 'e = asm_error] by blast
  have mid: "msg_Id m = msg_Id ?msg" "msg_Id ?msg = uid" using R(4) there by (simp_all add: same_message_def build_request_def Let_def)
  obtain s' where S: "(SendRequestToAgent False False False (\<lambda>s2. case HandleResponse m s2 of Ok s3 \<Rightarrow> s3 | _ \<Rightarrow> s2) a ?msg s
        :: ((asm_error request_error + ProxyMessage) \<times> AgentServerManager Server) outcome list) = [Ok (Inr m, s')]"
      "srv_pendingRequests s' = srv_pendingRequests s" "conn_inv (srv_connManager s')"
      "chan_buf (ac_SendCh (cm_heap (srv_connManager s') ! r)) = chan_buf (ac_SendCh (cm_heap (srv_connManager s) ! r)) @ [?msg]"
    using request_response_roundtrip [OF inv r room, of ?msg m] new mid by auto
  have run: "(createAgentEngine a False False False (\<lambda>s2. case HandleResponse m s2 of Ok s3 \<Rightarrow> s3 | _ \<Rightarrow> s2) uid c s
        :: (asm_error gin_call list \<times> AgentServerManager Server) outcome list)
      = [Ok (hs @ [GinStatus (lp_StatusCode resp), GinWrite rbody], s')]"
    using r body S(1) R(1) aid by (simp add: createAgentEngine_def ProxyRequestDirect_def forwardRequest_def GetConnection_def)
  have "written_header (hs @ [GinStatus st, GinWrite b]) h = written_header hs h" for st b h
    by (induction hs h rule: written_header.induct) simp_all
  with R(5) have "\<forall>k. map_of (written_header hs []) k =
       (case map_of (lp_Header resp) k of Some (v # vs) \<Rightarrow> if v \<noteq> [] then Some [v] else None | _ \<Rightarrow> None)"
    unfolding R(1) by simp
  with run R(3) S(2-4) forwarded_request [OF hdr there, of localURL] show ?thesis by blast
qed

theorem proxy_end_to_end_witness:
  "let c = \<lparr>pc_Method = ''PUT'', pc_Path = ''/v'', pc_RawQuery = ''x=1'', pc_ContentType = '''', pc_Header = [(''X-Id'', [''7''])], pc_Body = Inr ''b''\<rparr>;
       resp = \<lparr>lp_StatusCode = 404, lp_Header = [(''X-A'', [''1'', ''2''])], lp_Body = Inr ''no''\<rparr>;
       env = \<lparr>NewRequest_error = \<lambda>m u. None, Do = \<lambda>r. Inr resp\<rparr>;
       s = (NewServer 9090 None)\<lparr>srv_connManager := example_cm\<rparr>
   in \<exists>m hs s'. HandleRequest env ''http://l'' (build_request ''u'' c ''/v'' ''b'') = Inr m \<and>
        (createAgentEngine ''a'' False False False (\<lambda>s2. case HandleResponse m s2 of Ok s3 \<Rightarrow> s3 | _ \<Rightarrow> s2) ''u'' c s
          :: (asm_error gin_call list \<times> AgentServerManager Server) outcome list) = [Ok (hs @ [GinStatus 404, GinWrite ''no''], s')] \<and>
        map_of (written_header hs []) ''X-A'' = Some [''1'']"
proof -
  define c where "c = \<lparr>pc_Method = ''PUT'', pc_Path = ''/v'', pc_RawQuery = ''x=1'', pc_ContentType = '''', pc_Header = [(''X-Id'', [''7''])], pc_Body = Inr ''b''\<rparr>"
  define resp where "resp = \<lparr>lp_StatusCode = 404, lp_Header = [(''X-A'', [''1'', ''2''])], lp_Body = Inr ''no''\<rparr>"
  define env where "env = \<lparr>NewRequest_error = \<lambda>m u. None, Do = \<lambda>r. Inr resp\<rparr>"
  define s where "s = (NewServer 9090 None)\<lparr>srv_connManager := example_cm\<rparr>"
  define m where "m = \<lparr>msg_Id = ''u'', msg_Type = RESPONSE, msg_Payload = ''no'', msg_Metadata = response_metadata resp\<rparr>"
  have inv: "conn_inv (srv_connManager s)" using example_cm_inv by (simp add: s_def)
  have r: "map_of (cm_agents (srv_connManager s)) ''a'' = Some 0"
    and room: "chan_room (ac_SendCh (cm_heap (srv_connManager s) ! 0))"
    and new: "''u'' \<notin> keys (srv_pendingRequests s)"
    by (simp_all add: s_def NewServer_def example_cm_def example_conn_def chan_room_def sendChannelBuffer_def)
  have "CanonicalHeaderKey ''X-Id'' = ''X-Id''" "CanonicalHeaderKey ''X-A'' = ''X-A''" by code_simp+
  then have can: "canonical_header (pc_Header c)" "canonical_header (lp_Header resp)"
    by (simp_all add: canonical_header_def gomap_ok_def c_def resp_def)
  have path: "pc_Path c = ''/v''" "pc_Body c = Inr ''b''" by (simp_all add: c_def)
  have there: "same_message (build_request ''u'' c (pc_Path c) ''b'') (build_request ''u'' c (pc_Path c) ''b'')"
    by (simp add: same_message_def build_request_def gomap_ok_def c_def)
  have run: "HandleRequest env ''http://l'' (build_request ''u'' c (pc_Path c) ''b'') = Inr m"
    by (simp add: HandleRequest_def env_def resp_def m_def Let_def build_request_def)
  have do: "Do env (local_request ''http://l'' (build_request ''u'' c (pc_Path c) ''b'')) = Inr resp" by (simp add: env_def)
  have wire: "same_message m m" by (simp add: same_message_def m_def resp_def response_metadata_def gomap_ok_def)
  from proxy_end_to_end [OF inv r room new path(2) can(1) there run do wire can(2)] run path(1)
  show ?thesis unfolding Let_def c_def [symmetric] resp_def [symmetric] env_def [symmetric] s_def [symmetric]
    by (auto simp: resp_def intro!: exI [of _ m])
qed

end
